(* ===== verification/Prelude.thy ===== *)
theory Prelude
  imports Complex_Main "HOL-Library.Word" "HOL-Library.Stream"
begin

unbundle bit_operations_syntax

text \<open>
  Shared vocabulary of the development: the machine integers of the C++ code, the collections
  of facts that the component theories feed to the simplifier, and the generic lemmas on words
  and lists that more than one component needs.
\<close>

type_synonym u8 = "8 word"
type_synonym u16 = "16 word"
type_synonym u32 = "32 word"
type_synonym u64 = "64 word"

named_theorems frame_simps \<open>what an operation leaves unchanged\<close>
named_theorems wire_simps \<open>lengths and bytes of the frames on the wire\<close>

section \<open>Words\<close>

lemma bit_u8_ge [simp]: "8 \<le> n \<Longrightarrow> \<not> bit (x :: u8) n"
  using bit_imp_le_length [of x n] by auto

lemma bit_u16_ge [simp]: "16 \<le> n \<Longrightarrow> \<not> bit (x :: u16) n"
  using bit_imp_le_length [of x n] by auto

lemma bit_u8_less: "bit (x :: u8) n \<Longrightarrow> n < 8"
  by (metis bit_u8_ge not_le)

lemma unat_u8_less [simp]: "unat (x :: u8) < 256"
  using unsigned_less [of x, where 'a = nat] by simp

lemma unat_u8_le [simp]: "unat (x :: u8) \<le> 255"
  using unat_u8_less [of x] by linarith

lemma unat_u16_less [simp]: "unat (x :: u16) < 65536"
  using unsigned_less [of x, where 'a = nat] by simp

lemma ucast_ucast_u8 [simp]: "(ucast (ucast (b :: u8) :: u16) :: u8) = b"
  by (rule bit_eqI) (auto simp: bit_simps dest: bit_u8_less)

lemma ucast_u8_u16_inj: "(ucast (b :: u8) :: u16) = ucast c \<Longrightarrow> b = c"
  by (metis ucast_ucast_u8)

lemma u16_bytes_split:
  "(x :: u16) = push_bit 8 (ucast (ucast (drop_bit 8 x) :: u8)) OR ucast (ucast x :: u8)"
  by (rule bit_eqI) (auto simp: bit_simps)

lemma u16_eq_bytesI:
  assumes "(ucast (drop_bit 8 x) :: u8) = ucast (drop_bit 8 y)" and "(ucast x :: u8) = ucast y"
  shows "(x :: u16) = y"
  by (metis assms u16_bytes_split)

text \<open>Masking with a low block of ones keeps the low bits.\<close>

lemma and_low_mask:
  "(x :: 'a :: len word) AND 0x01 = take_bit 1 x"
  "x AND 0x03 = take_bit 2 x"
  "x AND 0xF = take_bit 4 x"
  "x AND 0x7F = take_bit 7 x"
  "x AND 0xFF = take_bit 8 x"
  by (simp_all add: take_bit_eq_mask mask_eq_exp_minus_1)

lemma unat_take_bit_less: "unat (take_bit n (x :: 'a :: len word)) < 2 ^ n"
  by (simp add: unsigned_take_bit_eq)

lemma u8_two_bits_cases:
  assumes "\<And>n. 2 \<le> n \<Longrightarrow> \<not> bit (x :: u8) n"
  shows "x = 0 \<or> x = 1 \<or> x = 2 \<or> x = 3"
proof -
  have "take_bit 2 x = x" by (rule bit_eqI) (auto simp: bit_simps, metis assms not_less)
  then have "unat x < 4" using unat_take_bit_less [of 2 x] by simp
  then have "unat x = unat (0 :: u8) \<or> unat x = unat (1 :: u8) \<or> unat x = unat (2 :: u8) \<or> unat x = unat (3 :: u8)"
    by auto
  then show ?thesis by (simp only: word_unat_eq_iff)
qed

lemma two_bit_field:
  assumes "\<And>n. 2 \<le> n \<Longrightarrow> \<not> bit (x :: u8) n"
  shows "x = 0 \<longleftrightarrow> \<not> bit x 1 \<and> \<not> bit x 0" "x = 1 \<longleftrightarrow> \<not> bit x 1 \<and> bit x 0"
    "x = 2 \<longleftrightarrow> bit x 1 \<and> \<not> bit x 0" "x = 3 \<longleftrightarrow> bit x 1 \<and> bit x 0"
  using u8_two_bits_cases [OF assms] by auto

lemma xor_right_cancel: "(x :: u16) XOR z = y XOR z \<Longrightarrow> x = y"
proof -
  assume "x XOR z = y XOR z"
  then have "(x XOR z) XOR z = (y XOR z) XOR z" by simp
  then show "x = y" by (simp add: xor.assoc)
qed

lemma xor_left_cancel: "(z :: u16) XOR x = z XOR y \<Longrightarrow> x = y"
  by (rule xor_right_cancel [of x z y]) (simp add: xor.commute)

lemma u16_plus_eq_or: "(push_bit 8 x :: u16) + ucast (b :: u8) = push_bit 8 x OR ucast b"
  by (rule disjunctive_add) (auto simp: bit_simps)

section \<open>Lists\<close>

lemma take_list_update_same: "n \<le> i \<Longrightarrow> take n (xs[i := v]) = take n xs"
  by (simp add: take_update_swap list_update_beyond)

lemma take_Suc_list_update:
  "n < length xs \<Longrightarrow> take (Suc n) (xs[n := v]) = take n xs @ [v]"
  by (simp add: take_Suc_conv_app_nth)

section \<open>Runs of a step function\<close>

text \<open>The state after a sequence of events; \<open>None\<close> where a step is undefined or does not return.\<close>

fun run_steps :: "('e \<Rightarrow> 's \<Rightarrow> 's option) \<Rightarrow> 'e list \<Rightarrow> 's \<Rightarrow> 's option" where
  "run_steps step [] s = Some s"
| "run_steps step (e # es) s = (case step e s of None \<Rightarrow> None | Some s1 \<Rightarrow> run_steps step es s1)"

lemma run_steps_append:
  "run_steps step (es @ fs) s = (case run_steps step es s of None \<Rightarrow> None | Some s1 \<Rightarrow> run_steps step fs s1)"
  by (induction es arbitrary: s) (auto split: option.split)

lemma run_steps_invariant:
  assumes "run_steps step es s = Some s'" "I s" "\<And>e s s'. e \<in> set es \<Longrightarrow> I s \<Longrightarrow> step e s = Some s' \<Longrightarrow> I s'"
  shows "I s'"
  using assms
proof (induction es arbitrary: s)
  case (Cons e es)
  then obtain s1 where "step e s = Some s1" "run_steps step es s1 = Some s'" by (auto split: option.splits)
  with Cons.prems(2,3) show ?case by (intro Cons.IH [of s1]) (auto intro: Cons.prems(3))
qed simp

section \<open>Decimal numbers\<close>

text \<open>\<^verbatim>\<open>std::to_string\<close> of a non-negative integer.\<close>

definition digit :: "nat \<Rightarrow> char" where
  "digit d = char_of (48 + d)"

fun dec :: "nat \<Rightarrow> string" where
  "dec n = (if n < 10 then [digit n] else dec (n div 10) @ [digit (n mod 10)])"

declare dec.simps [simp del]

end
