(* ===== verification/Protocol_3f.thy ===== *)
theory Protocol_3f
  imports Prelude
begin

text \<open>
  The process images of the Robotiq 3F gripper,
  \<^verbatim>\<open>robotiq_3f_driver/src/protocol.cpp\<close>, and the two ROS messages they encode
  (\<^verbatim>\<open>Robotiq3FCommand.msg\<close>, \<^verbatim>\<open>Robotiq3FStatus.msg\<close>). An image is a list of 16 bytes. The lemmas
  show that packing a command loses nothing but its identifier, that unpacking a status loses
  nothing but the reserved last byte, and the ranges of the decoded fields.
\<close>

record command =
  c_command_id :: u64
  c_activate :: bool
  c_mode :: u8
  c_go_to :: bool
  c_automatic_release :: bool
  c_glove_mode :: bool
  c_individual_finger_control :: bool
  c_individual_scissor_control :: bool
  c_position_a :: u8
  c_speed_a :: u8
  c_force_a :: u8
  c_position_b :: u8
  c_speed_b :: u8
  c_force_b :: u8
  c_position_c :: u8
  c_speed_c :: u8
  c_force_c :: u8
  c_position_scissor :: u8
  c_speed_scissor :: u8
  c_force_scissor :: u8

text \<open>\<^verbatim>\<open>Command{}\<close>: a message whose fields all have their default value.\<close>

definition Command :: command where
  "Command = \<lparr>c_command_id = 0, c_activate = False, c_mode = 0, c_go_to = False,
     c_automatic_release = False, c_glove_mode = False, c_individual_finger_control = False,
     c_individual_scissor_control = False, c_position_a = 0, c_speed_a = 0, c_force_a = 0,
     c_position_b = 0, c_speed_b = 0, c_force_b = 0, c_position_c = 0, c_speed_c = 0, c_force_c = 0,
     c_position_scissor = 0, c_speed_scissor = 0, c_force_scissor = 0\<rparr>"

record status =
  s_stamp :: int
  s_connected :: bool
  s_connection_id :: u64
  s_last_command_id :: u64
  s_diagnostic :: string
  s_activated :: bool
  s_mode :: u8
  s_go_to :: bool
  s_initialization_status :: u8
  s_motion_status :: u8
  s_object_status_a :: u8
  s_object_status_b :: u8
  s_object_status_c :: u8
  s_object_status_scissor :: u8
  s_fault_status :: u8
  s_requested_position_a :: u8
  s_actual_position_a :: u8
  s_current_a :: u8
  s_requested_position_b :: u8
  s_actual_position_b :: u8
  s_current_b :: u8
  s_requested_position_c :: u8
  s_actual_position_c :: u8
  s_current_c :: u8
  s_requested_position_scissor :: u8
  s_actual_position_scissor :: u8
  s_current_scissor :: u8

definition Status :: status where
  "Status = \<lparr>s_stamp = 0, s_connected = False, s_connection_id = 0, s_last_command_id = 0,
     s_diagnostic = '''', s_activated = False, s_mode = 0, s_go_to = False,
     s_initialization_status = 0, s_motion_status = 0, s_object_status_a = 0,
     s_object_status_b = 0, s_object_status_c = 0, s_object_status_scissor = 0,
     s_fault_status = 0, s_requested_position_a = 0, s_actual_position_a = 0, s_current_a = 0,
     s_requested_position_b = 0, s_actual_position_b = 0, s_current_b = 0,
     s_requested_position_c = 0, s_actual_position_c = 0, s_current_c = 0,
     s_requested_position_scissor = 0, s_actual_position_scissor = 0, s_current_scissor = 0\<rparr>"

definition MODE_BASIC :: u8 where "MODE_BASIC = 0"
definition MODE_PINCH :: u8 where "MODE_PINCH = 1"
definition MODE_SCISSOR :: u8 where "MODE_SCISSOR = 3"
definition INITIALIZATION_RESET :: u8 where "INITIALIZATION_RESET = 0"
definition INITIALIZATION_READY :: u8 where "INITIALIZATION_READY = 3"
definition MOTION_MOVING :: u8 where "MOTION_MOVING = 0"
definition MOTION_PARTIAL_CONTACT :: u8 where "MOTION_PARTIAL_CONTACT = 1"
definition MOTION_ALL_CONTACT :: u8 where "MOTION_ALL_CONTACT = 2"
definition MOTION_REACHED :: u8 where "MOTION_REACHED = 3"

text \<open>The exceptions of the 3F packages; the string is what \<^verbatim>\<open>what()\<close> returns.\<close>

datatype cpp_exception = Invalid_argument string | Runtime_error string

fun what :: "cpp_exception \<Rightarrow> string" where
  "what (Invalid_argument m) = m"
| "what (Runtime_error m) = m"

definition kProcessImageSize :: nat where "kProcessImageSize = 16"

definition pack_command :: "command \<Rightarrow> cpp_exception + u8 list" where
  "pack_command command =
     (if c_mode command > 3 then
        Inl (Invalid_argument ''Robotiq 3F mode must be in the range 0..3'')
      else
        Inr [(if c_activate command then 0x01 else 0x00) OR
               push_bit 1 (c_mode command AND 0x03) OR
               (if c_go_to command then 0x08 else 0x00) OR
               (if c_automatic_release command then 0x10 else 0x00),
             (if c_glove_mode command then 0x01 else 0x00) OR
               (if c_individual_finger_control command then 0x04 else 0x00) OR
               (if c_individual_scissor_control command then 0x08 else 0x00),
             0,
             c_position_a command, c_speed_a command, c_force_a command,
             c_position_b command, c_speed_b command, c_force_b command,
             c_position_c command, c_speed_c command, c_force_c command,
             c_position_scissor command, c_speed_scissor command, c_force_scissor command,
             0])"

definition unpack_status :: "u8 list \<Rightarrow> status" where
  "unpack_status img =
     Status\<lparr>
       s_activated := (img ! 0 AND 0x01 \<noteq> 0),
       s_mode := drop_bit 1 (img ! 0) AND 0x03,
       s_go_to := (img ! 0 AND 0x08 \<noteq> 0),
       s_initialization_status := drop_bit 4 (img ! 0) AND 0x03,
       s_motion_status := drop_bit 6 (img ! 0) AND 0x03,
       s_object_status_a := img ! 1 AND 0x03,
       s_object_status_b := drop_bit 2 (img ! 1) AND 0x03,
       s_object_status_c := drop_bit 4 (img ! 1) AND 0x03,
       s_object_status_scissor := drop_bit 6 (img ! 1) AND 0x03,
       s_fault_status := img ! 2,
       s_requested_position_a := img ! 3,
       s_actual_position_a := img ! 4,
       s_current_a := img ! 5,
       s_requested_position_b := img ! 6,
       s_actual_position_b := img ! 7,
       s_current_b := img ! 8,
       s_requested_position_c := img ! 9,
       s_actual_position_c := img ! 10,
       s_current_c := img ! 11,
       s_requested_position_scissor := img ! 12,
       s_actual_position_scissor := img ! 13,
       s_current_scissor := img ! 14\<rparr>"

section \<open>What the gripper reads from a command image\<close>

text \<open>The register map of the gripper's output image, as a decoder.\<close>

definition decode_command :: "u8 list \<Rightarrow> command" where
  "decode_command img =
     \<lparr>c_command_id = 0, c_activate = bit (img ! 0) 0,
      c_mode = take_bit 2 (drop_bit 1 (img ! 0)),
      c_go_to = bit (img ! 0) 3, c_automatic_release = bit (img ! 0) 4,
      c_glove_mode = bit (img ! 1) 0, c_individual_finger_control = bit (img ! 1) 2,
      c_individual_scissor_control = bit (img ! 1) 3,
      c_position_a = img ! 3, c_speed_a = img ! 4, c_force_a = img ! 5,
      c_position_b = img ! 6, c_speed_b = img ! 7, c_force_b = img ! 8,
      c_position_c = img ! 9, c_speed_c = img ! 10, c_force_c = img ! 11,
      c_position_scissor = img ! 12, c_speed_scissor = img ! 13, c_force_scissor = img ! 14\<rparr>"

lemma bit_power_u8: "bit (2 ^ m :: u8) n = (n = m \<and> m < 8)"
  by (auto simp: bit_exp_iff)

lemma flag_bit:
  "bit (if b then 0x01 else 0x00 :: u8) n = (b \<and> n = 0)"
  "bit (if b then 0x04 else 0x00 :: u8) n = (b \<and> n = 2)"
  "bit (if b then 0x08 else 0x00 :: u8) n = (b \<and> n = 3)"
  "bit (if b then 0x10 else 0x00 :: u8) n = (b \<and> n = 4)"
  using bit_power_u8 [of 0 n] bit_power_u8 [of 2 n] bit_power_u8 [of 3 n] bit_power_u8 [of 4 n]
  by simp_all

lemma mode_take_bit: "\<not> (m :: u8) > 3 \<Longrightarrow> take_bit 2 m = m"
  by (simp add: word_unat_eq_iff unsigned_take_bit_eq take_bit_nat_eq_self word_less_nat_alt)

text \<open>The first two bytes of a command image, from the fields they hold.\<close>

lemma command_byte_0_bits:
  "bit ((if a then 0x01 else 0x00) OR push_bit 1 ((m :: u8) AND 0x03) OR
     (if g then 0x08 else 0x00) OR (if r then 0x10 else 0x00)) n \<longleftrightarrow>
   n = 0 \<and> a \<or> (n = 1 \<or> n = 2) \<and> bit m (n - 1) \<or> n = 3 \<and> g \<or> n = 4 \<and> r"
  unfolding bit_or_iff flag_bit bit_push_bit_iff and_low_mask bit_take_bit_iff by auto

lemma command_byte_1_bits:
  "bit ((if g then 0x01 else 0x00) OR (if f then 0x04 else 0x00) OR (if s then 0x08 else 0x00) :: u8) n \<longleftrightarrow>
   n = 0 \<and> g \<or> n = 2 \<and> f \<or> n = 3 \<and> s"
  unfolding bit_or_iff flag_bit by auto

definition command_byte_0 :: "command \<Rightarrow> u8" where
  "command_byte_0 c = (if c_activate c then 0x01 else 0x00) OR push_bit 1 (c_mode c AND 0x03) OR
     (if c_go_to c then 0x08 else 0x00) OR (if c_automatic_release c then 0x10 else 0x00)"

definition command_byte_1 :: "command \<Rightarrow> u8" where
  "command_byte_1 c = (if c_glove_mode c then 0x01 else 0x00) OR
     (if c_individual_finger_control c then 0x04 else 0x00) OR
     (if c_individual_scissor_control c then 0x08 else 0x00)"

lemma command_bits:
  "bit (command_byte_0 c) n \<longleftrightarrow> n = 0 \<and> c_activate c \<or> (n = 1 \<or> n = 2) \<and> bit (c_mode c) (n - 1)
    \<or> n = 3 \<and> c_go_to c \<or> n = 4 \<and> c_automatic_release c"
  "bit (command_byte_1 c) n \<longleftrightarrow> n = 0 \<and> c_glove_mode c \<or> n = 2 \<and> c_individual_finger_control c
    \<or> n = 3 \<and> c_individual_scissor_control c"
  unfolding command_byte_0_def command_byte_1_def command_byte_0_bits command_byte_1_bits
  by (rule refl)+

lemma pack_command_eq:
  "pack_command c =
     (if c_mode c > 3 then Inl (Invalid_argument ''Robotiq 3F mode must be in the range 0..3'')
      else Inr (command_byte_0 c # command_byte_1 c # [0,
        c_position_a c, c_speed_a c, c_force_a c, c_position_b c, c_speed_b c, c_force_b c,
        c_position_c c, c_speed_c c, c_force_c c, c_position_scissor c, c_speed_scissor c,
        c_force_scissor c, 0]))"
  by (simp only: pack_command_def command_byte_0_def command_byte_1_def)

lemma mode_field: "take_bit 2 (drop_bit 1 (command_byte_0 c)) = take_bit 2 (c_mode c)"
  by (rule bit_eqI) (auto simp: bit_simps command_bits less_Suc_eq numeral_2_eq_2)

lemma pack_command_fails_iff: "pack_command c = Inl e \<longleftrightarrow>
    c_mode c > 3 \<and> e = Invalid_argument ''Robotiq 3F mode must be in the range 0..3''"
  by (auto simp: pack_command_eq)

lemma decode_pack_command:
  assumes "pack_command c = Inr img"
  shows "length img = 16 \<and> decode_command img = c\<lparr>c_command_id := 0\<rparr>"
proof -
  have ok: "\<not> c_mode c > 3" using assms by (auto simp: pack_command_eq split: if_splits)
  have "img = command_byte_0 c # command_byte_1 c # [0,
        c_position_a c, c_speed_a c, c_force_a c, c_position_b c, c_speed_b c, c_force_b c,
        c_position_c c, c_speed_c c, c_force_c c, c_position_scissor c, c_speed_scissor c,
        c_force_scissor c, 0]"
    using assms ok by (simp add: pack_command_eq)
  then show ?thesis
    by (simp add: decode_command_def command_bits mode_field [unfolded One_nat_def] mode_take_bit [OF ok])
qed

text \<open>C12. Packing a command is lossless: a packed image has 16 bytes and the register decoding of
  the gripper recovers every field of the command but its identifier, which is not sent; and
  packing fails exactly for a mode outside 0..3.\<close>

theorem pack_command_round_trip:
  "case pack_command c of
     Inl e \<Rightarrow> c_mode c > 3 \<and> e = Invalid_argument ''Robotiq 3F mode must be in the range 0..3''
   | Inr img \<Rightarrow> c_mode c \<le> 3 \<and> length img = kProcessImageSize \<and>
       decode_command img = c\<lparr>c_command_id := 0\<rparr>"
  using decode_pack_command [of c] pack_command_fails_iff [of c]
  by (auto simp: kProcessImageSize_def pack_command_eq split: sum.splits if_splits)

section \<open>What a status image determines\<close>

lemma mask_bit_u8: "((x :: u8) AND 0x01 \<noteq> 0) = bit x 0" "((x :: u8) AND 0x08 \<noteq> 0) = bit x 3"
proof -
  show "((x :: u8) AND 0x01 \<noteq> 0) = bit x 0" by (simp add: and_one_eq odd_iff_mod_2_eq_one bit_0)
  have "(8 :: u8) = push_bit 3 1" by simp
  then have "((x :: u8) AND 0x08 \<noteq> 0) = (x AND push_bit 3 1 \<noteq> 0)" by simp
  then show "((x :: u8) AND 0x08 \<noteq> 0) = bit x 3" by (simp only: bit_iff_and_push_bit_not_eq_0)
qed

text \<open>A two-bit field determines its two bits; \<^verbatim>\<open>field\<close> covers every field of the first three bytes.\<close>

lemma two_bit_field_eq:
  "drop_bit k (x :: u8) AND 0x03 = drop_bit k y AND 0x03 \<longleftrightarrow>
   bit x k = bit y k \<and> bit x (k + 1) = bit y (k + 1)" (is "?L \<longleftrightarrow> ?R")
proof
  assume ?L
  then have "bit (take_bit 2 (drop_bit k x)) n = bit (take_bit 2 (drop_bit k y)) n" for n
    by (simp add: and_low_mask)
  from this [of 0] this [of 1] show ?R by (simp add: bit_take_bit_iff bit_drop_bit_eq)
next
  assume ?R
  then have "bit (take_bit 2 (drop_bit k x)) n = bit (take_bit 2 (drop_bit k y)) n" for n
    by (cases n; cases "n - 1") (auto simp: bit_take_bit_iff bit_drop_bit_eq)
  then show ?L unfolding and_low_mask by (rule bit_eqI)
qed

lemma two_bit_field_eq0:
  "(x :: u8) AND 0x03 = y AND 0x03 \<longleftrightarrow> bit x 0 = bit y 0 \<and> bit x 1 = bit y 1"
  using two_bit_field_eq [of 0 x y] by simp

lemma u8_bits_eqI:
  assumes "bit (x :: u8) 0 = bit y 0" "bit x 1 = bit y 1" "bit x 2 = bit y 2" "bit x 3 = bit y 3"
    "bit x 4 = bit y 4" "bit x 5 = bit y 5" "bit x 6 = bit y 6" "bit x 7 = bit y 7"
  shows "x = y"
proof (rule bit_eqI)
  fix n :: nat
  consider "n = 0" | "n = 1" | "n = 2" | "n = 3" | "n = 4" | "n = 5" | "n = 6" | "n = 7" | "8 \<le> n"
    by linarith
  then show "bit x n = bit y n" by cases (simp_all only: assms bit_u8_ge)
qed

lemma status_byte_0_eqI:
  assumes "bit (x :: u8) 0 = bit y 0" "drop_bit 1 x AND 0x03 = drop_bit 1 y AND 0x03"
    "bit x 3 = bit y 3" "drop_bit 4 x AND 0x03 = drop_bit 4 y AND 0x03"
    "drop_bit 6 x AND 0x03 = drop_bit 6 y AND 0x03"
  shows "x = y"
  by (rule u8_bits_eqI) (use assms [unfolded two_bit_field_eq] in \<open>simp_all del: One_nat_def\<close>)

lemma status_byte_1_eqI:
  assumes "(x :: u8) AND 0x03 = y AND 0x03" "drop_bit 2 x AND 0x03 = drop_bit 2 y AND 0x03"
    "drop_bit 4 x AND 0x03 = drop_bit 4 y AND 0x03" "drop_bit 6 x AND 0x03 = drop_bit 6 y AND 0x03"
  shows "x = y"
  by (rule u8_bits_eqI) (use assms(1) [unfolded two_bit_field_eq0] assms(2-) [unfolded two_bit_field_eq] in \<open>simp_all\<close>)

lemma list16_eqI:
  assumes "length xs = 16" "length ys = 16" and "\<And>i. i < 15 \<Longrightarrow> xs ! i = ys ! i"
  shows "take 15 xs = take 15 ys"
  by (rule nth_equalityI) (auto simp: assms)

lemma unpack_status_determines:
  assumes len: "length img = 16" "length img' = 16" and eq: "unpack_status img = unpack_status img'"
  shows "take 15 img = take 15 img'"
proof (rule list16_eqI [OF len])
  note fields = eq [unfolded unpack_status_def Status_def mask_bit_u8, simplified]
  have b0: "img ! 0 = img' ! 0" by (rule status_byte_0_eqI) (use fields in \<open>simp_all\<close>)
  have b1: "img ! 1 = img' ! 1" by (rule status_byte_1_eqI) (use fields in \<open>simp_all\<close>)
  have "\<forall>i<15. img ! i = img' ! i"
    using b0 b1 fields by (simp add: All_less_Suc eval_nat_numeral)
  then show "\<And>i. i < 15 \<Longrightarrow> img ! i = img' ! i" by blast
qed

lemma unpack_status_congr:
  assumes "take 15 img = take 15 img'"
  shows "unpack_status img = unpack_status img'"
proof -
  have nth: "img ! i = img' ! i" if "i < 15" for i
    using arg_cong [OF assms, of "\<lambda>l. l ! i"] that by simp
  show ?thesis by (simp add: unpack_status_def nth)
qed

text \<open>A status image and the decoded status carry the same information: two images decode to
  the same status exactly when their first 15 bytes agree (the last byte is reserved).\<close>

theorem unpack_status_lossless:
  assumes "length img = kProcessImageSize" "length img' = kProcessImageSize"
  shows "unpack_status img = unpack_status img' \<longleftrightarrow> take 15 img = take 15 img'"
  using unpack_status_determines [OF assms [unfolded kProcessImageSize_def]] unpack_status_congr
  by blast

theorem unpack_status_lossless_witness:
  "unpack_status (replicate 16 7) = unpack_status (replicate 15 7 @ [9])"
  using unpack_status_lossless [of "replicate 16 7" "replicate 15 7 @ [9]"]
  by (simp add: kProcessImageSize_def)

text \<open>The two-bit fields of a status are at most 3, and decoding never touches the fields the
  driver fills in itself.\<close>

lemma two_bit_le_3: "(x :: u8) AND 0x03 \<le> 3"
  using unat_take_bit_less [of 2 x] by (simp add: and_low_mask word_le_nat_alt)

lemma unpack_status_ranges [simp]:
  "s_mode (unpack_status img) \<le> 3" "s_initialization_status (unpack_status img) \<le> 3"
  "s_motion_status (unpack_status img) \<le> 3" "s_object_status_a (unpack_status img) \<le> 3"
  "s_object_status_b (unpack_status img) \<le> 3" "s_object_status_c (unpack_status img) \<le> 3"
  "s_object_status_scissor (unpack_status img) \<le> 3"
  by (simp_all add: unpack_status_def two_bit_le_3)

lemma unpack_status_frame [simp]:
  "s_connected (unpack_status img) = False" "s_connection_id (unpack_status img) = 0"
  "s_last_command_id (unpack_status img) = 0" "s_diagnostic (unpack_status img) = ''''"
  by (simp_all add: unpack_status_def Status_def)

end
