(* ===== verification/Modbus_Tcp_Client.thy ===== *)
theory Modbus_Tcp_Client
  imports Protocol_3f "HOL-Library.Sublist"
begin

text \<open>
  The Modbus TCP client of the 3F gripper driver,
  \<^verbatim>\<open>robotiq_3f_driver/src/modbus_tcp_client.cpp\<close>. The state holds the members of the class.
  The operating system and the socket library are scripts: the clock readings, the results of
  \<^verbatim>\<open>poll\<close>, of \<^verbatim>\<open>write_some\<close> and \<^verbatim>\<open>read_some\<close>, and the steps of a connection
  attempt are arbitrary streams, of which each call takes the next entry. \<open>mc_sent\<close> and
  \<open>mc_received\<close> log the bytes the socket took and gave. Times are nanoseconds. A waiting loop that
  never ends is the value \<open>None\<close>.
\<close>

datatype poll_event =
    Poll_ready u16       \<comment> \<open>a positive result, with \<^verbatim>\<open>revents\<close>\<close>
  | Poll_timeout         \<comment> \<open>result 0\<close>
  | Poll_interrupted     \<comment> \<open>\<^verbatim>\<open>errno = EINTR\<close>\<close>
  | Poll_failed string   \<comment> \<open>any other \<^verbatim>\<open>errno\<close>, as \<^verbatim>\<open>strerror\<close> prints it\<close>

datatype write_some_event = Sent_count nat | Send_again | Send_error string

datatype read_some_event = Got_bytes "u8 list" | Get_again | Get_error string

datatype connect_event = Connect_done | Connect_pending | Connect_error string

record connect_script =
  cs_make_address :: "string option"
  cs_open :: "string option"
  cs_non_blocking :: "string option"
  cs_connect :: connect_event
  cs_getsockopt :: "string option"
  cs_socket_error :: "string option"

record modbus_client =
  mc_address :: string
  mc_port :: u16
  mc_unit_id :: u8
  mc_connect_timeout :: int
  mc_response_timeout :: int
  mc_transaction_id :: u16
  mc_socket :: "bool option"    \<comment> \<open>\<^verbatim>\<open>socket_\<close>: null, or a socket that is open or not\<close>
  mc_clock :: "int stream"
  mc_polls :: "poll_event stream"
  mc_writes :: "write_some_event stream"
  mc_reads :: "read_some_event stream"
  mc_connects :: "connect_script stream"
  mc_sent :: "u8 list"
  mc_received :: "u8 list"

text \<open>The constructor; \<open>os\<close> supplies the scripts.\<close>

definition ModbusTcpClient ::
  "string \<Rightarrow> u16 \<Rightarrow> u8 \<Rightarrow> int \<Rightarrow> int \<Rightarrow> modbus_client \<Rightarrow> modbus_client" where
  "ModbusTcpClient address port unit_id connect_timeout response_timeout os =
     os\<lparr>mc_address := address, mc_port := port, mc_unit_id := unit_id,
        mc_connect_timeout := connect_timeout, mc_response_timeout := response_timeout,
        mc_transaction_id := 0, mc_socket := None\<rparr>"

type_synonym 'a outcome = "((cpp_exception + 'a) \<times> modbus_client) option"

definition io_error :: "string \<Rightarrow> string \<Rightarrow> cpp_exception" where
  "io_error operation detail = Runtime_error (operation @ '': '' @ detail)"

text \<open>\<^verbatim>\<open>at\<close> raises for an offset out of range; every call below is in range.\<close>

definition read_u16 :: "u8 list \<Rightarrow> nat \<Rightarrow> u16" where
  "read_u16 data offset = push_bit 8 (ucast (data ! offset)) OR ucast (data ! (offset + 1))"

definition append_u16 :: "u8 list \<Rightarrow> u16 \<Rightarrow> u8 list" where
  "append_u16 data value = data @ [ucast (drop_bit 8 value AND 0xFF), ucast (value AND 0xFF)]"

definition POLLIN :: u16 where "POLLIN = 0x01"
definition POLLOUT :: u16 where "POLLOUT = 0x04"
definition POLLERR :: u16 where "POLLERR = 0x08"
definition POLLHUP :: u16 where "POLLHUP = 0x10"
definition POLLNVAL :: u16 where "POLLNVAL = 0x20"

text \<open>\<^verbatim>\<open>duration_cast<milliseconds>\<close> rounds towards zero.\<close>

definition duration_cast_ms :: "int \<Rightarrow> int" where
  "duration_cast_ms ns = (if ns < 0 then - ((- ns) div 1000000) else ns div 1000000)"

definition now :: "modbus_client \<Rightarrow> int \<times> modbus_client" where
  "now c = (shd (mc_clock c), c\<lparr>mc_clock := stl (mc_clock c)\<rparr>)"

definition next_poll :: "modbus_client \<Rightarrow> poll_event \<times> modbus_client" where
  "next_poll c = (shd (mc_polls c), c\<lparr>mc_polls := stl (mc_polls c)\<rparr>)"

definition is_open :: "modbus_client \<Rightarrow> bool" where
  "is_open c \<longleftrightarrow> mc_socket c = Some True"

definition close :: "modbus_client \<Rightarrow> modbus_client" where
  "close c = c\<lparr>mc_socket := None\<rparr>"

text \<open>The loop of \<^verbatim>\<open>wait_for\<close>.\<close>

partial_function (option) wait_loop :: "u16 \<Rightarrow> int \<Rightarrow> modbus_client \<Rightarrow> unit outcome" where
  "wait_loop events deadline c =
     (case now c of (t, c1) \<Rightarrow>
      if duration_cast_ms (deadline - t) \<le> 0 then
        Some (Inl (io_error ''wait for Modbus TCP socket'' ''timed out''), c1)
      else case next_poll c1 of (p, c2) \<Rightarrow>
        (case p of
           Poll_ready revents \<Rightarrow>
             if revents AND (POLLERR OR POLLHUP OR POLLNVAL) \<noteq> 0 then
               Some (Inl (io_error ''wait for Modbus TCP socket'' ''connection closed or failed''), c2)
             else if revents AND events \<noteq> 0 then Some (Inr (), c2)
             else wait_loop events deadline c2
         | Poll_timeout \<Rightarrow> Some (Inl (io_error ''wait for Modbus TCP socket'' ''timed out''), c2)
         | Poll_interrupted \<Rightarrow> wait_loop events deadline c2
         | Poll_failed e \<Rightarrow> Some (Inl (io_error ''poll Modbus TCP socket'' e), c2)))"

definition wait_for :: "u16 \<Rightarrow> int \<Rightarrow> modbus_client \<Rightarrow> unit outcome" where
  "wait_for events deadline c =
     (if \<not> is_open c then
        Some (Inl (io_error ''wait for Modbus TCP socket'' ''socket is closed''), c)
      else wait_loop events deadline c)"

text \<open>\<^verbatim>\<open>write_some\<close> takes at most the bytes it is offered, \<^verbatim>\<open>read_some\<close> gives at most the
  bytes asked for.\<close>

definition write_some :: "u8 list \<Rightarrow> modbus_client \<Rightarrow> write_some_event \<times> modbus_client" where
  "write_some bytes c =
     (let c1 = c\<lparr>mc_writes := stl (mc_writes c)\<rparr> in
      case shd (mc_writes c) of
        Sent_count n \<Rightarrow>
          (Sent_count (min n (length bytes)), c1\<lparr>mc_sent := mc_sent c @ take n bytes\<rparr>)
      | e \<Rightarrow> (e, c1))"

definition read_some :: "nat \<Rightarrow> modbus_client \<Rightarrow> read_some_event \<times> modbus_client" where
  "read_some n c =
     (let c1 = c\<lparr>mc_reads := stl (mc_reads c)\<rparr> in
      case shd (mc_reads c) of
        Got_bytes bs \<Rightarrow> (Got_bytes (take n bs), c1\<lparr>mc_received := mc_received c @ take n bs\<rparr>)
      | e \<Rightarrow> (e, c1))"

partial_function (option) send_all_loop :: "u8 list \<Rightarrow> int \<Rightarrow> nat \<Rightarrow> modbus_client \<Rightarrow> unit outcome" where
  "send_all_loop data deadline offset c =
     (if offset < length data then
        (case wait_for POLLOUT deadline c of
           None \<Rightarrow> None
         | Some (Inl e, c1) \<Rightarrow> Some (Inl e, c1)
         | Some (Inr _, c1) \<Rightarrow>
             (case write_some (drop offset data) c1 of
                (Send_again, c2) \<Rightarrow> send_all_loop data deadline offset c2
              | (Send_error e, c2) \<Rightarrow> Some (Inl (io_error ''write Modbus TCP request'' e), c2)
              | (Sent_count count, c2) \<Rightarrow>
                  (if count = 0 then
                     Some (Inl (io_error ''write Modbus TCP request'' ''connection closed''), c2)
                   else send_all_loop data deadline (offset + count) c2)))
      else Some (Inr (), c))"

definition send_all :: "u8 list \<Rightarrow> modbus_client \<Rightarrow> unit outcome" where
  "send_all data c =
     (case now c of (t, c1) \<Rightarrow>
      send_all_loop data (t + mc_response_timeout c * 1000000) 0 c1)"

text \<open>The loop of \<^verbatim>\<open>receive_exact\<close>; \<open>data\<close> holds the bytes received so far (\<^verbatim>\<open>offset\<close> is its
  length).\<close>

partial_function (option) receive_loop ::
  "nat \<Rightarrow> int \<Rightarrow> u8 list \<Rightarrow> modbus_client \<Rightarrow> u8 list outcome" where
  "receive_loop n deadline data c =
     (if length data < n then
        (case wait_for POLLIN deadline c of
           None \<Rightarrow> None
         | Some (Inl e, c1) \<Rightarrow> Some (Inl e, c1)
         | Some (Inr _, c1) \<Rightarrow>
             (case read_some (n - length data) c1 of
                (Get_again, c2) \<Rightarrow> receive_loop n deadline data c2
              | (Get_error e, c2) \<Rightarrow> Some (Inl (io_error ''read Modbus TCP response'' e), c2)
              | (Got_bytes bs, c2) \<Rightarrow>
                  (if bs = [] then
                     Some (Inl (io_error ''read Modbus TCP response'' ''connection closed''), c2)
                   else receive_loop n deadline (data @ bs) c2)))
      else Some (Inr data, c))"

definition receive_exact :: "nat \<Rightarrow> modbus_client \<Rightarrow> u8 list outcome" where
  "receive_exact n c =
     (case now c of (t, c1) \<Rightarrow>
      receive_loop n (t + mc_response_timeout c * 1000000) [] c1)"

definition request_frame :: "u16 \<Rightarrow> u8 \<Rightarrow> u8 list \<Rightarrow> u8 list" where
  "request_frame tid unit pdu =
     append_u16 (append_u16 (append_u16 [] tid) 0) (of_nat (1 + length pdu)) @ [unit] @ pdu"

text \<open>What \<^verbatim>\<open>transact\<close> checks in the header, and in the response.\<close>

definition check_header :: "u16 \<Rightarrow> u8 \<Rightarrow> u8 list \<Rightarrow> cpp_exception + nat" where
  "check_header tid unit header =
     (if read_u16 header 0 \<noteq> tid then
        Inl (io_error ''validate Modbus TCP response'' ''transaction ID mismatch'')
      else if read_u16 header 2 \<noteq> 0 then
        Inl (io_error ''validate Modbus TCP response'' ''protocol ID is not zero'')
      else if header ! 6 \<noteq> unit then
        Inl (io_error ''validate Modbus TCP response'' ''unit ID mismatch'')
      else if read_u16 header 4 < 2 \<or> read_u16 header 4 > 254 then
        Inl (io_error ''validate Modbus TCP response'' ''invalid length field'')
      else Inr (unat (read_u16 header 4) - 1))"

definition check_response :: "u8 \<Rightarrow> u8 list \<Rightarrow> cpp_exception + u8 list" where
  "check_response function_code response_pdu =
     (if response_pdu ! 0 AND 0x80 \<noteq> 0 then
        (let exception_code = (if length response_pdu > 1 then response_pdu ! 1 else 0) in
         Inl (io_error ''Modbus exception response''
           (''function='' @ dec (unat (response_pdu ! 0 AND 0x7F)) @
            '' code='' @ dec (unat exception_code))))
      else if response_pdu ! 0 \<noteq> function_code then
        Inl (io_error ''validate Modbus TCP response'' ''function code mismatch'')
      else Inr response_pdu)"

definition transact :: "u8 list \<Rightarrow> modbus_client \<Rightarrow> u8 list outcome" where
  "transact pdu c =
     (if \<not> is_open c then
        Some (Inl (io_error ''perform Modbus TCP transaction'' ''socket is closed''), c)
      else if pdu = [] \<or> length pdu > 253 then
        Some (Inl (Invalid_argument ''invalid Modbus PDU size''), c)
      else
        (let c1 = c\<lparr>mc_transaction_id := mc_transaction_id c + 1\<rparr> in
         case send_all (request_frame (mc_transaction_id c1) (mc_unit_id c1) pdu) c1 of
           None \<Rightarrow> None
         | Some (Inl e, c2) \<Rightarrow> Some (Inl e, c2)
         | Some (Inr _, c2) \<Rightarrow>
             (case receive_exact 7 c2 of
                None \<Rightarrow> None
              | Some (Inl e, c3) \<Rightarrow> Some (Inl e, c3)
              | Some (Inr header, c3) \<Rightarrow>
                  (case check_header (mc_transaction_id c3) (mc_unit_id c3) header of
                     Inl e \<Rightarrow> Some (Inl e, c3)
                   | Inr n \<Rightarrow>
                       (case receive_exact n c3 of
                          None \<Rightarrow> None
                        | Some (Inl e, c4) \<Rightarrow> Some (Inl e, c4)
                        | Some (Inr response_pdu, c4) \<Rightarrow>
                            Some (check_response (pdu ! 0) response_pdu, c4))))))"

definition read_status :: "modbus_client \<Rightarrow> u8 list outcome" where
  "read_status c =
     (case transact [0x04, 0x00, 0x00, 0x00, 0x08] c of
        None \<Rightarrow> None
      | Some (Inl e, c1) \<Rightarrow> Some (Inl e, c1)
      | Some (Inr response, c1) \<Rightarrow>
          (if length response \<noteq> 18 \<or> unat (response ! 1) \<noteq> kProcessImageSize then
             Some (Inl (io_error ''decode Robotiq status'' ''unexpected input-register byte count''), c1)
           else Some (Inr (take kProcessImageSize (drop 2 response)), c1)))"

definition write_command :: "u8 list \<Rightarrow> modbus_client \<Rightarrow> unit outcome" where
  "write_command command c =
     (let request = append_u16 (append_u16 [0x10] 0) 8 @ [of_nat kProcessImageSize] @ command in
      case transact request c of
        None \<Rightarrow> None
      | Some (Inl e, c1) \<Rightarrow> Some (Inl e, c1)
      | Some (Inr response, c1) \<Rightarrow>
          (if length response \<noteq> 5 \<or> read_u16 response 1 \<noteq> 0 \<or> read_u16 response 3 \<noteq> 8 then
             Some (Inl (io_error ''validate Robotiq command write'' ''unexpected register echo''), c1)
           else Some (Inr (), c1)))"

text \<open>\<^verbatim>\<open>connect\<close>: \<^verbatim>\<open>close\<close> first; the rest follows the script of the attempt.\<close>

definition connect_wait :: "connect_script \<Rightarrow> modbus_client \<Rightarrow> unit outcome" where
  "connect_wait cs c =
     (case now c of (t, c1) \<Rightarrow>
      case wait_for POLLOUT (t + mc_connect_timeout c * 1000000) c1 of
        None \<Rightarrow> None
      | Some (Inl e, c2) \<Rightarrow> Some (Inl e, close c2)
      | Some (Inr _, c2) \<Rightarrow>
          (case cs_getsockopt cs of
             Some detail \<Rightarrow> Some (Inl (io_error ''inspect Modbus TCP connection'' detail), close c2)
           | None \<Rightarrow>
               (case cs_socket_error cs of
                  Some detail \<Rightarrow> Some (Inl (io_error ''connect to Modbus TCP gripper'' detail), close c2)
                | None \<Rightarrow> Some (Inr (), c2))))"

definition connect :: "modbus_client \<Rightarrow> unit outcome" where
  "connect c0 =
     (let cs = shd (mc_connects c0); c = (close c0)\<lparr>mc_connects := stl (mc_connects c0)\<rparr> in
      case cs_make_address cs of
        Some e \<Rightarrow> Some (Inl (io_error ''invalid gripper IP address'' e), c)
      | None \<Rightarrow>
          (case cs_open cs of
             Some e \<Rightarrow> Some (Inl (io_error ''open Modbus TCP socket'' e), close (c\<lparr>mc_socket := Some False\<rparr>))
           | None \<Rightarrow>
               (let c1 = c\<lparr>mc_socket := Some True\<rparr> in
                case cs_non_blocking cs of
                  Some e \<Rightarrow> Some (Inl (io_error ''configure Modbus TCP socket'' e), close c1)
                | None \<Rightarrow>
                    (case cs_connect cs of
                       Connect_done \<Rightarrow> Some (Inr (), c1)
                     | Connect_error detail \<Rightarrow>
                         Some (Inl (io_error ''connect to Modbus TCP gripper'' detail), close c1)
                     | Connect_pending \<Rightarrow> connect_wait cs c1))))"

section \<open>What the waiting and transfer loops keep\<close>

text \<open>\<open>same_link c c'\<close>: the members that only \<^verbatim>\<open>connect\<close>, \<^verbatim>\<open>close\<close> and \<^verbatim>\<open>transact\<close>
  assign are unchanged, and the clock has only advanced.\<close>

definition same_link :: "modbus_client \<Rightarrow> modbus_client \<Rightarrow> bool" where
  "same_link c c' \<longleftrightarrow> mc_unit_id c' = mc_unit_id c \<and> mc_connect_timeout c' = mc_connect_timeout c \<and>
     mc_response_timeout c' = mc_response_timeout c \<and> mc_transaction_id c' = mc_transaction_id c \<and>
     mc_socket c' = mc_socket c \<and> mc_connects c' = mc_connects c \<and>
     (\<exists>n. mc_clock c' = sdrop n (mc_clock c))"

lemma same_link_refl [simp, intro]: "same_link c c"
  by (auto simp: same_link_def intro: exI [of _ 0])

lemma same_link_trans [trans]: "same_link a b \<Longrightarrow> same_link b c \<Longrightarrow> same_link a c"
  by (auto simp: same_link_def sdrop_add)

lemma same_link_open: "same_link c c' \<Longrightarrow> is_open c' = is_open c"
  by (simp add: same_link_def is_open_def)

lemma same_link_now: "now c = (t, c') \<Longrightarrow> same_link c c'"
  by (auto simp: now_def same_link_def intro: exI [of _ 1])

text \<open>\<open>same_bytes c c'\<close>: nothing was sent or received, and the scripts of the transfers are where
  they were.\<close>

definition same_bytes :: "modbus_client \<Rightarrow> modbus_client \<Rightarrow> bool" where
  "same_bytes c c' \<longleftrightarrow> mc_sent c' = mc_sent c \<and> mc_received c' = mc_received c \<and>
     mc_writes c' = mc_writes c \<and> mc_reads c' = mc_reads c"

lemma wait_step_keeps:
  "now c = (t, c1) \<Longrightarrow> same_link c c1 \<and> same_bytes c c1"
  "next_poll c = (p, c2) \<Longrightarrow> same_link c c2 \<and> same_bytes c c2"
  by (auto simp: now_def next_poll_def same_link_def same_bytes_def intro: exI [of _ 0] exI [of _ 1])

lemma same_bytes_trans [trans]: "same_bytes a b \<Longrightarrow> same_bytes b c \<Longrightarrow> same_bytes a c"
  by (simp add: same_bytes_def)

lemma wait_loop_keeps:
  assumes "wait_loop ev dl c = Some q"
  shows "same_link c (snd q) \<and> same_bytes c (snd q)"
proof (rule wait_loop.raw_induct [where P = "\<lambda>ev dl c q. same_link c (snd q) \<and> same_bytes c (snd q)", OF _ assms])
  fix f :: "u16 \<Rightarrow> int \<Rightarrow> modbus_client \<Rightarrow> unit outcome" and ev dl c q
  assume IH: "\<And>ev dl c q. f ev dl c = Some q \<Longrightarrow> same_link c (snd q) \<and> same_bytes c (snd q)"
  obtain t c1 where n: "now c = (t, c1)" by fastforce
  obtain p c2 where p: "next_poll c1 = (p, c2)" by fastforce
  note k1 = wait_step_keeps(1) [OF n] 
  have k2: "same_link c c2 \<and> same_bytes c c2"
    using k1 wait_step_keeps(2) [OF p] same_link_trans same_bytes_trans by blast
  have k3: "same_link c (snd q) \<and> same_bytes c (snd q)" if "f ev dl c2 = Some q" for q
    using IH [OF that] k2 same_link_trans same_bytes_trans by blast
  assume eq: "(case now c of (t, c1) \<Rightarrow>
      if duration_cast_ms (dl - t) \<le> 0 then
        Some (Inl (io_error ''wait for Modbus TCP socket'' ''timed out''), c1)
      else case next_poll c1 of (p, c2) \<Rightarrow>
        (case p of
           Poll_ready revents \<Rightarrow>
             if revents AND (POLLERR OR POLLHUP OR POLLNVAL) \<noteq> 0 then
               Some (Inl (io_error ''wait for Modbus TCP socket'' ''connection closed or failed''), c2)
             else if revents AND ev \<noteq> 0 then Some (Inr (), c2)
             else f ev dl c2
         | Poll_timeout \<Rightarrow> Some (Inl (io_error ''wait for Modbus TCP socket'' ''timed out''), c2)
         | Poll_interrupted \<Rightarrow> f ev dl c2
         | Poll_failed e \<Rightarrow> Some (Inl (io_error ''poll Modbus TCP socket'' e), c2))) = Some q"
  then show "same_link c (snd q) \<and> same_bytes c (snd q)"
    using k1 k2 k3 by (auto simp: n p split: if_splits poll_event.splits)
qed

lemma wait_for_keeps:
  assumes "wait_for ev dl c = Some (r, c')"
  shows "same_link c c'" "same_bytes c c'"
  using assms wait_loop_keeps [of ev dl c "(r, c')"]
  by (auto simp: wait_for_def same_bytes_def split: if_splits)

lemma write_some_keeps:
  assumes "write_some bs c = (e, c')"
  shows "same_link c c'" "mc_received c' = mc_received c" "mc_reads c' = mc_reads c"
    "mc_sent c' = mc_sent c @ (case e of Sent_count n \<Rightarrow> take n bs | _ \<Rightarrow> [])"
    "e = Sent_count n \<Longrightarrow> n \<le> length bs"
  using assms by (auto simp: write_some_def Let_def same_link_def min_def split: write_some_event.splits
      intro: exI [of _ 0])

lemma read_some_keeps:
  assumes "read_some n c = (e, c')"
  shows "same_link c c'" "mc_sent c' = mc_sent c"
    "mc_received c' = mc_received c @ (case e of Got_bytes bs \<Rightarrow> bs | _ \<Rightarrow> [])"
    "e = Got_bytes bs \<Longrightarrow> length bs \<le> n"
  using assms by (auto simp: read_some_def Let_def same_link_def split: read_some_event.splits
      intro: exI [of _ 0])

definition send_keeps :: "u8 list \<Rightarrow> modbus_client \<Rightarrow> (cpp_exception + unit) \<times> modbus_client \<Rightarrow> bool" where
  "send_keeps bytes c q \<longleftrightarrow> same_link c (snd q) \<and> mc_received (snd q) = mc_received c \<and>
     (\<exists>k. mc_sent (snd q) = mc_sent c @ take k bytes) \<and>
     (fst q = Inr () \<longrightarrow> mc_sent (snd q) = mc_sent c @ bytes)"

lemma send_keeps_step:
  assumes "same_link c c1" "mc_received c1 = mc_received c" "mc_sent c1 = mc_sent c @ take k bytes"
    and "send_keeps (drop k bytes) c1 q"
  shows "send_keeps bytes c q"
proof -
  obtain j where j: "mc_sent (snd q) = mc_sent c1 @ take j (drop k bytes)"
    using assms(4) by (auto simp: send_keeps_def)
  have "mc_sent (snd q) = mc_sent c @ take (k + j) bytes"
    by (simp add: j assms(3) take_add)
  moreover have "mc_sent (snd q) = mc_sent c @ bytes" if "fst q = Inr ()"
    using that assms(3,4) by (simp add: send_keeps_def)
  moreover have "same_link c (snd q)"
    using assms(1,4) same_link_trans by (auto simp: send_keeps_def)
  ultimately show ?thesis using assms(2,4) by (auto simp: send_keeps_def)
qed

lemma send_keeps_fail:
  assumes "same_link c c1" "mc_received c1 = mc_received c" "mc_sent c1 = mc_sent c @ take k bytes"
  shows "send_keeps bytes c (Inl e, c1)"
  using assms by (auto simp: send_keeps_def)

lemma send_all_loop_keeps:
  assumes "send_all_loop data dl offset c = Some q"
  shows "send_keeps (drop offset data) c q"
proof (rule send_all_loop.raw_induct [where P = "\<lambda>data dl offset c q. send_keeps (drop offset data) c q", OF _ assms])
  fix f :: "u8 list \<Rightarrow> int \<Rightarrow> nat \<Rightarrow> modbus_client \<Rightarrow> unit outcome" and data dl offset c q
  assume IH: "\<And>data dl offset c q. f data dl offset c = Some q \<Longrightarrow> send_keeps (drop offset data) c q"
  assume eq: "(if offset < length data then
        (case wait_for POLLOUT dl c of
           None \<Rightarrow> None
         | Some (Inl e, c1) \<Rightarrow> Some (Inl e, c1)
         | Some (Inr _, c1) \<Rightarrow>
             (case write_some (drop offset data) c1 of
                (Send_again, c2) \<Rightarrow> f data dl offset c2
              | (Send_error e, c2) \<Rightarrow> Some (Inl (io_error ''write Modbus TCP request'' e), c2)
              | (Sent_count count, c2) \<Rightarrow>
                  (if count = 0 then
                     Some (Inl (io_error ''write Modbus TCP request'' ''connection closed''), c2)
                   else f data dl (offset + count) c2)))
      else Some (Inr (), c)) = Some q"
  show "send_keeps (drop offset data) c q"
  proof (cases "offset < length data")
    case False
    with eq show ?thesis by (auto simp: send_keeps_def)
  next
    case True
    with eq obtain r c1 where w: "wait_for POLLOUT dl c = Some (r, c1)"
      by (auto split: option.splits)
    note k1 = wait_for_keeps [OF w]
    show ?thesis
    proof (cases r)
      case (Inl e)
      with eq True w k1 show ?thesis by (auto simp: same_bytes_def intro!: send_keeps_fail [where k = 0])
    next
      case (Inr u)
      obtain e c2 where ws: "write_some (drop offset data) c1 = (e, c2)" by fastforce
      note k2 = write_some_keeps(1,2,4) [OF ws]
      have l: "same_link c c2" using k1(1) k2(1) by (rule same_link_trans)
      have b: "mc_received c2 = mc_received c"
        "mc_sent c2 = mc_sent c @ take (case e of Sent_count n \<Rightarrow> n | _ \<Rightarrow> 0) (drop offset data)"
        using k1(2) k2(2,3) by (auto simp: same_bytes_def split: write_some_event.splits)
      show ?thesis
      proof (cases e)
        case (Sent_count n)
        then show ?thesis using eq True w Inr ws l b IH [of data dl "offset + n" c2 q]
          by (auto simp: add.commute intro: send_keeps_fail send_keeps_step split: if_splits)
      next
        case Send_again
        then show ?thesis using eq True w Inr ws l b IH [of data dl offset c2 q]
          by (auto intro: send_keeps_step [where k = 0])
      next
        case (Send_error m)
        then show ?thesis using eq True w Inr ws l b by (auto intro: send_keeps_fail [where k = 0])
      qed
    qed
  qed
qed

lemma send_all_keeps:
  assumes "send_all data c = Some q"
  shows "send_keeps data c q"
proof -
  obtain t c1 where n: "now c = (t, c1)" by fastforce
  with assms have "send_keeps (drop 0 data) c1 q"
    by (intro send_all_loop_keeps) (simp add: send_all_def)
  then show ?thesis using wait_step_keeps(1) [OF n]
    by (auto simp: same_bytes_def intro: send_keeps_step [where k = 0 and ?c1.0 = c1])
qed

definition receive_keeps ::
  "nat \<Rightarrow> u8 list \<Rightarrow> modbus_client \<Rightarrow> (cpp_exception + u8 list) \<times> modbus_client \<Rightarrow> bool" where
  "receive_keeps n data c q \<longleftrightarrow> same_link c (snd q) \<and> mc_sent (snd q) = mc_sent c \<and>
     prefix (mc_received c) (mc_received (snd q)) \<and>
     (\<forall>d. fst q = Inr d \<longrightarrow>
        (\<exists>bs. d = data @ bs \<and> mc_received (snd q) = mc_received c @ bs \<and>
           (length data \<le> n \<longrightarrow> length d = n)))"

lemma receive_keeps_step:
  assumes "same_link c c1" "mc_sent c1 = mc_sent c" "mc_received c1 = mc_received c @ bs"
    "length data \<le> n \<Longrightarrow> length (data @ bs) \<le> n"
    and "receive_keeps n (data @ bs) c1 q"
  shows "receive_keeps n data c q"
  using assms same_link_trans [of c c1] append_prefixD unfolding receive_keeps_def by force

lemma receive_loop_keeps:
  assumes "receive_loop n dl data c = Some q"
  shows "receive_keeps n data c q"
proof (rule receive_loop.raw_induct [where P = "\<lambda>n dl data c q. receive_keeps n data c q", OF _ assms])
  fix f :: "nat \<Rightarrow> int \<Rightarrow> u8 list \<Rightarrow> modbus_client \<Rightarrow> u8 list outcome" and n dl data c q
  assume IH: "\<And>n dl data c q. f n dl data c = Some q \<Longrightarrow> receive_keeps n data c q"
  assume eq: "(if length data < n then
        (case wait_for POLLIN dl c of
           None \<Rightarrow> None
         | Some (Inl e, c1) \<Rightarrow> Some (Inl e, c1)
         | Some (Inr _, c1) \<Rightarrow>
             (case read_some (n - length data) c1 of
                (Get_again, c2) \<Rightarrow> f n dl data c2
              | (Get_error e, c2) \<Rightarrow> Some (Inl (io_error ''read Modbus TCP response'' e), c2)
              | (Got_bytes bs, c2) \<Rightarrow>
                  (if bs = [] then
                     Some (Inl (io_error ''read Modbus TCP response'' ''connection closed''), c2)
                   else f n dl (data @ bs) c2)))
      else Some (Inr data, c)) = Some q"
  show "receive_keeps n data c q"
  proof (cases "length data < n")
    case False
    with eq show ?thesis by (auto simp: receive_keeps_def)
  next
    case True
    with eq obtain r c1 where w: "wait_for POLLIN dl c = Some (r, c1)"
      by (auto split: option.splits)
    note k1 = wait_for_keeps [OF w]
    show ?thesis
    proof (cases r)
      case (Inl e)
      with eq True w k1 show ?thesis by (auto simp: same_bytes_def receive_keeps_def)
    next
      case (Inr u)
      obtain e c2 where rs: "read_some (n - length data) c1 = (e, c2)" by fastforce
      note k2 = read_some_keeps [OF rs]
      have l: "same_link c c2" "mc_sent c2 = mc_sent c"
        "mc_received c2 = mc_received c @ (case e of Got_bytes bs \<Rightarrow> bs | _ \<Rightarrow> [])"
        using k1 k2 same_link_trans by (auto simp: same_bytes_def)
      show ?thesis
      proof (cases e)
        case (Got_bytes bs)
        then show ?thesis using eq True w Inr rs l k2(4) [of bs] IH [of n dl "data @ bs" c2 q]
          by (auto intro: receive_keeps_step simp: receive_keeps_def [of n data c "(Inl _, _)"] split: if_splits)
      next
        case Get_again
        then show ?thesis using eq True w Inr rs l IH [of n dl data c2 q]
          by (auto intro: receive_keeps_step [where bs = "[]"])
      next
        case (Get_error m)
        then show ?thesis using eq True w Inr rs l by (auto simp: receive_keeps_def)
      qed
    qed
  qed
qed

lemma receive_exact_keeps:
  assumes "receive_exact n c = Some q"
  shows "receive_keeps n [] c q"
proof -
  obtain t c1 where t: "now c = (t, c1)" by fastforce
  with assms have "receive_keeps n [] c1 q"
    by (intro receive_loop_keeps) (simp add: receive_exact_def)
  then show ?thesis using wait_step_keeps(1) [OF t]
    by (auto simp: same_bytes_def intro: receive_keeps_step [where bs = "[]" and ?c1.0 = c1])
qed

section \<open>Frames\<close>

lemma u16_halves:
  "push_bit 8 (ucast (a :: u8)) OR ucast (b :: u8) = (x :: u16) \<longleftrightarrow>
   a = ucast (drop_bit 8 x AND 0xFF) \<and> b = ucast (x AND 0xFF)" (is "?L \<longleftrightarrow> ?R")
proof
  assume ?L
  then have x: "x = push_bit 8 (ucast a) OR ucast b" ..
  show ?R unfolding x and_low_mask
    by (intro conjI bit_eqI) (auto simp: bit_simps dest: bit_u8_less)
next
  assume ?R
  then show ?L unfolding and_low_mask by (intro bit_eqI) (auto simp: bit_simps)
qed

lemma append_u16_bytes: "append_u16 data x = data @ append_u16 [] x"
  by (simp add: append_u16_def)

lemma length_append_u16 [simp, wire_simps]: "length (append_u16 data x) = length data + 2"
  by (simp add: append_u16_def)

lemma length_request_frame [simp, wire_simps]: "length (request_frame tid unit pdu) = 7 + length pdu"
  by (simp add: request_frame_def)

lemma read_u16_iff:
  "i + 1 < length bs \<Longrightarrow> read_u16 bs i = x \<longleftrightarrow> [bs ! i, bs ! (i + 1)] = append_u16 [] x"
  by (simp add: read_u16_def u16_halves append_u16_def)

lemma read_u16_append_u16: "read_u16 (append_u16 [] x @ bs) 0 = x"
  by (subst read_u16_iff) (simp_all add: append_u16_def)

lemma check_header_frame:
  assumes "length header = 7" "check_header tid unit header = Inr n"
  shows "1 \<le> n \<and> n \<le> 253 \<and>
    header = append_u16 (append_u16 (append_u16 [] tid) 0) (of_nat (1 + n)) @ [unit]"
proof -
  obtain a b c d e f g where h: "header = [a, b, c, d, e, f, g]"
    using assms(1) by (auto simp: eval_nat_numeral length_Suc_conv)
  note chk = assms(2) [unfolded check_header_def]
  have len: "\<not> read_u16 header 4 < 2" "\<not> read_u16 header 4 > 254"
    and n: "n = unat (read_u16 header 4) - 1" and g: "g = unit"
    and t: "read_u16 header 0 = tid" and p: "read_u16 header 2 = 0"
    using chk by (auto simp: h split: if_splits)
  have r: "2 \<le> unat (read_u16 header 4)" "unat (read_u16 header 4) \<le> 254"
    using len by (simp_all add: word_less_nat_alt word_le_nat_alt)
  then have "of_nat (1 + n) = read_u16 header 4" by (simp add: n)
  then have l: "[e, f] = append_u16 [] (of_nat (1 + n))"
    using read_u16_iff [of 4 header "of_nat (1 + n)"] by (simp add: h)
  have tp: "[a, b] = append_u16 [] tid" "[c, d] = append_u16 [] 0"
    using t p read_u16_iff [of 0 header tid] read_u16_iff [of 2 header 0] by (simp_all add: h)
  have "header = [a, b] @ [c, d] @ [e, f] @ [g]" by (simp add: h)
  also have "\<dots> = append_u16 [] tid @ append_u16 [] 0 @ append_u16 [] (of_nat (1 + n)) @ [unit]"
    by (simp only: tp l g)
  finally have "header = append_u16 (append_u16 (append_u16 [] tid) 0) (of_nat (1 + n)) @ [unit]"
    by (simp add: append_u16_def)
  moreover have "1 \<le> n \<and> n \<le> 253" using n r by linarith
  ultimately show ?thesis by blast
qed

lemma check_response_ok:
  assumes "check_response fc pdu = Inr r"
  shows "r = pdu \<and> pdu ! 0 = fc \<and> \<not> bit (pdu ! 0) 7"
proof -
  have "(pdu ! 0 AND 0x80 = 0) = (\<not> bit (pdu ! 0) 7)"
    using bit_iff_and_push_bit_not_eq_0 [of "pdu ! 0" 7] by simp
  then show ?thesis using assms by (auto simp: check_response_def Let_def split: if_splits)
qed

section \<open>Transactions\<close>

text \<open>What a transaction, successful or not, does to the client.\<close>

definition transact_keeps ::
  "u8 list \<Rightarrow> modbus_client \<Rightarrow> (cpp_exception + u8 list) \<times> modbus_client \<Rightarrow> bool" where
  "transact_keeps pdu c q \<longleftrightarrow>
     (let tid = mc_transaction_id c + 1; unit = mc_unit_id c; c' = snd q in
      mc_unit_id c' = unit \<and> mc_socket c' = mc_socket c \<and> mc_connects c' = mc_connects c \<and>
      (\<exists>k. mc_sent c' = mc_sent c @ take k (request_frame tid unit pdu)) \<and>
      (\<forall>r. fst q = Inr r \<longrightarrow>
         is_open c \<and> mc_transaction_id c' = tid \<and>
         mc_sent c' = mc_sent c @ request_frame tid unit pdu \<and>
         mc_received c' = mc_received c @ request_frame tid unit r \<and>
         r \<noteq> [] \<and> length r \<le> 253 \<and> r ! 0 = pdu ! 0 \<and> \<not> bit (r ! 0) 7))"

lemma transact_receive_header:
  assumes "transact pdu c = Some (Inr r, c')"
  defines "tid \<equiv> mc_transaction_id c + 1"
  obtains c1 c2 c3 header n where "is_open c" "pdu \<noteq> []" "length pdu \<le> 253"
    "c1 = c\<lparr>mc_transaction_id := tid\<rparr>"
    "send_all (request_frame tid (mc_unit_id c) pdu) c1 = Some (Inr (), c2)"
    "receive_exact 7 c2 = Some (Inr header, c3)"
    "check_header (mc_transaction_id c3) (mc_unit_id c3) header = Inr n"
    "receive_exact n c3 = Some (Inr r, c')" "check_response (pdu ! 0) r = Inr r"
  using assms(1) check_response_ok unfolding transact_def tid_def Let_def
  by (auto split: if_splits option.splits sum.splits) (metis Inr_inject prod.inject)

lemma transact_ok_keeps:
  assumes "transact pdu c = Some (Inr r, c')"
  shows "transact_keeps pdu c (Inr r, c')"
proof (rule transact_receive_header [OF assms])
  fix c1 c2 c3 header n
  let ?tid = "mc_transaction_id c + 1"
  assume a: "is_open c" "pdu \<noteq> []" "c1 = c\<lparr>mc_transaction_id := ?tid\<rparr>"
    and s: "send_all (request_frame ?tid (mc_unit_id c) pdu) c1 = Some (Inr (), c2)"
    and h: "receive_exact 7 c2 = Some (Inr header, c3)"
    and chk: "check_header (mc_transaction_id c3) (mc_unit_id c3) header = Inr n"
    and b: "receive_exact n c3 = Some (Inr r, c')" and resp: "check_response (pdu ! 0) r = Inr r"
  have ks: "same_link c1 c2" "mc_received c2 = mc_received c1"
    "mc_sent c2 = mc_sent c1 @ request_frame ?tid (mc_unit_id c) pdu"
    using send_all_keeps [OF s] by (simp_all add: send_keeps_def)
  have kh: "same_link c2 c3" "mc_sent c3 = mc_sent c2" "length header = 7"
    "mc_received c3 = mc_received c2 @ header"
    using receive_exact_keeps [OF h] by (auto simp: receive_keeps_def)
  have kb: "same_link c3 c'" "mc_sent c' = mc_sent c3" "length r = n"
    "mc_received c' = mc_received c3 @ r"
    using receive_exact_keeps [OF b] by (auto simp: receive_keeps_def)
  have l: "same_link c1 c3" "same_link c1 c'"
    using ks(1) kh(1) kb(1) same_link_trans by blast+
  have tid: "mc_transaction_id c3 = ?tid" "mc_unit_id c3 = mc_unit_id c"
    using l(1) a by (simp_all add: same_link_def)
  have c': "mc_unit_id c' = mc_unit_id c" "mc_socket c' = mc_socket c" "mc_connects c' = mc_connects c"
    "mc_transaction_id c' = ?tid"
    using l(2) a by (simp_all add: same_link_def)
  note fr = check_header_frame [OF kh(3) chk [unfolded tid]]
  have rec: "mc_received c' = mc_received c @ request_frame ?tid (mc_unit_id c) r"
    by (simp add: kb kh(4) ks(2) a conjunct2 [OF conjunct2 [OF fr]] request_frame_def)
  have snt: "mc_sent c' = mc_sent c @ request_frame ?tid (mc_unit_id c) pdu"
    by (simp add: kb kh ks a)
  have k: "\<exists>k. mc_sent c' = mc_sent c @ take k (request_frame ?tid (mc_unit_id c) pdu)"
    unfolding snt by (rule exI [of _ "length pdu + 7"]) simp
  have rr: "r \<noteq> []" "length r \<le> 253" "r ! 0 = pdu ! 0" "\<not> bit (r ! 0) 7"
    using fr kb(3) check_response_ok [OF resp] by auto
  show "transact_keeps pdu c (Inr r, c')"
    unfolding transact_keeps_def Let_def fst_conv snd_conv
    using c' k snt rec rr a(1) by blast
qed

lemma transact_ok_facts:
  assumes "transact pdu c = Some (Inr r, c')"
  defines "tid \<equiv> mc_transaction_id c + 1"
  shows "is_open c \<and> is_open c' \<and> mc_transaction_id c' = tid \<and>
    mc_sent c' = mc_sent c @ request_frame tid (mc_unit_id c) pdu \<and>
    mc_received c' = mc_received c @ request_frame tid (mc_unit_id c) r \<and>
    r \<noteq> [] \<and> length r \<le> 253 \<and> r ! 0 = pdu ! 0 \<and> \<not> bit (r ! 0) 7"
  using transact_ok_keeps [OF assms(1)]
  unfolding transact_keeps_def tid_def Let_def is_open_def fst_conv snd_conv by auto

text \<open>C10. A transaction that succeeds is a matched exchange: the client sent exactly the request
  frame, what it read is exactly the frame of the returned PDU under the same transaction and unit
  identifiers, and that PDU is non-empty, at most 253 bytes, answers the requested function and is
  not an exception.\<close>

theorem transact_matches_response:
  assumes "transact pdu c = Some (Inr r, c')"
  defines "tid \<equiv> mc_transaction_id c + 1"
  shows "is_open c \<and> is_open c' \<and> mc_transaction_id c' = tid \<and>
    mc_sent c' = mc_sent c @ request_frame tid (mc_unit_id c) pdu \<and>
    mc_received c' = mc_received c @ request_frame tid (mc_unit_id c) r \<and>
    r \<noteq> [] \<and> length r \<le> 253 \<and> r ! 0 = pdu ! 0 \<and> \<not> bit (r ! 0) 7"
  unfolding tid_def by (rule transact_ok_facts [OF assms(1)])

text \<open>No outcome of a transaction touches the socket.\<close>

lemma send_all_link: "send_all data c = Some (r, c') \<Longrightarrow> same_link c c'"
  using send_all_keeps by (force simp: send_keeps_def)

lemma receive_exact_link: "receive_exact n c = Some (r, c') \<Longrightarrow> same_link c c'"
  using receive_exact_keeps by (force simp: receive_keeps_def)

lemma transact_link:
  assumes "transact pdu c = Some (r, c')"
  shows "mc_socket c' = mc_socket c \<and> mc_unit_id c' = mc_unit_id c \<and> (\<exists>n. mc_clock c' = sdrop n (mc_clock c))"
proof -
  define c1 where "c1 = c\<lparr>mc_transaction_id := mc_transaction_id c + 1\<rparr>"
  have "same_link c c' \<or> same_link c1 c'"
    using assms unfolding transact_def Let_def c1_def [symmetric]
    by (auto split: if_splits option.splits sum.splits
        dest!: send_all_link receive_exact_link) (blast intro: same_link_trans)+
  then show ?thesis by (auto simp: same_link_def c1_def)
qed

section \<open>Reading the status and writing a command\<close>

lemma read_status_transact:
  assumes "read_status c = Some (Inr img, c')"
  obtains "transact [4, 0, 0, 0, 8] c = Some (Inr (4 # 16 # img), c')" "length img = 16"
proof -
  obtain r where t: "transact [4, 0, 0, 0, 8] c = Some (Inr r, c')" and l: "length r = 18"
    and n: "unat (r ! 1) = 16" and img: "img = take 16 (drop 2 r)"
    using assms by (auto simp: read_status_def kProcessImageSize_def split: option.splits sum.splits if_splits)
  have "r ! 0 = 4" using transact_ok_facts [OF t] by simp
  moreover have "r ! 1 = 16" using n by (simp add: word_unat_eq_iff)
  ultimately have "r = 4 # 16 # img"
    using l img by (cases r; cases "tl r") auto
  with t l that show ?thesis by auto
qed

text \<open>Reading the status is sound: it sends exactly the request for the eight input registers
  and returns the 16 data bytes of exactly the matching response.\<close>

theorem read_status_sound:
  assumes "read_status c = Some (Inr img, c')"
  defines "tid \<equiv> mc_transaction_id c + 1"
  shows "length img = kProcessImageSize \<and>
    mc_sent c' = mc_sent c @ request_frame tid (mc_unit_id c) [0x04, 0x00, 0x00, 0x00, 0x08] \<and>
    mc_received c' = mc_received c @ request_frame tid (mc_unit_id c) (0x04 # 0x10 # img)"
proof (rule read_status_transact [OF assms(1)])
  assume t: "transact [4, 0, 0, 0, 8] c = Some (Inr (4 # 16 # img), c')" and l: "length img = 16"
  show ?thesis using transact_ok_facts [OF t] l
    by (simp add: tid_def kProcessImageSize_def)
qed

lemma write_command_ok_facts:
  assumes "write_command img c = Some (Inr (), c')"
  defines "tid \<equiv> mc_transaction_id c + 1"
  shows "mc_sent c' = mc_sent c @ request_frame tid (mc_unit_id c)
      ([0x10, 0x00, 0x00, 0x00, 0x08, 0x10] @ img) \<and>
    mc_received c' = mc_received c @ request_frame tid (mc_unit_id c) [0x10, 0x00, 0x00, 0x00, 0x08] \<and>
    length img \<le> 247"
proof -
  let ?req = "append_u16 (append_u16 [0x10] 0) 8 @ [of_nat kProcessImageSize] @ img"
  have req: "?req = [0x10, 0x00, 0x00, 0x00, 0x08, 0x10] @ img"
    by (simp add: append_u16_def kProcessImageSize_def)
  obtain r where t: "transact ?req c = Some (Inr r, c')" and l: "length r = 5"
    and r1: "read_u16 r 1 = 0" and r3: "read_u16 r 3 = 8"
    using assms(1) by (auto simp: write_command_def Let_def split: option.splits sum.splits if_splits)
  obtain a b d e f where r: "r = [a, b, d, e, f]"
    using l by (auto simp: eval_nat_numeral length_Suc_conv)
  have "[b, d] = append_u16 [] 0" "[e, f] = append_u16 [] 8"
    using r1 r3 read_u16_iff [of 1 r 0] read_u16_iff [of 3 r 8] by (simp_all add: r)
  moreover note m = transact_ok_facts [OF t, unfolded req]
  ultimately have "r = [0x10, 0x00, 0x00, 0x00, 0x08]"
    by (simp add: r append_u16_def)
  moreover have "length ?req \<le> 253"
    using t by (auto simp: transact_def simp del: append_assoc split: if_splits)
  ultimately show ?thesis using m by (simp add: tid_def append_u16_def)
qed

text \<open>Writing a command is sound: when it succeeds, exactly the request to set the eight output
  registers to the image was sent and exactly its acknowledgement was read.\<close>

theorem write_command_sound:
  assumes "write_command img c = Some (Inr (), c')"
  defines "tid \<equiv> mc_transaction_id c + 1"
  shows "mc_sent c' = mc_sent c @ request_frame tid (mc_unit_id c)
      ([0x10, 0x00, 0x00, 0x00, 0x08, 0x10] @ img) \<and>
    mc_received c' = mc_received c @ request_frame tid (mc_unit_id c) [0x10, 0x00, 0x00, 0x00, 0x08] \<and>
    length img \<le> 247"
  unfolding tid_def by (rule write_command_ok_facts [OF assms(1)])

section \<open>Every operation returns\<close>

text \<open>\<open>passes_after n dl c\<close>: all but the first \<open>n\<close> clock readings of the script are at or past the
  deadline. On a clock that passes every instant, each loop returns: the number of readings left
  before the deadline decreases with every pass.\<close>

definition passes_after :: "nat \<Rightarrow> int \<Rightarrow> modbus_client \<Rightarrow> bool" where
  "passes_after n dl c \<longleftrightarrow> (\<forall>m\<ge>n. dl \<le> mc_clock c !! m)"

definition clock_runs :: "modbus_client \<Rightarrow> bool" where
  "clock_runs c \<longleftrightarrow> (\<forall>dl. \<exists>n. passes_after n dl c)"

lemma passes_after_now: "passes_after n dl c \<Longrightarrow> now c = (t, c1) \<Longrightarrow> passes_after (n - 1) dl c1"
  unfolding passes_after_def now_def by (auto simp flip: snth.simps(2))

lemma passes_after_link:
  assumes "passes_after n dl c" "same_link c c'"
  shows "passes_after n dl c'"
  using assms by (auto simp: passes_after_def same_link_def sdrop_snth)

lemma clock_runs_link: "clock_runs c \<Longrightarrow> same_link c c' \<Longrightarrow> clock_runs c'"
  using passes_after_link unfolding clock_runs_def by blast

lemma wait_loop_returns:
  assumes "passes_after n dl c"
  shows "\<exists>r c'. wait_loop ev dl c = Some (r, c') \<and> (r = Inr () \<longrightarrow> 0 < n \<and> passes_after (n - 1) dl c')"
  using assms
proof (induction n arbitrary: c)
  case 0
  obtain t c1 where t: "now c = (t, c1)" by fastforce
  with 0 have "dl \<le> t" by (auto simp: passes_after_def now_def dest!: spec [of _ 0])
  then have "duration_cast_ms (dl - t) \<le> 0" by (auto simp: duration_cast_ms_def)
  then show ?case using t by (simp add: wait_loop.simps [of ev dl c])
next
  case (Suc n)
  obtain t c1 where t: "now c = (t, c1)" by fastforce
  obtain p c2 where p: "next_poll c1 = (p, c2)" by fastforce
  have "passes_after n dl c2"
    using passes_after_now [OF Suc.prems t] wait_step_keeps(2) [OF p] passes_after_link by auto
  moreover from Suc.IH [OF this] obtain r c' where w: "wait_loop ev dl c2 = Some (r, c')"
      "r = Inr () \<longrightarrow> 0 < n \<and> passes_after (n - 1) dl c'" by blast
  moreover have "passes_after n dl c'" if "r = Inr ()"
    using wait_loop_keeps [OF w(1)] passes_after_link calculation(1) by auto
  ultimately show ?case
    by (auto simp: wait_loop.simps [of ev dl c] t p split: poll_event.splits)
qed

lemma wait_for_returns:
  assumes "passes_after n dl c"
  shows "\<exists>r c'. wait_for ev dl c = Some (r, c') \<and> (r = Inr () \<longrightarrow> 0 < n \<and> passes_after (n - 1) dl c')"
  using wait_loop_returns [OF assms] by (auto simp: wait_for_def)

lemma send_all_loop_returns:
  "passes_after n dl c \<Longrightarrow> \<exists>q. send_all_loop data dl offset c = Some q"
proof (induction n arbitrary: c offset rule: less_induct)
  case (less n)
  obtain r c1 where w: "wait_for POLLOUT dl c = Some (r, c1)"
    "r = Inr () \<longrightarrow> 0 < n \<and> passes_after (n - 1) dl c1" using wait_for_returns [OF less.prems] by blast
  obtain e c2 where ws: "write_some (drop offset data) c1 = (e, c2)" by fastforce
  have IH: "\<exists>q. send_all_loop data dl i c2 = Some q" if "r = Inr ()" for i
    using less.IH [of "n - 1" c2] w(2) that passes_after_link [OF _ write_some_keeps(1) [OF ws]] by auto
  show ?case
    using w ws IH [of offset] IH [of "offset + k" for k]
    by (auto simp: send_all_loop.simps [of data dl offset c] split: sum.split write_some_event.split)
qed

lemma receive_loop_returns:
  "passes_after n dl c \<Longrightarrow> \<exists>q. receive_loop k dl data c = Some q"
proof (induction n arbitrary: c data rule: less_induct)
  case (less n)
  obtain r c1 where w: "wait_for POLLIN dl c = Some (r, c1)"
    "r = Inr () \<longrightarrow> 0 < n \<and> passes_after (n - 1) dl c1" using wait_for_returns [OF less.prems] by blast
  obtain e c2 where rs: "read_some (k - length data) c1 = (e, c2)" by fastforce
  have IH: "\<exists>q. receive_loop k dl d c2 = Some q" if "r = Inr ()" for d
    using less.IH [of "n - 1" c2] w(2) that passes_after_link [OF _ read_some_keeps(1) [OF rs]] by auto
  show ?case
    using w rs IH [of data] IH [of "data @ bs" for bs]
    by (auto simp: receive_loop.simps [of k dl data c] split: sum.split read_some_event.split)
qed

lemma clock_runs_now:
  assumes "clock_runs c" "now c = (t, c1)"
  obtains n where "passes_after n dl c1"
  using clock_runs_link [OF assms(1) same_link_now [OF assms(2)]] that by (auto simp: clock_runs_def)

lemma send_all_returns:
  assumes "clock_runs c"
  shows "\<exists>q. send_all data c = Some q"
proof -
  obtain t c1 where t: "now c = (t, c1)" by fastforce
  obtain n where "passes_after n (t + mc_response_timeout c * 1000000) c1"
    using clock_runs_now [OF assms t] .
  from send_all_loop_returns [OF this] show ?thesis by (simp add: send_all_def t)
qed

lemma receive_exact_returns:
  assumes "clock_runs c"
  shows "\<exists>q. receive_exact k c = Some q"
proof -
  obtain t c1 where t: "now c = (t, c1)" by fastforce
  obtain n where "passes_after n (t + mc_response_timeout c * 1000000) c1"
    using clock_runs_now [OF assms t] .
  from receive_loop_returns [OF this] show ?thesis by (simp add: receive_exact_def t)
qed

lemma transact_returns:
  assumes "clock_runs c"
  shows "\<exists>q. transact pdu c = Some q"
proof -
  let ?c1 = "c\<lparr>mc_transaction_id := mc_transaction_id c + 1\<rparr>"
  have runs: "clock_runs ?c1" using assms by (simp add: clock_runs_def passes_after_def)
  obtain r c2 where s: "send_all (request_frame (mc_transaction_id c + 1) (mc_unit_id c) pdu) ?c1 = Some (r, c2)"
    using send_all_returns [OF runs] by fastforce
  have r2: "clock_runs c2" using clock_runs_link [OF runs send_all_link [OF s]] .
  obtain h c3 where h: "receive_exact 7 c2 = Some (h, c3)"
    using receive_exact_returns [OF r2] by fastforce
  have r3: "clock_runs c3" using clock_runs_link [OF r2 receive_exact_link [OF h]] .
  show ?thesis using s h receive_exact_returns [OF r3]
    by (auto simp: transact_def Let_def split: sum.split option.split) (metis not_None_eq)
qed

lemma connect_wait_returns:
  assumes "clock_runs c"
  shows "\<exists>q. connect_wait cs c = Some q"
proof -
  obtain t c1 where t: "now c = (t, c1)" by fastforce
  obtain n where "passes_after n (t + mc_connect_timeout c * 1000000) c1"
    using clock_runs_now [OF assms t] .
  then obtain r c2 where "wait_for POLLOUT (t + mc_connect_timeout c * 1000000) c1 = Some (r, c2)"
    using wait_for_returns by blast
  then show ?thesis by (simp add: connect_wait_def t split: sum.split option.split)
qed

lemma client_returns:
  assumes "clock_runs c"
  shows "connect c \<noteq> None \<and> read_status c \<noteq> None \<and> write_command img c \<noteq> None"
proof -
  have "clock_runs (c\<lparr>mc_connects := y, mc_socket := x\<rparr>)" for x y
    using assms by (simp add: clock_runs_def passes_after_def)
  then have "\<exists>a b. connect_wait cs (c\<lparr>mc_connects := y, mc_socket := x\<rparr>) = Some (a, b)" for cs x y
    using connect_wait_returns by fastforce
  then have "connect c \<noteq> None"
    by (auto simp: connect_def close_def Let_def split: option.split connect_event.split)
  moreover have "read_status c \<noteq> None" "write_command img c \<noteq> None"
    using transact_returns [OF assms]
    by (auto simp: read_status_def write_command_def Let_def split: option.split sum.split)
  ultimately show ?thesis by blast
qed

text \<open>On a clock that passes every instant, every operation of the client returns, whatever the
  peer and the operating system do.\<close>

theorem client_operations_return:
  assumes "clock_runs c"
  shows "connect c \<noteq> None \<and> read_status c \<noteq> None \<and> write_command img c \<noteq> None"
  using assms by (rule client_returns)

text \<open>The clock of the client only advances.\<close>

lemma clock_runs_sdrop: "clock_runs c \<Longrightarrow> mc_clock c' = sdrop k (mc_clock c) \<Longrightarrow> clock_runs c'"
proof -
  assume c: "clock_runs c" and c': "mc_clock c' = sdrop k (mc_clock c)"
  have "passes_after n dl c'" if "passes_after n dl c" for n dl
    using that c' by (auto simp: passes_after_def sdrop_snth)
  then show ?thesis using c unfolding clock_runs_def by blast
qed

lemma clock_runs_same: "mc_clock c' = mc_clock c \<Longrightarrow> clock_runs c' = clock_runs c"
  by (simp add: clock_runs_def passes_after_def)

lemma close_clock [simp]: "clock_runs (close c) = clock_runs c"
  by (rule clock_runs_same) (simp add: close_def)

lemma transact_clock: "clock_runs c \<Longrightarrow> transact pdu c = Some (r, c') \<Longrightarrow> clock_runs c'"
  using transact_link clock_runs_sdrop by blast

lemma read_status_clock: "clock_runs c \<Longrightarrow> read_status c = Some (r, c') \<Longrightarrow> clock_runs c'"
  by (auto simp: read_status_def split: option.splits sum.splits if_splits dest: transact_clock)

lemma write_command_clock: "clock_runs c \<Longrightarrow> write_command img c = Some (r, c') \<Longrightarrow> clock_runs c'"
  by (auto simp: write_command_def Let_def split: option.splits sum.splits if_splits dest: transact_clock)

lemma connect_wait_clock: "clock_runs c \<Longrightarrow> connect_wait cs c = Some (r, c') \<Longrightarrow> clock_runs c'"
  by (auto simp: connect_wait_def split: option.splits sum.splits prod.splits
      dest!: wait_for_keeps(1) same_link_now) (blast intro: clock_runs_link)+

lemma connect_clock:
  assumes "clock_runs c" "connect c = Some (r, c')" shows "clock_runs c'"
proof -
  have "clock_runs ((close c)\<lparr>mc_connects := y, mc_socket := x\<rparr>)" "clock_runs ((close c)\<lparr>mc_connects := y\<rparr>)" for x y
    using assms(1) by (simp_all add: clock_runs_def passes_after_def close_def)
  then show ?thesis using assms(2)
    by (auto simp: connect_def Let_def split: option.splits connect_event.splits dest: connect_wait_clock)
qed

section \<open>Connecting\<close>

lemma connect_wait_result:
  assumes "connect_wait cs c = Some (r, c')"
  shows "(r = Inr () \<longrightarrow> mc_socket c' = mc_socket c) \<and> (\<forall>e. r = Inl e \<longrightarrow> mc_socket c' = None)"
  using assms
  by (auto simp: connect_wait_def close_def now_def same_link_def
      split: option.splits sum.splits dest!: wait_for_keeps(1))

lemma connect_result:
  assumes "connect c = Some (r, c')"
  shows "(r = Inr () \<longrightarrow> is_open c') \<and> (\<forall>e. r = Inl e \<longrightarrow> mc_socket c' = None)"
  using assms
  by (auto simp: connect_def Let_def close_def is_open_def
      split: option.splits connect_event.splits dest!: connect_wait_result)

lemma close_closes [simp]: "\<not> is_open (close c)"
  by (simp add: close_def is_open_def)

lemma read_status_open: "read_status c = Some (r, c') \<Longrightarrow> is_open c' = is_open c"
  by (auto simp: read_status_def is_open_def split: option.splits sum.splits if_splits dest!: transact_link)

lemma write_command_open: "write_command img c = Some (r, c') \<Longrightarrow> is_open c' = is_open c"
  by (auto simp: write_command_def Let_def is_open_def split: option.splits sum.splits if_splits dest!: transact_link)

section \<open>The logs only grow\<close>

definition grows_logs :: "modbus_client \<Rightarrow> modbus_client \<Rightarrow> bool" where
  "grows_logs c c' \<longleftrightarrow> mc_unit_id c' = mc_unit_id c \<and> prefix (mc_sent c) (mc_sent c') \<and>
     prefix (mc_received c) (mc_received c')"

lemma grows_logs_refl [simp, intro]: "grows_logs c c"
  by (simp add: grows_logs_def)

lemma grows_logs_trans [trans]: "grows_logs a b \<Longrightarrow> grows_logs b c \<Longrightarrow> grows_logs a c"
  using prefix_order.trans by (auto simp: grows_logs_def)

lemma transfers_grow_logs:
  "wait_for ev dl c = Some (u, c') \<Longrightarrow> grows_logs c c'"
  "send_all data c = Some (u, c') \<Longrightarrow> grows_logs c c'"
  "receive_exact n c = Some (r, c') \<Longrightarrow> grows_logs c c'"
  using wait_for_keeps [of ev dl c u c'] send_all_keeps [of data c "(u, c')"] receive_exact_keeps [of n c "(r, c')"]
  by (auto simp: same_link_def same_bytes_def grows_logs_def send_keeps_def receive_keeps_def)

lemma transact_grows_logs:
  assumes "transact pdu c = Some (r, c')"
  shows "grows_logs c c'"
proof -
  define c1 where "c1 = c\<lparr>mc_transaction_id := mc_transaction_id c + 1\<rparr>"
  have "grows_logs c c' \<or> grows_logs c1 c'"
    using assms unfolding transact_def Let_def c1_def [symmetric]
    by (auto split: if_splits option.splits sum.splits dest!: transfers_grow_logs(2,3)) (blast intro: grows_logs_trans)+
  then show ?thesis by (auto simp: grows_logs_def c1_def)
qed

lemma exchanges_grow_logs:
  "read_status c = Some (r, c') \<Longrightarrow> grows_logs c c'"
  "write_command img c = Some (u, c') \<Longrightarrow> grows_logs c c'"
  by (auto simp: read_status_def write_command_def Let_def split: option.splits sum.splits if_splits
      dest!: transact_grows_logs)

lemma close_grows_logs [simp]: "grows_logs c (close c)"
  by (simp add: grows_logs_def close_def)

lemma connect_wait_grows_logs: "connect_wait cs c = Some (u, c') \<Longrightarrow> grows_logs c c'"
  by (auto simp: connect_wait_def now_def close_def split: option.splits sum.splits dest!: transfers_grow_logs(1))
    (auto simp: grows_logs_def)

lemma connect_grows_logs: "connect c = Some (u, c') \<Longrightarrow> grows_logs c c'"
  by (auto simp: connect_def Let_def close_def split: option.splits connect_event.splits
      dest!: connect_wait_grows_logs) (auto simp: grows_logs_def)

section \<open>The link to the gripper as an interface\<close>

text \<open>What the driver relies on: connecting opens the link or leaves it closed, closing closes it, an
  exchange keeps it as it is, and an image that was read has 16 bytes.\<close>

locale process_link =
  fixes link_connect :: "'l \<Rightarrow> ((cpp_exception + unit) \<times> 'l) option"
    and link_close :: "'l \<Rightarrow> 'l"
    and link_open :: "'l \<Rightarrow> bool"
    and link_read :: "'l \<Rightarrow> ((cpp_exception + u8 list) \<times> 'l) option"
    and link_write :: "u8 list \<Rightarrow> 'l \<Rightarrow> ((cpp_exception + unit) \<times> 'l) option"
  assumes connect_iff: "link_connect l = Some (u, l') \<Longrightarrow> link_open l' \<longleftrightarrow> u = Inr ()"
    and close_open: "\<not> link_open (link_close l)"
    and read_open: "link_read l = Some (r, l') \<Longrightarrow> link_open l' = link_open l"
    and write_open: "link_write img l = Some (u, l') \<Longrightarrow> link_open l' = link_open l"
    and read_size: "link_read l = Some (Inr img, l') \<Longrightarrow> length img = 16"
begin

lemma connect_ok: "link_connect l = Some (Inr v, l') \<Longrightarrow> link_open l'"
  using connect_iff by simp

lemma connect_fail: "link_connect l = Some (Inl e, l') \<Longrightarrow> \<not> link_open l'"
  using connect_iff by simp

lemma exchange_open:
  "link_write cmd l = Some (r, l1) \<Longrightarrow> link_read l1 = Some (q, l2) \<Longrightarrow> link_open l2 = link_open l"
  using read_open write_open by metis

end

interpretation modbus: process_link connect close is_open read_status write_command
proof (unfold_locales, goal_cases)
  case (1 l u l')
  then show ?case using connect_result [of l u l'] by (cases u) (auto simp: is_open_def)
next
  case (5 l img l')
  then show ?case by (rule read_status_transact)
qed (auto dest: read_status_open write_command_open)

section \<open>A slave that answers at once\<close>

text \<open>\<open>prompt t c\<close>: the socket is open, the clock stands at \<open>t\<close>, the socket is always ready and
  takes whole requests. \<open>say bs c\<close> queues the bytes of one read.\<close>

definition prompt :: "int \<Rightarrow> modbus_client \<Rightarrow> bool" where
  "prompt t c \<longleftrightarrow> is_open c \<and> mc_response_timeout c > 0 \<and> mc_clock c = sconst t \<and>
     mc_polls c = sconst (Poll_ready (POLLIN OR POLLOUT)) \<and> mc_writes c = sconst (Sent_count 300)"

definition say :: "u8 list \<Rightarrow> modbus_client \<Rightarrow> modbus_client" where
  "say bs c = c\<lparr>mc_reads := Got_bytes bs ## mc_reads c\<rparr>"

lemma prompt_fields:
  assumes "prompt t c"
  shows "stl (mc_clock c) = mc_clock c" "stl (mc_polls c) = mc_polls c" "stl (mc_writes c) = mc_writes c"
    "shd (mc_clock c) = t" "shd (mc_polls c) = Poll_ready 5" "shd (mc_writes c) = Sent_count 300"
  using assms by (simp_all add: prompt_def POLLIN_def POLLOUT_def)

lemma prompt_script:
  assumes "prompt t c"
  shows "now c = (t, c)" "next_poll c = (Poll_ready 5, c)"
    "length bs \<le> 300 \<Longrightarrow>
       write_some bs c = (Sent_count (length bs), c\<lparr>mc_sent := mc_sent c @ bs\<rparr>)"
    "length bs = n \<Longrightarrow> read_some n (say bs c) = (Got_bytes bs, c\<lparr>mc_received := mc_received c @ bs\<rparr>)"
  using prompt_fields [OF assms]
  by (cases c; simp add: now_def next_poll_def write_some_def read_some_def say_def min_def)+

lemma prompt_update [simp]:
  "prompt t (c\<lparr>mc_sent := x\<rparr>) = prompt t c" "prompt t (c\<lparr>mc_received := x\<rparr>) = prompt t c"
  "prompt t (c\<lparr>mc_transaction_id := i\<rparr>) = prompt t c" "prompt t (say bs c) = prompt t c"
  "prompt t (c\<lparr>mc_reads := y\<rparr>) = prompt t c"
  by (simp_all add: prompt_def is_open_def say_def)

lemma say_update [simp]:
  "say bs (c\<lparr>mc_sent := x\<rparr>) = (say bs c)\<lparr>mc_sent := x\<rparr>"
  "say bs (c\<lparr>mc_transaction_id := i\<rparr>) = (say bs c)\<lparr>mc_transaction_id := i\<rparr>"
  "mc_sent (say bs c) = mc_sent c" "mc_received (say bs c) = mc_received c"
  "mc_transaction_id (say bs c) = mc_transaction_id c" "mc_unit_id (say bs c) = mc_unit_id c"
  "mc_response_timeout (say bs c) = mc_response_timeout c"
  by (simp_all add: say_def)

lemma prompt_wait:
  assumes "prompt t c" "ev = POLLIN \<or> ev = POLLOUT" "t + 1000000 \<le> dl"
  shows "wait_for ev dl c = Some (Inr (), c)"
proof -
  have "1 \<le> duration_cast_ms (dl - t)"
    using assms(3) zdiv_mono1 [of 1000000 "dl - t" 1000000] by (simp add: duration_cast_ms_def)
  moreover have "is_open c" using assms(1) by (simp add: prompt_def)
  ultimately show ?thesis using assms(2)
    unfolding wait_for_def wait_loop.simps [of ev dl c] prompt_script(1,2) [OF assms(1)]
    by (auto simp: prompt_script(1,2) [OF assms(1)] POLLIN_def POLLOUT_def POLLERR_def POLLHUP_def POLLNVAL_def)
qed

lemma prompt_deadline: "prompt t c \<Longrightarrow> t + 1000000 \<le> t + mc_response_timeout c * 1000000"
  by (simp add: prompt_def)

lemma prompt_send_all:
  assumes "prompt t c" "bs \<noteq> []" "length bs \<le> 300"
  shows "send_all bs c = Some (Inr (), c\<lparr>mc_sent := mc_sent c @ bs\<rparr>)"
proof -
  let ?dl = "t + mc_response_timeout c * 1000000" and ?c = "c\<lparr>mc_sent := mc_sent c @ bs\<rparr>"
  have "send_all_loop bs ?dl (length bs) ?c = Some (Inr (), ?c)"
    by (simp add: send_all_loop.simps [of bs ?dl "length bs"])
  then show ?thesis
    using assms prompt_wait [OF assms(1) _ prompt_deadline [OF assms(1)], of POLLOUT]
    by (simp add: send_all_def prompt_script [OF assms(1)] send_all_loop.simps [of bs ?dl 0])
qed

lemma prompt_receive:
  assumes "prompt t c" "bs \<noteq> []" "length bs = n"
  shows "receive_exact n (say bs c) = Some (Inr bs, c\<lparr>mc_received := mc_received c @ bs\<rparr>)"
proof -
  let ?dl = "t + mc_response_timeout c * 1000000" and ?c = "c\<lparr>mc_received := mc_received c @ bs\<rparr>"
  have p: "prompt t (say bs c)" using assms(1) by simp
  have "receive_loop n ?dl bs ?c = Some (Inr bs, ?c)"
    using assms(3) by (simp add: receive_loop.simps [of n ?dl bs])
  then show ?thesis
    using assms prompt_wait [OF p _ prompt_deadline [OF p], of POLLIN]
    by (auto simp: receive_exact_def prompt_script(1) [OF p] prompt_script(4) [OF assms(1)]
        receive_loop.simps [of n ?dl "[]"])
qed

lemma check_header_of_frame:
  assumes "1 \<le> length r" "length r \<le> 253"
  shows "check_header tid unit (take 7 (request_frame tid unit r)) = Inr (length r)"
proof -
  let ?len = "of_nat (1 + length r) :: u16"
  let ?h = "append_u16 [] tid @ append_u16 [] 0 @ append_u16 [] ?len @ [unit]"
  have h: "take 7 (request_frame tid unit r) = ?h" by (simp add: request_frame_def append_u16_def)
  have n: "unat ?len = 1 + length r"
    using assms by (simp add: unsigned_of_nat take_bit_nat_eq_self del: of_nat_add of_nat_Suc)
  have reads: "read_u16 ?h 0 = tid" "read_u16 ?h 2 = 0" "read_u16 ?h 4 = ?len" "?h ! 6 = unit"
    by (subst read_u16_iff; simp add: append_u16_def)+ (simp add: append_u16_def)
  have "\<not> (?len < 2 \<or> 254 < ?len)"
    using n assms by (auto simp: word_less_nat_alt simp del: of_nat_add of_nat_Suc)
  then show ?thesis unfolding h check_header_def reads n by simp
qed

lemma prompt_transact:
  assumes "prompt t c" "pdu \<noteq> []" "length pdu \<le> 253" "r \<noteq> []" "length r \<le> 253"
    and "check_response (pdu ! 0) r = Inr r"
  defines "tid \<equiv> mc_transaction_id c + 1"
  defines "rf \<equiv> request_frame tid (mc_unit_id c) r"
  shows "transact pdu (say (take 7 rf) (say (drop 7 rf) c)) =
    Some (Inr r, c\<lparr>mc_transaction_id := tid,
      mc_sent := mc_sent c @ request_frame tid (mc_unit_id c) pdu,
      mc_received := mc_received c @ rf\<rparr>)"
proof -
  let ?c0 = "say (take 7 rf) (say (drop 7 rf) c)"
  let ?q = "request_frame tid (mc_unit_id c) pdu"
  let ?c1 = "c\<lparr>mc_transaction_id := tid, mc_sent := mc_sent c @ ?q\<rparr>"
  let ?c2 = "?c1\<lparr>mc_received := mc_received c @ take 7 rf\<rparr>"
  have d: "drop 7 rf = r" by (simp add: rf_def request_frame_def append_u16_def)
  have s: "send_all ?q (?c0\<lparr>mc_transaction_id := tid\<rparr>) =
      Some (Inr (), say (take 7 rf) (say (drop 7 rf) ?c1))"
    using assms(1,3) by (subst prompt_send_all [of t]) (simp_all add: request_frame_def)
  have h: "receive_exact 7 (say (take 7 rf) (say (drop 7 rf) ?c1)) =
      Some (Inr (take 7 rf), say (drop 7 rf) ?c2)"
    using assms(1) by (subst prompt_receive [of t]) (simp_all add: rf_def request_frame_def say_def)
  have b: "receive_exact (length r) (say (drop 7 rf) ?c2) =
      Some (Inr r, ?c2\<lparr>mc_received := mc_received ?c2 @ r\<rparr>)"
    unfolding d using assms(1,4) by (subst prompt_receive [of t]) simp_all
  have "check_header tid (mc_unit_id c) (take 7 rf) = Inr (length r)"
    unfolding rf_def using assms(4,5) by (intro check_header_of_frame) (cases r, simp_all)
  moreover have "is_open ?c0" using assms(1) by (simp add: prompt_def is_open_def say_def)
  ultimately show ?thesis using assms(2,3,6) s h b
    by (simp add: transact_def Let_def tid_def [symmetric] flip: d)
qed

text \<open>C11. Every status of the gripper can be read: when the socket is ready and the slave answers
  the request with any 16-byte image, reading the status returns that image.\<close>

theorem read_status_of_prompt_slave:
  assumes "prompt t c" "length img = kProcessImageSize"
  defines "rf \<equiv> request_frame (mc_transaction_id c + 1) (mc_unit_id c) (0x04 # 0x10 # img)"
  shows "\<exists>c'. read_status (say (take 7 rf) (say (drop 7 rf) c)) = Some (Inr img, c')"
proof -
  have "check_response 4 (4 # 16 # img) = Inr (4 # 16 # img)" by (simp add: check_response_def)
  then obtain c' where
    "transact [4, 0, 0, 0, 8] (say (take 7 rf) (say (drop 7 rf) c)) = Some (Inr (4 # 16 # img), c')"
    using prompt_transact [OF assms(1), of "[4, 0, 0, 0, 8]" "4 # 16 # img"] assms(2)
    by (auto simp: rf_def kProcessImageSize_def)
  then show ?thesis using assms(2) by (simp add: read_status_def kProcessImageSize_def)
qed

text \<open>The same for writing a command, and a read that fails.\<close>

lemma prompt_read_status:
  assumes "prompt t c" "length img = 16"
  defines "tid \<equiv> mc_transaction_id c + 1"
  defines "rf \<equiv> request_frame tid (mc_unit_id c) (0x04 # 0x10 # img)"
  shows "read_status (say (take 7 rf) (say (drop 7 rf) c)) =
    Some (Inr img, c\<lparr>mc_transaction_id := tid,
      mc_sent := mc_sent c @ request_frame tid (mc_unit_id c) [4, 0, 0, 0, 8],
      mc_received := mc_received c @ rf\<rparr>)"
proof -
  have "check_response 4 (4 # 16 # img) = Inr (4 # 16 # img)" by (simp add: check_response_def)
  then show ?thesis
    using prompt_transact [OF assms(1), of "[4, 0, 0, 0, 8]" "4 # 16 # img"] assms(2)
    by (simp add: read_status_def kProcessImageSize_def tid_def rf_def)
qed

lemma prompt_write_command:
  assumes "prompt t c" "length img = 16"
  defines "tid \<equiv> mc_transaction_id c + 1"
  defines "rf \<equiv> request_frame tid (mc_unit_id c) [0x10, 0, 0, 0, 8]"
  shows "write_command img (say (take 7 rf) (say (drop 7 rf) c)) =
    Some (Inr (), c\<lparr>mc_transaction_id := tid,
      mc_sent := mc_sent c @ request_frame tid (mc_unit_id c) ([0x10, 0, 0, 0, 8, 0x10] @ img),
      mc_received := mc_received c @ rf\<rparr>)"
proof -
  have "check_response 16 [16, 0, 0, 0, 8] = Inr [16, 0, 0, 0, 8]" by (simp add: check_response_def)
  then show ?thesis
    using prompt_transact [OF assms(1), of "[16, 0, 0, 0, 8, 16] @ img" "[16, 0, 0, 0, 8]"] assms(2)
    by (simp add: write_command_def Let_def kProcessImageSize_def append_u16_def read_u16_def tid_def rf_def)
qed

lemma prompt_read_error:
  assumes "prompt t c"
  defines "tid \<equiv> mc_transaction_id c + 1"
  shows "read_status (c\<lparr>mc_reads := Get_error m ## s\<rparr>) =
    Some (Inl (io_error ''read Modbus TCP response'' m), c\<lparr>mc_transaction_id := tid,
      mc_sent := mc_sent c @ request_frame tid (mc_unit_id c) [4, 0, 0, 0, 8], mc_reads := s\<rparr>)"
proof -
  let ?q = "request_frame tid (mc_unit_id c) [4, 0, 0, 0, 8]"
  let ?c1 = "c\<lparr>mc_reads := Get_error m ## s, mc_transaction_id := tid\<rparr>"
  let ?c2 = "?c1\<lparr>mc_sent := mc_sent c @ ?q\<rparr>" and ?dl = "t + mc_response_timeout c * 1000000"
  have p1: "prompt t ?c1" and p2: "prompt t ?c2" using assms(1) by simp_all
  have s: "send_all ?q ?c1 = Some (Inr (), ?c2)"
    using prompt_send_all [OF p1, of ?q] by (simp add: request_frame_def)
  have w: "wait_for POLLIN ?dl ?c2 = Some (Inr (), ?c2)"
    using prompt_wait [OF p2 _ prompt_deadline [OF p2]] by simp
  have r: "receive_exact 7 ?c2 = Some (Inl (io_error ''read Modbus TCP response'' m), ?c2\<lparr>mc_reads := s\<rparr>)"
    using w by (simp add: receive_exact_def prompt_script(1) [OF p2] receive_loop.simps [of 7 ?dl "[]"] read_some_def)
  have "is_open c" using assms(1) by (simp add: prompt_def)
  then show ?thesis
    using s r by (simp add: read_status_def transact_def Let_def is_open_def tid_def)
qed

section \<open>Witnesses\<close>

definition ready_client :: modbus_client where
  "ready_client = \<lparr>mc_address = ''10.0.0.1'', mc_port = 502, mc_unit_id = 9, mc_connect_timeout = 1000, mc_response_timeout = 500,
     mc_transaction_id = 0, mc_socket = Some True, mc_clock = sconst 0,
     mc_polls = sconst (Poll_ready (POLLIN OR POLLOUT)), mc_writes = sconst (Sent_count 300),
     mc_reads = sconst Get_again,
     mc_connects = sconst \<lparr>cs_make_address = None, cs_open = None, cs_non_blocking = None,
       cs_connect = Connect_done, cs_getsockopt = None, cs_socket_error = None\<rparr>,
     mc_sent = [], mc_received = []\<rparr>"

lemma ready_client_prompt: "prompt 0 ready_client"
  by (simp add: prompt_def ready_client_def is_open_def)

definition hear :: "u8 list \<Rightarrow> modbus_client" where
  "hear r = (let rf = request_frame 1 9 r in say (take 7 rf) (say (drop 7 rf) ready_client))"

lemma hear_fields [simp]:
  "mc_transaction_id (hear r) = 0" "mc_unit_id (hear r) = 9" "mc_sent (hear r) = []" "mc_received (hear r) = []"
  by (simp_all add: hear_def Let_def say_def ready_client_def)

lemma hear_transact:
  assumes "pdu \<noteq> []" "length pdu \<le> 253" "r \<noteq> []" "length r \<le> 253" "check_response (pdu ! 0) r = Inr r"
  shows "\<exists>c'. transact pdu (hear r) = Some (Inr r, c')"
  using prompt_transact [OF ready_client_prompt assms] by (simp add: hear_def Let_def ready_client_def)

lemma hear_status: "\<exists>c'. read_status (hear (0x04 # 0x10 # replicate 16 7)) = Some (Inr (replicate 16 7), c')"
  using hear_transact [of "[4, 0, 0, 0, 8]" "0x04 # 0x10 # replicate 16 7"]
  by (auto simp: read_status_def kProcessImageSize_def check_response_def)

lemma hear_write:
  "\<exists>c'. write_command (replicate 16 0) (hear [0x10, 0, 0, 0, 8]) = Some (Inr (), c')"
  using hear_transact [of "append_u16 (append_u16 [0x10] 0) 8 @ [of_nat kProcessImageSize] @ replicate 16 0"
      "[0x10, 0, 0, 0, 8]"]
  by (auto simp: write_command_def Let_def kProcessImageSize_def check_response_def append_u16_def read_u16_def)

theorem transact_matches_response_witness:
  "\<exists>c'. transact [3, 1] (hear [3, 2, 5]) = Some (Inr [3, 2, 5], c') \<and>
     mc_sent c' = request_frame 1 9 [3, 1] \<and> mc_received c' = request_frame 1 9 [3, 2, 5]"
proof -
  obtain c' where t: "transact [3, 1] (hear [3, 2, 5]) = Some (Inr [3, 2, 5], c')"
    using hear_transact [of "[3, 1]" "[3, 2, 5]"] by (auto simp: check_response_def)
  show ?thesis using t transact_matches_response [OF t] by (intro exI [of _ c']) simp
qed

theorem read_status_sound_witness:
  "\<exists>c'. read_status (hear (0x04 # 0x10 # replicate 16 7)) = Some (Inr (replicate 16 7), c') \<and>
     mc_received c' = request_frame 1 9 (0x04 # 0x10 # replicate 16 7)"
proof -
  obtain c' where t: "read_status (hear (0x04 # 0x10 # replicate 16 7)) = Some (Inr (replicate 16 7), c')"
    using hear_status by blast
  show ?thesis using t read_status_sound [OF t] by (intro exI [of _ c']) simp
qed

theorem write_command_sound_witness:
  "\<exists>c'. write_command (replicate 16 0) (hear [0x10, 0, 0, 0, 8]) = Some (Inr (), c') \<and>
     mc_received c' = request_frame 1 9 [0x10, 0x00, 0x00, 0x00, 0x08]"
proof -
  obtain c' where t: "write_command (replicate 16 0) (hear [0x10, 0, 0, 0, 8]) = Some (Inr (), c')"
    using hear_write by blast
  show ?thesis using t write_command_sound [OF t] by (intro exI [of _ c']) simp
qed

theorem read_status_of_prompt_slave_witness:
  "\<exists>c'. read_status (hear (0x04 # 0x10 # replicate 16 1)) = Some (Inr (replicate 16 1), c')"
  using read_status_of_prompt_slave [OF ready_client_prompt, of "replicate 16 1"]
  by (simp add: hear_def Let_def kProcessImageSize_def ready_client_def)

text \<open>A clock that advances by a nanosecond at every reading passes every instant.\<close>

lemma siterate_clock_runs:
  "mc_clock c = siterate (\<lambda>t. t + 1) 0 \<Longrightarrow> clock_runs c"
proof -
  assume c: "mc_clock c = siterate (\<lambda>t. t + 1) 0"
  have "((\<lambda>t. t + 1) ^^ m) x = x + int m" for m x by (induction m) auto
  then have "mc_clock c !! m = int m" for m by (simp add: c)
  then have "passes_after (nat dl) dl c" for dl by (auto simp: passes_after_def)
  then show ?thesis unfolding clock_runs_def by blast
qed

theorem client_operations_return_witness:
  "read_status (ready_client\<lparr>mc_clock := siterate (\<lambda>t. t + 1) 0, mc_reads := sconst Get_again\<rparr>) \<noteq> None"
  using client_operations_return [OF siterate_clock_runs,
      of "ready_client\<lparr>mc_clock := siterate (\<lambda>t. t + 1) 0, mc_reads := sconst Get_again\<rparr>"]
  by simp

end
