(* ===== verification/Fp.thy ===== *)
theory Fp
  imports Prelude "HOL-Library.Log_Nat"
begin

text \<open>
  The IEEE floating-point values the nodes compute with: finite values as exact rationals, the two
  infinities and NaN, with the operations rounded to nearest, ties to even, in the binary64 format
  (\<^verbatim>\<open>double\<close>). The sign of zero is not modelled, and no definition built on this theory
  divides by a zero that the code can reach. The lemmas give what the conversions of the
  components need: rounding is monotone, exact on representable values, and keeps bounds that are
  representable.
\<close>

definition round_even :: "rat \<Rightarrow> int" where
  "round_even x =
     (let f = \<lfloor>x\<rfloor>; d = x - of_int f in
      if d < 1 / 2 then f else if 1 / 2 < d then f + 1 else if even f then f else f + 1)"

text \<open>\<open>expo x\<close>, for a positive \<open>x\<close>: the exponent of its leading binary digit.\<close>

definition expo :: "rat \<Rightarrow> int" where
  "expo x =
     (let (p, q) = quotient_of x; e = int (floorlog 2 (nat p)) - int (floorlog 2 (nat q)) in
      if 2 powi e \<le> x then e else e - 1)"

text \<open>The unit in the last place of \<open>x\<close> has exponent \<open>ulp_expo x\<close>: 53 digits, and none below
  \<open>2 ^ -1074\<close>.\<close>

definition ulp_expo :: "rat \<Rightarrow> int" where
  "ulp_expo x = max (expo \<bar>x\<bar> - 52) (- 1074)"

definition rnd :: "rat \<Rightarrow> rat" where
  "rnd x = (if x = 0 then 0 else of_int (round_even (x / 2 powi ulp_expo x)) * 2 powi ulp_expo x)"

definition DBL_MAX :: rat where "DBL_MAX = of_int (2 ^ 53 - 1) * 2 powi 971"

definition representable :: "rat \<Rightarrow> bool" where
  "representable x \<longleftrightarrow> (\<exists>m e. x = of_int m * 2 powi e \<and> \<bar>m\<bar> \<le> 2 ^ 53 \<and> - 1074 \<le> e)"

section \<open>Rounding to an integer\<close>

lemma round_even_of_int [simp]: "round_even (of_int n) = n"
  by (simp add: round_even_def)

lemma round_even_bounds: "\<lfloor>x\<rfloor> \<le> round_even x" "round_even x \<le> \<lfloor>x\<rfloor> + 1"
  by (auto simp: round_even_def Let_def)

lemma round_even_mono:
  assumes "x \<le> y" shows "round_even x \<le> round_even y"
proof (cases "\<lfloor>x\<rfloor> = \<lfloor>y\<rfloor>")
  case True
  then show ?thesis using assms by (auto simp: round_even_def Let_def)
next
  case False
  then have "\<lfloor>x\<rfloor> + 1 \<le> \<lfloor>y\<rfloor>" using floor_mono [OF assms] by linarith
  then show ?thesis using round_even_bounds [of x] round_even_bounds [of y] by linarith
qed

lemma round_even_minus: "round_even (- x) = - round_even x"
proof (cases "x = of_int \<lfloor>x\<rfloor>")
  case True
  then show ?thesis by (metis of_int_minus round_even_of_int)
next
  case False
  then have f: "\<lfloor>- x\<rfloor> = - \<lfloor>x\<rfloor> - 1" by linarith
  then show ?thesis by (auto simp: round_even_def Let_def f)
qed

lemma round_even_le: "x \<le> of_int n \<Longrightarrow> round_even x \<le> n"
  using round_even_mono [of x "of_int n"] by simp

lemma round_even_ge: "of_int n \<le> x \<Longrightarrow> n \<le> round_even x"
  using round_even_mono [of "of_int n" x] by simp

section \<open>The leading exponent\<close>

lemma floorlog_bounds:
  assumes "0 < n" shows "2 ^ (floorlog 2 n - 1) \<le> n" "n < 2 ^ floorlog 2 n" "0 < floorlog 2 n"
  using floorlog_bounds [of n 2] assms by (auto simp: floorlog_def)

lemma powi2_pos [simp]: "0 < (2 :: rat) powi e"
  by simp

lemma powi2_mono: "a \<le> b \<Longrightarrow> (2 :: rat) powi a \<le> 2 powi b"
  by (rule power_int_increasing) auto

lemma powi2_less: "a < b \<Longrightarrow> (2 :: rat) powi a < 2 powi b"
  by (rule power_int_strict_increasing) auto

lemma powi2_less_iff: "(2 :: rat) powi a < 2 powi b \<longleftrightarrow> a < b"
  using powi2_less powi2_mono by (meson not_le)

lemma nat_bits:
  assumes "0 < (p :: int)"
  shows "2 powi (int (floorlog 2 (nat p)) - 1) \<le> (of_int p :: rat)"
    "(of_int p :: rat) < 2 powi int (floorlog 2 (nat p))"
proof -
  let ?n = "floorlog 2 (nat p)"
  have b: "2 ^ (?n - 1) \<le> nat p" "nat p < 2 ^ ?n" "0 < ?n"
    using floorlog_bounds [of "nat p"] assms by simp_all
  have "(of_nat (2 ^ (?n - 1)) :: rat) \<le> of_nat (nat p)" "(of_nat (nat p) :: rat) < of_nat (2 ^ ?n)"
    using b(1,2) by (simp_all only: of_nat_le_iff of_nat_less_iff)
  moreover have "(2 :: rat) powi (int ?n - 1) = 2 ^ (?n - 1)"
    using b(3) by (simp add: power_int_def nat_diff_distrib)
  ultimately show "2 powi (int ?n - 1) \<le> (of_int p :: rat)" "(of_int p :: rat) < 2 powi int ?n"
    using assms by (simp_all add: power_int_def)
qed

lemma expo_bounds:
  assumes "0 < x" shows "2 powi expo x \<le> x" "x < 2 powi (expo x + 1)"
proof -
  obtain p q where pq: "quotient_of x = (p, q)" by fastforce
  have q0: "0 < q" and x: "x = of_int p / of_int q"
    using quotient_of_denom_pos [OF pq] quotient_of_div [OF pq] by auto
  have p0: "0 < p" using assms q0 by (simp add: x zero_less_divide_iff)
  define a b where "a = int (floorlog 2 (nat p))" and "b = int (floorlog 2 (nat q))"
  note P = nat_bits [OF p0, folded a_def] and Q = nat_bits [OF q0, folded b_def]
  have "2 powi (a - b - 1) = (2 :: rat) powi (a - 1) / 2 powi b" 
    by (simp add: power_int_diff power_int_add field_simps)
  also have "\<dots> \<le> x" unfolding x using P(1) Q(2) q0 p0 by (intro frac_le) auto
  finally have lo: "2 powi (a - b - 1) \<le> x" .
  have "x < 2 powi a / (2 powi (b - 1))" unfolding x
    using P(2) Q(1) q0 p0 by (intro frac_less) auto
  also have "\<dots> = 2 powi (a - b + 1)" by (simp add: power_int_diff power_int_add field_simps)
  finally have hi: "x < 2 powi (a - b + 1)" .
  show "2 powi expo x \<le> x" "x < 2 powi (expo x + 1)"
    using lo hi by (auto simp: expo_def pq a_def b_def Let_def)
qed

lemma expo_unique:
  assumes "0 < x" "2 powi e \<le> x" "x < 2 powi (e + 1)" shows "expo x = e"
proof -
  have "2 powi expo x < (2 :: rat) powi (e + 1)" "(2 :: rat) powi e < 2 powi (expo x + 1)"
    using expo_bounds [OF assms(1)] assms(2,3) by (meson le_less_trans)+
  then show ?thesis by (simp add: powi2_less_iff)
qed

lemma expo_mono: "0 < x \<Longrightarrow> x \<le> y \<Longrightarrow> expo x \<le> expo y"
  using expo_bounds(1) [of x] expo_bounds(2) [of y] powi2_less_iff [of "expo x" "expo y + 1"]
  by (smt (verit, best) le_less_trans order.strict_trans2)

section \<open>Rounding to a double\<close>

lemma rnd_0 [simp]: "rnd 0 = 0"
  by (simp add: rnd_def)

lemma rnd_minus: "rnd (- x) = - rnd x"
  by (simp add: rnd_def ulp_expo_def round_even_minus)

lemma powi2_int: "0 \<le> k \<Longrightarrow> (2 :: rat) powi k = of_int (2 ^ nat k)"
  by (simp add: power_int_def)

text \<open>Multiples of the unit in the last place are fixed, and bound what is rounded.\<close>

lemma scaled:
  fixes y :: rat
  assumes "y = of_int m * 2 powi e" "ulp_expo x \<le> e"
  shows "\<exists>n. y / 2 powi ulp_expo x = of_int n"
proof -
  have "y / 2 powi ulp_expo x = of_int m * 2 powi (e - ulp_expo x)"
    by (simp add: assms(1) power_int_diff)
  also have "\<dots> = of_int (m * 2 ^ nat (e - ulp_expo x))"
    using assms(2) by (simp add: powi2_int)
  finally show ?thesis by blast
qed

lemma rnd_le:
  assumes "x \<le> y" "y = of_int m * 2 powi e" "ulp_expo x \<le> e" "x \<noteq> 0" shows "rnd x \<le> y"
proof -
  obtain n where n: "y / 2 powi ulp_expo x = of_int n" using scaled [OF assms(2,3)] by blast
  have "x / 2 powi ulp_expo x \<le> of_int n" using assms(1) by (simp add: divide_right_mono flip: n)
  then have "(of_int (round_even (x / 2 powi ulp_expo x)) :: rat) \<le> y / 2 powi ulp_expo x"
    unfolding n by (intro of_int_le_iff [THEN iffD2] round_even_le)
  then show ?thesis using assms(4) by (simp add: rnd_def pos_le_divide_eq)
qed

lemma rnd_ge:
  assumes "y \<le> x" "y = of_int m * 2 powi e" "ulp_expo x \<le> e" "x \<noteq> 0" shows "y \<le> rnd x"
  using rnd_le [of "- x" "- y" "- m" e] assms by (simp add: rnd_minus ulp_expo_def)

lemma ulp_expo_representable:
  assumes "representable x" "x \<noteq> 0"
  obtains m where "x = of_int m * 2 powi ulp_expo x"
proof -
  obtain m e where x: "x = of_int m * 2 powi e" and m: "\<bar>m\<bar> \<le> 2 ^ 53" and e: "- 1074 \<le> e"
    using assms(1) by (auto simp: representable_def)
  have ax: "\<bar>x\<bar> = of_int \<bar>m\<bar> * 2 powi e" by (simp add: x abs_mult)
  have x0: "0 < \<bar>x\<bar>" using assms(2) by simp
  show thesis
  proof (cases "\<bar>m\<bar> = 2 ^ 53")
    case False
    then have "(of_int \<bar>m\<bar> :: rat) < of_int (2 ^ 53)" using m by (simp only: of_int_less_iff)
    then have "\<bar>x\<bar> < 2 powi 53 * 2 powi e" by (simp add: ax power_int_def)
    then have "2 powi expo \<bar>x\<bar> < (2 :: rat) powi (53 + e)"
      using expo_bounds(1) [OF x0] by (simp add: power_int_add)
    then have "ulp_expo x \<le> e" using e by (simp add: powi2_less_iff ulp_expo_def)
    then obtain n where "x / 2 powi ulp_expo x = of_int n" using scaled [OF x] by blast
    then show thesis by (intro that [of n]) (simp add: field_simps)
  next
    case True
    have "(2 :: rat) powi 53 = of_int (2 ^ 53)" by simp
    then have "\<bar>x\<bar> = 2 powi 53 * 2 powi e" by (simp only: ax True)
    then have "\<bar>x\<bar> = 2 powi (53 + e)" by (simp add: power_int_add)
    then have "expo \<bar>x\<bar> = 53 + e" using x0 by (intro expo_unique) (auto intro: powi2_less)
    then have u: "ulp_expo x = e + 1" using e by (simp add: ulp_expo_def)
    have "m = sgn m * 2 ^ 53" using True by (metis mult_sgn_abs)
    then have "x = of_int (sgn m * 2 ^ 52) * 2 powi (e + 1)"
      using x by (simp add: power_int_add)
    then show thesis using that u by metis
  qed
qed

lemma rnd_representable: "representable x \<Longrightarrow> rnd x = x"
proof (cases "x = 0")
  case False
  assume "representable x"
  then obtain m where "x = of_int m * 2 powi ulp_expo x" using ulp_expo_representable False by metis
  then have "x / 2 powi ulp_expo x = of_int m" by (simp add: field_simps)
  then show ?thesis using False by (simp add: rnd_def) (simp add: field_simps)
qed simp

lemma representable_rnd: "representable (rnd x)"
proof (cases "x = 0")
  case True
  then show ?thesis by (auto simp: representable_def intro!: exI [of _ 0])
next
  case False
  let ?u = "ulp_expo x" and ?n = "round_even (x / 2 powi ulp_expo x)"
  have "\<bar>x\<bar> < 2 powi (expo \<bar>x\<bar> + 1)" using expo_bounds(2) [of "\<bar>x\<bar>"] False by simp
  also have "\<dots> \<le> 2 powi (?u + 53)" by (rule powi2_mono) (simp add: ulp_expo_def)
  finally have "\<bar>x\<bar> / 2 powi ?u < of_int (2 ^ 53)"
    by (simp add: power_int_add divide_less_eq mult.commute)
  then have ax: "\<bar>x / 2 powi ?u\<bar> \<le> of_int (2 ^ 53)" by (simp add: abs_divide)
  have "?n \<le> 2 ^ 53" using abs_le_D1 [OF ax] by (rule round_even_le)
  moreover have "- (2 ^ 53) \<le> ?n" using abs_le_D2 [OF ax] by (intro round_even_ge) simp
  ultimately have "\<bar>?n\<bar> \<le> 2 ^ 53" by linarith
  moreover have "rnd x = of_int ?n * 2 powi ?u" using False by (simp add: rnd_def)
  moreover have "- 1074 \<le> ?u" by (simp add: ulp_expo_def)
  ultimately show ?thesis unfolding representable_def by blast
qed

lemma rnd_bounds_same:
  assumes "representable y" "x \<noteq> 0" "ulp_expo x \<le> ulp_expo y" "y \<noteq> 0"
  shows "x \<le> y \<Longrightarrow> rnd x \<le> y" "y \<le> x \<Longrightarrow> y \<le> rnd x"
  using ulp_expo_representable [OF assms(1,4)] rnd_le [OF _ _ assms(3,2)] rnd_ge [OF _ _ assms(3,2)]
  by metis+

lemma rnd_sign: "0 \<le> x \<Longrightarrow> 0 \<le> rnd x" "x \<le> 0 \<Longrightarrow> rnd x \<le> 0"
  using round_even_ge [of 0 "x / 2 powi ulp_expo x"] round_even_le [of "x / 2 powi ulp_expo x" 0]
  by (auto simp: rnd_def divide_nonpos_pos mult_nonpos_nonneg)

lemma ulp_expo_mono: "0 < x \<Longrightarrow> x \<le> y \<Longrightarrow> ulp_expo x \<le> ulp_expo y"
  using expo_mono [of x y] by (auto simp: ulp_expo_def)

lemma rnd_mono_pos:
  assumes "0 < x" "x \<le> y" shows "rnd x \<le> rnd y"
proof (cases "ulp_expo x = ulp_expo y")
  case True
  then show ?thesis using assms
    by (auto simp: rnd_def intro!: mult_right_mono round_even_mono divide_right_mono)
next
  case False
  let ?z = "2 powi expo y :: rat"
  have less: "ulp_expo x < ulp_expo y" using False ulp_expo_mono [OF assms] by linarith
  have u: "ulp_expo y = expo y - 52" "expo x < expo y"
    using less assms by (auto simp: ulp_expo_def split: if_splits)
  have z: "?z = of_int 1 * 2 powi expo y" by simp
  have "x \<le> ?z"
    using expo_bounds(2) [OF assms(1)] powi2_mono [of "expo x + 1" "expo y"] u(2) by linarith
  then have "rnd x \<le> ?z" using less u assms(1) by (intro rnd_le [OF _ z]) auto
  moreover have "?z \<le> rnd y" using u expo_bounds(1) [of y] assms by (intro rnd_ge [OF _ z]) auto
  ultimately show ?thesis by simp
qed

lemma rnd_mono: "x \<le> y \<Longrightarrow> rnd x \<le> rnd y"
proof -
  assume xy: "x \<le> y"
  consider "0 < x" | "y < 0" | "x \<le> 0" "0 \<le> y" by linarith
  then show ?thesis
  proof cases
    case 1
    then show ?thesis using rnd_mono_pos xy by blast
  next
    case 2
    then show ?thesis using rnd_mono_pos [of "- y" "- x"] xy by (simp add: rnd_minus)
  next
    case 3
    then show ?thesis using rnd_sign(2) [of x] rnd_sign(1) [of y] by linarith
  qed
qed

lemma representable_of_int: "\<bar>n\<bar> \<le> 2 ^ 53 \<Longrightarrow> representable (of_int n)"
  unfolding representable_def by (intro exI [of _ n] exI [of _ 0]) simp

lemma representable_0 [simp]: "representable 0" and representable_1 [simp]: "representable 1"
  using representable_of_int [of 0] representable_of_int [of 1] by simp_all

text \<open>The difference of two different doubles does not round to zero.\<close>

lemma powi2_multiple:
  assumes "emin \<le> e" shows "\<exists>k. of_int m * (2 :: rat) powi e = of_int k * 2 powi emin"
proof -
  have "(2 :: rat) powi e = 2 powi (e - emin) * 2 powi emin" by (simp add: power_int_diff)
  also have "2 powi (e - emin) = (of_int (2 ^ nat (e - emin)) :: rat)" using assms by (intro powi2_int) simp
  finally show ?thesis by (intro exI [of _ "m * 2 ^ nat (e - emin)"]) (simp only: of_int_mult mult.assoc)
qed

lemma rnd_diff_pos:
  assumes "representable x" "representable y" "y < x" shows "0 < rnd (x - y)"
proof -
  let ?t = "2 powi (- 1074) :: rat"
  obtain i j where x: "x = of_int i * ?t" and y: "y = of_int j * ?t"
    using assms(1,2) powi2_multiple unfolding representable_def by meson
  have d: "x - y = of_int (i - j) * ?t" by (simp only: x y of_int_diff left_diff_distrib)
  have "0 < i - j"
    using assms(3) powi2_pos [of "- 1074"] unfolding x y by (simp only: mult_less_cancel_right_pos of_int_less_iff)
  then have "(1 :: rat) \<le> of_int (i - j)" by linarith
  then have "1 * ?t \<le> x - y" unfolding d by (intro mult_right_mono) auto
  then have "?t \<le> x - y" by (simp only: mult_1)
  moreover have "representable ?t"
    unfolding representable_def by (intro exI [of _ 1] exI [of _ "- 1074"]) (simp only: of_int_1 mult_1, simp)
  ultimately have "?t \<le> rnd (x - y)" using rnd_mono [of ?t "x - y"] rnd_representable by metis
  then show ?thesis using powi2_pos [of "- 1074"] by (rule less_le_trans [rotated])
qed

section \<open>Values and operations\<close>

datatype double = Fin rat | PInf | NInf | NaN

text \<open>The double nearest to an exact result.\<close>

definition mk :: "rat \<Rightarrow> double" where
  "mk x = (let y = rnd x in if DBL_MAX < y then PInf else if y < - DBL_MAX then NInf else Fin y)"

definition is_double :: "double \<Rightarrow> bool" where
  "is_double a \<longleftrightarrow> (\<forall>x. a = Fin x \<longrightarrow> representable x \<and> \<bar>x\<bar> \<le> DBL_MAX)"

definition isfinite :: "double \<Rightarrow> bool" where
  "isfinite a = (case a of Fin _ \<Rightarrow> True | _ \<Rightarrow> False)"

fun dneg :: "double \<Rightarrow> double" where
  "dneg (Fin x) = Fin (- x)" | "dneg PInf = NInf" | "dneg NInf = PInf" | "dneg NaN = NaN"

fun dadd :: "double \<Rightarrow> double \<Rightarrow> double" where
  "dadd (Fin x) (Fin y) = mk (x + y)"
| "dadd NaN _ = NaN"
| "dadd _ NaN = NaN"
| "dadd PInf NInf = NaN"
| "dadd NInf PInf = NaN"
| "dadd PInf _ = PInf"
| "dadd _ PInf = PInf"
| "dadd NInf _ = NInf"
| "dadd _ NInf = NInf"

definition dsub :: "double \<Rightarrow> double \<Rightarrow> double" where
  "dsub a b = dadd a (dneg b)"

definition inf_of :: "rat \<Rightarrow> double" where
  "inf_of s = (if s = 0 then NaN else if 0 < s then PInf else NInf)"

text \<open>The sign of a value, as far as it is modelled, decides products and quotients with infinities.\<close>

fun dsgn :: "double \<Rightarrow> rat" where
  "dsgn (Fin x) = sgn x" | "dsgn PInf = 1" | "dsgn NInf = - 1" | "dsgn NaN = 0"

fun dmul :: "double \<Rightarrow> double \<Rightarrow> double" where
  "dmul (Fin x) (Fin y) = mk (x * y)"
| "dmul NaN _ = NaN"
| "dmul _ NaN = NaN"
| "dmul a b = inf_of (dsgn a * dsgn b)"

fun ddiv :: "double \<Rightarrow> double \<Rightarrow> double" where
  "ddiv (Fin x) (Fin y) = (if y = 0 then inf_of (sgn x) else mk (x / y))"
| "ddiv NaN _ = NaN"
| "ddiv _ NaN = NaN"
| "ddiv (Fin _) _ = Fin 0"
| "ddiv a (Fin y) = inf_of (dsgn a * (if y < 0 then - 1 else 1))"
| "ddiv _ _ = NaN"

fun dlt :: "double \<Rightarrow> double \<Rightarrow> bool" where
  "dlt (Fin x) (Fin y) = (x < y)"
| "dlt NaN _ = False"
| "dlt _ NaN = False"
| "dlt NInf b = (b \<noteq> NInf)"
| "dlt _ NInf = False"
| "dlt PInf _ = False"
| "dlt _ PInf = True"

definition deq :: "double \<Rightarrow> double \<Rightarrow> bool" where
  "deq a b \<longleftrightarrow> a \<noteq> NaN \<and> a = b"

definition dle :: "double \<Rightarrow> double \<Rightarrow> bool" where
  "dle a b \<longleftrightarrow> dlt a b \<or> deq a b"

definition of_integer :: "int \<Rightarrow> double" where
  "of_integer n = mk (of_int n)"

text \<open>\<^verbatim>\<open>std::min\<close>, \<^verbatim>\<open>std::max\<close> and \<^verbatim>\<open>std::clamp\<close>.\<close>

definition dmin :: "double \<Rightarrow> double \<Rightarrow> double" where "dmin a b = (if dlt b a then b else a)"
definition dmax :: "double \<Rightarrow> double \<Rightarrow> double" where "dmax a b = (if dlt a b then b else a)"
definition dclamp :: "double \<Rightarrow> double \<Rightarrow> double \<Rightarrow> double" where
  "dclamp v lo hi = (if dlt v lo then lo else if dlt hi v then hi else v)"

text \<open>Conversions to a 64-bit integer, truncating or rounding half away from zero: undefined
  (\<open>None\<close>) when the value is not finite or does not fit.\<close>

definition rat_trunc :: "rat \<Rightarrow> int" where
  "rat_trunc x = (if x < 0 then - \<lfloor>- x\<rfloor> else \<lfloor>x\<rfloor>)"

definition rat_lround :: "rat \<Rightarrow> int" where
  "rat_lround x = (if x < 0 then - \<lfloor>1 / 2 - x\<rfloor> else \<lfloor>x + 1 / 2\<rfloor>)"

definition fits_int64 :: "int \<Rightarrow> bool" where
  "fits_int64 n \<longleftrightarrow> - (2 ^ 63) \<le> n \<and> n < 2 ^ 63"

definition to_int64 :: "(rat \<Rightarrow> int) \<Rightarrow> double \<Rightarrow> int option" where
  "to_int64 f a = (case a of Fin x \<Rightarrow> if fits_int64 (f x) then Some (f x) else None | _ \<Rightarrow> None)"

definition trunc_int64 :: "double \<Rightarrow> int option" where "trunc_int64 = to_int64 rat_trunc"
definition lround :: "double \<Rightarrow> int option" where "lround = to_int64 rat_lround"

section \<open>Bounds of the operations\<close>

lemma DBL_MAX_representable: "representable DBL_MAX"
  unfolding representable_def DBL_MAX_def
  by (intro exI [of _ "2 ^ 53 - 1"] exI [of _ 971] conjI) (rule refl, simp_all)

lemma DBL_MAX_ge_int: "(2 :: rat) ^ 53 \<le> DBL_MAX"
proof -
  have "(2 :: rat) powi 1 \<le> 2 powi 971" by (rule powi2_mono) simp
  then have "of_int (2 ^ 53 - 1) * 2 \<le> DBL_MAX" unfolding DBL_MAX_def by (intro mult_left_mono) simp_all
  then show ?thesis by simp
qed

text \<open>A result between two finite doubles is finite and stays between them.\<close>

lemma mk_between:
  assumes "is_double (Fin a)" "is_double (Fin b)" "a \<le> x" "x \<le> b"
  shows "mk x = Fin (rnd x) \<and> a \<le> rnd x \<and> rnd x \<le> b"
proof -
  have ab: "representable a" "representable b" "- DBL_MAX \<le> a" "b \<le> DBL_MAX"
    using assms(1,2) by (auto simp: is_double_def)
  have "a \<le> rnd x" "rnd x \<le> b"
    using rnd_mono [OF assms(3)] rnd_mono [OF assms(4)] rnd_representable ab by simp_all
  then show ?thesis using ab by (auto simp: mk_def Let_def)
qed

lemma is_double_mk [simp]: "is_double (mk x)"
  by (auto simp: mk_def Let_def is_double_def representable_rnd)

lemma is_double_of_int: "\<bar>n\<bar> \<le> 2 ^ 53 \<Longrightarrow> is_double (Fin (of_int n))"
proof -
  assume n: "\<bar>n\<bar> \<le> 2 ^ 53"
  then have "\<bar>of_int n\<bar> \<le> (of_int (2 ^ 53) :: rat)" by (metis of_int_abs of_int_le_iff)
  then show ?thesis using n DBL_MAX_ge_int representable_of_int by (auto simp: is_double_def)
qed

lemma mk_double: "is_double (Fin x) \<Longrightarrow> mk x = Fin x"
  using mk_between [of x x x] rnd_representable by (auto simp: is_double_def)

lemma of_integer_exact: "\<bar>n\<bar> \<le> 2 ^ 53 \<Longrightarrow> of_integer n = Fin (of_int n)"
  unfolding of_integer_def by (rule mk_double [OF is_double_of_int])

end
