(* ===== verification/Driver_Node.thy ===== *)
theory Driver_Node
  imports Modbus_Tcp_Client Fp "HOL-Library.Multiset"
begin

text \<open>
  The 3F driver node, \<^verbatim>\<open>robotiq_3f_driver/src/driver_node.cpp\<close>: its constructor, its command
  callback and its worker thread. The state holds the members of the class and, for the worker, the
  point of \<^verbatim>\<open>run\<close> it has reached; \<open>worker_step\<close> is the code from one such point to the next. The
  callback runs on another thread: its check of \<^verbatim>\<open>ready_for_commands_\<close> and its store of the command
  are two steps, and the steps of the two threads interleave freely. Only these accesses are shared
  between the threads (the worker alone writes \<^verbatim>\<open>ready_for_commands_\<close>), so the finer orders of
  the worker's own assignments are not observable. Logs (\<open>dn_published\<close>, \<open>dn_written\<close>,
  \<open>dn_accepted\<close>, \<open>dn_retries\<close>) and the count \<open>dn_connections\<close> record what happened.
\<close>

section \<open>State\<close>

record driver_parameters =
  gripper_ip :: string
  port :: int
  unit_id :: int
  poll_rate_hz :: double
  connect_timeout_ms :: int
  response_timeout_ms :: int
  reconnect_initial_ms :: int
  reconnect_max_ms :: int
  allow_automatic_release :: bool

text \<open>The points of \<^verbatim>\<open>run\<close>: before the loop or in the loop of an unconfigured driver, at the loop
  head, about to connect, asleep after a failed attempt, at the start of a cycle, with the command
  taken (or none), about to read the status, in the handler of a failed exchange, asleep at the end
  of a cycle, after the loop, and returned.\<close>

datatype worker_pc = At_start | At_unconfigured | At_head | At_connect | At_retry | At_cycle
  | At_write "command option" | At_read | At_failed string | At_sleep | At_exit | At_returned

record driver_node =
  dn_address :: string
  dn_poll_period :: int
  dn_reconnect_initial :: int
  dn_reconnect_max :: int
  dn_allow_automatic_release :: bool
  dn_stop_requested :: bool
  dn_ready_for_commands :: bool
  dn_connection_id :: u64
  dn_last_command_id :: u64
  dn_pending_command :: "command option"
  dn_connected :: bool
  dn_last_diagnostic :: string
  dn_client :: modbus_client
  dn_reconnect_delay :: int
  dn_pc :: worker_pc
  dn_checked :: "command option"   \<comment> \<open>the callback's command between its last check and its store\<close>
  dn_stamps :: "int stream"        \<comment> \<open>the readings of the node's clock\<close>
  dn_connections :: nat
  dn_published :: "status list"
  dn_written :: "(nat \<times> command) list"
  dn_accepted :: "(nat \<times> command) list"
  dn_retries :: "int list"

section \<open>The constructor\<close>

text \<open>The period is \<^verbatim>\<open>1.0 / poll_rate_hz\<close> seconds, converted to whole milliseconds. Converting a
  \<^verbatim>\<open>double\<close> that does not fit is undefined, the value \<open>None\<close>.\<close>

definition poll_period_of :: "double \<Rightarrow> int option" where
  "poll_period_of rate = trunc_int64 (dmul (ddiv (Fin 1) rate) (Fin 1000))"

definition Robotiq3FDriverNode ::
  "driver_parameters \<Rightarrow> modbus_client \<Rightarrow> int stream \<Rightarrow> (cpp_exception + driver_node) option" where
  "Robotiq3FDriverNode p os stamps =
     (if port p < 1 \<or> port p > 65535 then
        Some (Inl (Invalid_argument ''port must be in the range 1..65535''))
      else if unit_id p < 0 \<or> unit_id p > 255 then
        Some (Inl (Invalid_argument ''unit_id must be in the range 0..255''))
      else if dle (poll_rate_hz p) (Fin 0) then
        Some (Inl (Invalid_argument ''poll_rate_hz must be positive''))
      else if connect_timeout_ms p \<le> 0 \<or> response_timeout_ms p \<le> 0 \<or>
              reconnect_initial_ms p \<le> 0 \<or> reconnect_max_ms p < reconnect_initial_ms p then
        Some (Inl (Invalid_argument ''timeout and reconnect parameters are invalid''))
      else
        (case poll_period_of (poll_rate_hz p) of
           None \<Rightarrow> None
         | Some period \<Rightarrow> Some (Inr
             \<lparr>dn_address = gripper_ip p, dn_poll_period = period,
              dn_reconnect_initial = reconnect_initial_ms p, dn_reconnect_max = reconnect_max_ms p,
              dn_allow_automatic_release = allow_automatic_release p,
              dn_stop_requested = False, dn_ready_for_commands = False, dn_connection_id = 0,
              dn_last_command_id = 0, dn_pending_command = None, dn_connected = False,
              dn_last_diagnostic = ''not connected'',
              dn_client = ModbusTcpClient (gripper_ip p) (of_int (port p)) (of_int (unit_id p))
                (connect_timeout_ms p) (response_timeout_ms p) os,
              dn_reconnect_delay = reconnect_initial_ms p, dn_pc = At_start, dn_checked = None,
              dn_stamps = stamps, dn_connections = 0, dn_published = [], dn_written = [],
              dn_accepted = [], dn_retries = []\<rparr>)))"

section \<open>The command callback\<close>

text \<open>\<^verbatim>\<open>receive_command\<close> up to and including its check of \<^verbatim>\<open>ready_for_commands_\<close>, and its store
  under the mutex.\<close>

definition receive_check :: "command \<Rightarrow> driver_node \<Rightarrow> driver_node" where
  "receive_check command n =
     (if c_mode command > MODE_SCISSOR then n
      else if c_command_id command = 0 then n
      else if c_automatic_release command \<and> \<not> dn_allow_automatic_release n then n
      else if \<not> dn_ready_for_commands n then n
      else n\<lparr>dn_checked := Some command, dn_accepted := dn_accepted n @ [(dn_connections n, command)]\<rparr>)"

definition receive_store :: "driver_node \<Rightarrow> driver_node" where
  "receive_store n =
     (case dn_checked n of
        None \<Rightarrow> n
      | Some command \<Rightarrow> n\<lparr>dn_pending_command := Some command, dn_checked := None\<rparr>)"

definition receive_command :: "command \<Rightarrow> driver_node \<Rightarrow> driver_node" where
  "receive_command command n = receive_store (receive_check command n)"

section \<open>The worker\<close>

definition publish_status :: "status \<Rightarrow> bool \<Rightarrow> string \<Rightarrow> driver_node \<Rightarrow> driver_node" where
  "publish_status status is_connected diagnostic n =
     n\<lparr>dn_published := dn_published n @
         [status\<lparr>s_stamp := shd (dn_stamps n), s_connected := is_connected,
                 s_connection_id := dn_connection_id n, s_last_command_id := dn_last_command_id n,
                 s_diagnostic := diagnostic\<rparr>],
       dn_stamps := stl (dn_stamps n),
       dn_connected := is_connected,
       dn_last_diagnostic := diagnostic\<rparr>"

definition mark_disconnected :: "string \<Rightarrow> driver_node \<Rightarrow> driver_node" where
  "mark_disconnected reason n =
     publish_status Status False reason
       (n\<lparr>dn_ready_for_commands := False, dn_last_command_id := 0, dn_pending_command := None\<rparr>)"

text \<open>Connecting, and the handler of a failed attempt.\<close>

definition worker_connect :: "driver_node \<Rightarrow> driver_node option" where
  "worker_connect n =
     (case connect (dn_client n) of
        None \<Rightarrow> None
      | Some (Inr _, client) \<Rightarrow>
          Some (n\<lparr>dn_client := client, dn_connection_id := dn_connection_id n + 1,
                  dn_connections := dn_connections n + 1, dn_ready_for_commands := False,
                  dn_last_command_id := 0, dn_reconnect_delay := dn_reconnect_initial n,
                  dn_pc := At_cycle\<rparr>)
      | Some (Inl error, client) \<Rightarrow>
          Some ((mark_disconnected (what error) (n\<lparr>dn_client := client\<rparr>))\<lparr>dn_pc := At_retry\<rparr>))"

text \<open>\<^verbatim>\<open>sleep_interruptibly(reconnect_delay)\<close>, and the doubling of the delay.\<close>

definition worker_retry :: "driver_node \<Rightarrow> driver_node" where
  "worker_retry n =
     (let n1 = n\<lparr>dn_retries := dn_retries n @ [dn_reconnect_delay n]\<rparr> in
      if dn_stop_requested n1 then n1\<lparr>dn_pc := At_exit\<rparr>
      else n1\<lparr>dn_reconnect_delay := min (dn_reconnect_delay n1 * 2) (dn_reconnect_max n1),
              dn_pc := At_head\<rparr>)"

text \<open>The exchange of one cycle: take the pending command, write it, read and publish the status.\<close>

definition worker_take :: "driver_node \<Rightarrow> driver_node" where
  "worker_take n =
     (if dn_ready_for_commands n then
        n\<lparr>dn_pending_command := None, dn_pc := At_write (dn_pending_command n)\<rparr>
      else n\<lparr>dn_pc := At_write None\<rparr>)"

definition worker_write :: "command option \<Rightarrow> driver_node \<Rightarrow> driver_node option" where
  "worker_write command n =
     (case command of
        None \<Rightarrow> Some (n\<lparr>dn_pc := At_read\<rparr>)
      | Some c \<Rightarrow>
          (case pack_command c of
             Inl error \<Rightarrow> Some (n\<lparr>dn_pc := At_failed (what error)\<rparr>)
           | Inr img \<Rightarrow>
               (case write_command img (dn_client n) of
                  None \<Rightarrow> None
                | Some (Inl error, client) \<Rightarrow>
                    Some (n\<lparr>dn_client := client, dn_pc := At_failed (what error)\<rparr>)
                | Some (Inr _, client) \<Rightarrow>
                    Some (n\<lparr>dn_client := client, dn_last_command_id := c_command_id c,
                            dn_written := dn_written n @ [(dn_connections n, c)],
                            dn_pc := At_read\<rparr>))))"

definition worker_read :: "driver_node \<Rightarrow> driver_node option" where
  "worker_read n =
     (case read_status (dn_client n) of
        None \<Rightarrow> None
      | Some (Inl error, client) \<Rightarrow> Some (n\<lparr>dn_client := client, dn_pc := At_failed (what error)\<rparr>)
      | Some (Inr img, client) \<Rightarrow>
          Some ((publish_status (unpack_status img) True ''connected'' (n\<lparr>dn_client := client\<rparr>))
                  \<lparr>dn_ready_for_commands := True, dn_pc := At_sleep\<rparr>))"

definition worker_failed :: "string \<Rightarrow> driver_node \<Rightarrow> driver_node" where
  "worker_failed error n =
     (mark_disconnected error (n\<lparr>dn_client := close (dn_client n)\<rparr>))\<lparr>dn_pc := At_head\<rparr>"

text \<open>The end of a cycle: without time left there is no sleep, and the loop head tests
  \<^verbatim>\<open>stop_requested_\<close>; after a sleep its predicate does.\<close>

definition worker_sleep :: "driver_node \<Rightarrow> driver_node" where
  "worker_sleep n = n\<lparr>dn_pc := (if dn_stop_requested n then At_exit else At_head)\<rparr>"

text \<open>From each point of \<^verbatim>\<open>run\<close> to the next; \<open>None\<close> is a call that does not return.\<close>

definition worker_step :: "driver_node \<Rightarrow> driver_node option" where
  "worker_step n =
     (case dn_pc n of
        At_start \<Rightarrow>
          Some (if dn_address n = '''' then
                  (mark_disconnected ''gripper_ip is not configured'' n)\<lparr>dn_pc := At_unconfigured\<rparr>
                else n\<lparr>dn_reconnect_delay := dn_reconnect_initial n, dn_pc := At_head\<rparr>)
      | At_unconfigured \<Rightarrow>
          Some (if dn_stop_requested n then n\<lparr>dn_pc := At_returned\<rparr>
                else mark_disconnected ''gripper_ip is not configured'' n)
      | At_head \<Rightarrow>
          Some (n\<lparr>dn_pc := (if dn_stop_requested n then At_exit
                            else if \<not> is_open (dn_client n) then At_connect else At_cycle)\<rparr>)
      | At_connect \<Rightarrow> worker_connect n
      | At_retry \<Rightarrow> Some (worker_retry n)
      | At_cycle \<Rightarrow> Some (worker_take n)
      | At_write command \<Rightarrow> worker_write command n
      | At_read \<Rightarrow> worker_read n
      | At_failed error \<Rightarrow> Some (worker_failed error n)
      | At_sleep \<Rightarrow> Some (worker_sleep n)
      | At_exit \<Rightarrow>
          Some (n\<lparr>dn_client := close (dn_client n), dn_ready_for_commands := False, dn_pc := At_returned\<rparr>)
      | At_returned \<Rightarrow> Some n)"

text \<open>What the diagnostic updater shows.\<close>

datatype diagnostic_level = DIAG_OK | DIAG_WARN | DIAG_ERROR

text \<open>The levels are ordered by their values in \<^verbatim>\<open>diagnostic_msgs\<close>.\<close>

primrec severity :: "diagnostic_level \<Rightarrow> nat" where
  "severity DIAG_OK = 0"
| "severity DIAG_WARN = 1"
| "severity DIAG_ERROR = 2"

instantiation diagnostic_level :: linorder
begin

definition less_eq_diagnostic_level :: "diagnostic_level \<Rightarrow> diagnostic_level \<Rightarrow> bool" where
  "a \<le> b \<longleftrightarrow> severity a \<le> severity b"

definition less_diagnostic_level :: "diagnostic_level \<Rightarrow> diagnostic_level \<Rightarrow> bool" where
  "a < b \<longleftrightarrow> severity a < severity b"

instance
proof
  fix a b :: diagnostic_level
  assume "a \<le> b" "b \<le> a"
  then show "a = b" by (cases a; cases b) (simp_all add: less_eq_diagnostic_level_def)
qed (auto simp: less_eq_diagnostic_level_def less_diagnostic_level_def)

end

definition diagnostic_values :: "driver_node \<Rightarrow> (string \<times> string) list" where
  "diagnostic_values n =
     [(''gripper_ip'', dn_address n),
      (''port'', dec (unat (mc_port (dn_client n)))),
      (''unit_id'', dec (unat (mc_unit_id (dn_client n)))),
      (''automatic_release_allowed'', if dn_allow_automatic_release n then ''True'' else ''False''),
      (''connection_id'', dec (unat (dn_connection_id n)))]"

definition diagnose :: "driver_node \<Rightarrow> diagnostic_level \<times> string \<times> (string \<times> string) list" where
  "diagnose n =
     (if dn_address n = '''' then (DIAG_ERROR, ''gripper_ip is unset'', diagnostic_values n)
      else if dn_connected n then (DIAG_OK, ''connected and polling status'', diagnostic_values n)
      else (DIAG_WARN, dn_last_diagnostic n, diagnostic_values n))"

section \<open>Interleaving\<close>

text \<open>The executor runs one callback at a time: a new one starts after the store of the last.\<close>

datatype event = Worker | Check command | Store | Stop

fun handle :: "event \<Rightarrow> driver_node \<Rightarrow> driver_node option" where
  "handle Worker n = worker_step n"
| "handle (Check command) n = (if dn_checked n = None then Some (receive_check command n) else None)"
| "handle Store n = Some (receive_store n)"
| "handle Stop n = Some (n\<lparr>dn_stop_requested := True\<rparr>)"

inductive reachable :: "driver_node \<Rightarrow> driver_node \<Rightarrow> bool" for n0 where
  start: "reachable n0 n0"
| step: "reachable n0 n \<Longrightarrow> handle e n = Some n' \<Longrightarrow> reachable n0 n'"

text \<open>The runs in which a callback is not interrupted between its check and its store.\<close>

inductive reachable_atomic :: "driver_node \<Rightarrow> driver_node \<Rightarrow> bool" for n0 where
  start: "reachable_atomic n0 n0"
| work: "reachable_atomic n0 n \<Longrightarrow> worker_step n = Some n' \<Longrightarrow> reachable_atomic n0 n'"
| receive: "reachable_atomic n0 n \<Longrightarrow> reachable_atomic n0 (receive_command command n)"
| stop: "reachable_atomic n0 n \<Longrightarrow> reachable_atomic n0 (n\<lparr>dn_stop_requested := True\<rparr>)"

section \<open>What a constructed node satisfies\<close>

inductive_cases reachable_stepE: "reachable n0 n"

lemma constructed:
  assumes "Robotiq3FDriverNode p os stamps = Some (Inr n0)"
  shows "dn_pc n0 = At_start" "0 < dn_reconnect_initial n0" "dn_reconnect_initial n0 \<le> dn_reconnect_max n0"
    "dn_reconnect_delay n0 = dn_reconnect_initial n0" "\<not> dn_ready_for_commands n0"
    "dn_pending_command n0 = None" "dn_checked n0 = None" "dn_written n0 = []" "dn_accepted n0 = []"
    "dn_published n0 = []" "dn_retries n0 = []" "dn_connections n0 = 0" "dn_connection_id n0 = 0"
    "dn_last_command_id n0 = 0" "\<not> is_open (dn_client n0)" "\<not> dn_connected n0"
  using assms by (auto simp: Robotiq3FDriverNode_def ModbusTcpClient_def is_open_def
      split: if_splits option.splits)

text \<open>A run keeps every property that the initial state has and every event keeps.\<close>

lemma reachable_invariant:
  assumes "reachable n0 n" "I n0" "\<And>e n n'. I n \<Longrightarrow> handle e n = Some n' \<Longrightarrow> I n'"
  shows "I n"
  using assms(1) by (induction rule: reachable.induct) (use assms(2,3) in auto)

lemmas node_defs = publish_status_def mark_disconnected_def worker_connect_def worker_retry_def
  worker_take_def worker_write_def worker_read_def worker_failed_def worker_sleep_def Let_def
lemmas node_splits = if_splits option.splits sum.splits prod.splits

lemma node_pc_same: "dn_pc n = pc \<Longrightarrow> n\<lparr>dn_pc := pc\<rparr> = n"
  by (cases n) simp

lemma worker_step_cases:
  assumes "worker_step n = Some n'"
  obtains (mark) r where "n' = (mark_disconnected r n)\<lparr>dn_pc := At_unconfigured\<rparr>"
      "dn_pc n = At_start \<or> dn_pc n = At_unconfigured"
  | (move) pc where "n' = n\<lparr>dn_pc := pc\<rparr>" "pc = At_head \<or> pc = At_exit \<or> pc = At_returned \<or>
        pc = At_connect \<and> \<not> is_open (dn_client n) \<or> pc = At_cycle \<and> is_open (dn_client n) \<or>
        pc = At_read \<and> dn_pc n = At_write None"
      "dn_pc n \<in> {At_unconfigured, At_head, At_write None, At_sleep, At_returned}"
      "dn_pc n = At_unconfigured \<or> dn_pc n = At_returned \<longleftrightarrow> pc = At_returned"
      "dn_stop_requested n \<Longrightarrow> pc = At_head \<Longrightarrow> False"
  | (begin_run) "n' = n\<lparr>dn_reconnect_delay := dn_reconnect_initial n, dn_pc := At_head\<rparr>" "dn_pc n = At_start"
  | (connect) "worker_connect n = Some n'" "dn_pc n = At_connect"
  | (retry) "n' = worker_retry n" "dn_pc n = At_retry"
  | (tk) "n' = worker_take n" "dn_pc n = At_cycle"
  | (wrt) c where "worker_write (Some c) n = Some n'" "dn_pc n = At_write (Some c)"
  | (rd) "worker_read n = Some n'" "dn_pc n = At_read"
  | (failed) e where "n' = worker_failed e n" "dn_pc n = At_failed e"
  | (leave) "n' = n\<lparr>dn_client := close (dn_client n), dn_ready_for_commands := False, dn_pc := At_returned\<rparr>"
      "dn_pc n = At_exit"
proof (cases "dn_pc n")
  case At_unconfigured
  show thesis
  proof (cases "dn_stop_requested n")
    case True
    then show thesis using assms At_unconfigured move [of At_returned] by (simp add: worker_step_def)
  next
    case False
    let ?r = "''gripper_ip is not configured''"
    have "n' = mark_disconnected ?r n" using assms At_unconfigured False by (simp add: worker_step_def)
    moreover have "dn_pc (mark_disconnected ?r n) = At_unconfigured"
      using At_unconfigured by (simp add: mark_disconnected_def publish_status_def)
    ultimately show thesis using mark [of ?r] At_unconfigured by (metis node_pc_same)
  qed
next
  case (At_write c)
  then show thesis using assms wrt move [of At_read]
    by (cases c) (auto simp: worker_step_def worker_write_def)
next
  case At_returned
  then have "n' = n\<lparr>dn_pc := At_returned\<rparr>"
    using assms node_pc_same [of n At_returned] by (simp add: worker_step_def)
  then show thesis using At_returned move [of At_returned] by simp
next
  case At_sleep
  then show thesis
    using assms move [of At_exit] move [of At_head] by (cases "dn_stop_requested n") (simp_all add: worker_step_def worker_sleep_def)
next
  case At_head
  define pc where "pc = (if dn_stop_requested n then At_exit
     else if \<not> is_open (dn_client n) then At_connect else At_cycle)"
  have n': "n' = n\<lparr>dn_pc := pc\<rparr>" using assms At_head by (simp add: worker_step_def pc_def)
  show thesis
    by (rule move [OF n']) (simp_all add: pc_def At_head)
next
  case At_start
  then show thesis using assms mark begin_run by (auto simp: worker_step_def split: if_splits)
next
  case At_connect
  then show thesis using assms connect by (simp add: worker_step_def)
next
  case At_retry
  then show thesis using assms retry by (simp add: worker_step_def)
next
  case At_cycle
  then show thesis using assms tk by (simp add: worker_step_def)
next
  case At_read
  then show thesis using assms rd by (simp add: worker_step_def)
next
  case (At_failed e)
  then show thesis using assms failed [of e] by (simp add: worker_step_def)
next
  case At_exit
  then show thesis using assms leave by (simp add: worker_step_def)
qed

lemma receive_store_idem: "dn_checked n = None \<Longrightarrow> receive_store n = n"
  by (simp add: receive_store_def)

lemma worker_keeps_checked: "worker_step n = Some n' \<Longrightarrow> dn_checked n' = dn_checked n"
  by (erule worker_step_cases) (auto simp: node_defs split: node_splits)

lemma receive_command_checked: "dn_checked n = None \<Longrightarrow> dn_checked (receive_command c n) = None"
  by (auto simp: receive_command_def receive_check_def receive_store_def)

lemma reachable_atomic_reachable:
  assumes "reachable_atomic n0 n" "dn_checked n0 = None"
  shows "reachable n0 n \<and> dn_checked n = None"
  using assms(1)
proof (induction rule: reachable_atomic.induct)
  case start
  then show ?case using assms(2) by (simp add: reachable.start)
next
  case (work n n')
  then show ?case using reachable.step [of n0 n Worker n'] worker_keeps_checked by simp
next
  case (receive n c)
  then have "reachable n0 (receive_check c n)"
    using reachable.step [of n0 n "Check c" "receive_check c n"] by simp
  then have "reachable n0 (receive_command c n)"
    using reachable.step [of n0 _ Store] by (simp add: receive_command_def)
  with receive show ?case by (simp add: receive_command_checked)
next
  case (stop n)
  then show ?case using reachable.step [of n0 n Stop] by simp
qed

section \<open>Only validated commands are written\<close>

definition valid_command :: "driver_node \<Rightarrow> command \<Rightarrow> bool" where
  "valid_command n c \<longleftrightarrow> c_mode c \<le> MODE_SCISSOR \<and> c_command_id c \<noteq> 0 \<and>
     (c_automatic_release c \<longrightarrow> dn_allow_automatic_release n)"

definition command_inv :: "driver_node \<Rightarrow> bool" where
  "command_inv n \<longleftrightarrow>
     (\<forall>c. dn_checked n = Some c \<longrightarrow> valid_command n c) \<and>
     (\<forall>c. dn_pending_command n = Some c \<longrightarrow> valid_command n c) \<and>
     (\<forall>c. dn_pc n = At_write (Some c) \<longrightarrow> valid_command n c) \<and>
     (\<forall>(k, c) \<in> set (dn_written n). valid_command n c)"

lemma worker_step_command_inv: "command_inv n \<Longrightarrow> worker_step n = Some n' \<Longrightarrow> command_inv n'"
  by (erule worker_step_cases)
    (auto simp: node_defs command_inv_def valid_command_def split: node_splits)

lemma handle_command_inv: "command_inv n \<Longrightarrow> handle e n = Some n' \<Longrightarrow> command_inv n'"
proof (cases e)
  case Worker
  then show "command_inv n \<Longrightarrow> handle e n = Some n' \<Longrightarrow> command_inv n'"
    using worker_step_command_inv by simp
qed (auto simp: receive_check_def receive_store_def command_inv_def valid_command_def
       split: if_splits option.splits)

lemma pack_valid_command: "valid_command n c \<Longrightarrow> \<exists>img. pack_command c = Inr img"
  by (auto simp: valid_command_def pack_command_def MODE_SCISSOR_def not_less)

text \<open>Runs compose, and along a run the log of written commands only grows.\<close>

lemma reachable_trans: "reachable n n' \<Longrightarrow> reachable n0 n \<Longrightarrow> reachable n0 n'"
  by (induction rule: reachable.induct) (auto intro: reachable.step)

lemma handle_written:
  assumes "handle e n = Some n'" shows "\<exists>ws. dn_written n' = dn_written n @ ws"
proof (cases "e = Worker")
  case True
  then have "worker_step n = Some n'" using assms by simp
  then show ?thesis by (rule worker_step_cases) (auto simp: node_defs split: node_splits)
next
  case False
  then show ?thesis using assms
    by (cases e) (auto simp: receive_check_def receive_store_def split: if_splits option.splits)
qed

lemma reachable_written: "reachable n0 n \<Longrightarrow> \<exists>ws. dn_written n = dn_written n0 @ ws"
  by (induction rule: reachable.induct) (auto dest: handle_written)

text \<open>C8. The driver writes validated commands only: whatever the interleaving, every command written
  to the gripper has a mode in 0..3, a non-zero identifier and automatic release only where it is
  allowed; and packing the command that the worker holds never throws.\<close>

theorem written_commands_are_valid:
  assumes "Robotiq3FDriverNode p os stamps = Some (Inr n0)" "reachable n0 n"
  shows "(\<forall>(k, c) \<in> set (dn_written n). c_mode c \<le> MODE_SCISSOR \<and> c_command_id c \<noteq> 0 \<and>
      (c_automatic_release c \<longrightarrow> dn_allow_automatic_release n)) \<and>
    (\<forall>c. dn_pc n = At_write (Some c) \<longrightarrow> (\<exists>img. pack_command c = Inr img))"
proof -
  have "command_inv n0" using constructed [OF assms(1)] by (simp add: command_inv_def)
  with assms(2) have "command_inv n" by (rule reachable_invariant) (rule handle_command_inv)
  then show ?thesis
    using pack_valid_command [of n] unfolding command_inv_def valid_command_def by blast
qed

section \<open>The connection and what is published on it\<close>

text \<open>\<open>last_on k ws\<close>: the identifier of the last command written on connection \<open>k\<close>, or 0.\<close>

definition last_on :: "nat \<Rightarrow> (nat \<times> command) list \<Rightarrow> u64" where
  "last_on k ws = (case filter (\<lambda>(j, _). j = k) ws of [] \<Rightarrow> 0 | vs \<Rightarrow> c_command_id (snd (last vs)))"

lemma last_on_append [simp]: "last_on k (ws @ [(k, c)]) = c_command_id c"
proof -
  have "filter (\<lambda>(j, _). j = k) (ws @ [(k, c)]) = filter (\<lambda>(j, _). j = k) ws @ [(k, c)]" by simp
  then show ?thesis unfolding last_on_def by (cases "filter (\<lambda>(j, _). j = k) ws") simp_all
qed

definition written_upto :: "nat \<Rightarrow> (nat \<times> command) list \<Rightarrow> bool" where
  "written_upto k ws \<longleftrightarrow> (\<forall>w \<in> set ws. fst w \<le> k)"

lemma written_upto_simps [simp]: "written_upto k []" "written_upto k (ws @ [(j, c)]) = (written_upto k ws \<and> j \<le> k)"
  by (auto simp: written_upto_def)

lemma written_upto_Suc: "written_upto k ws \<Longrightarrow> written_upto (Suc k) ws"
  by (auto simp: written_upto_def)

lemma last_on_new: "written_upto k ws \<Longrightarrow> last_on (Suc k) ws = 0"
proof -
  assume "written_upto k ws"
  then have "filter (\<lambda>(j, _). j = Suc k) ws = []" by (auto simp: written_upto_def filter_empty_conv)
  then show ?thesis by (simp add: last_on_def)
qed

text \<open>Whether the client is open is known at some points of \<^verbatim>\<open>run\<close>.\<close>

fun needs_open :: "worker_pc \<Rightarrow> bool" where
  "needs_open At_cycle = True" | "needs_open At_read = True" | "needs_open At_sleep = True"
| "needs_open (At_write c) = True" | "needs_open pc = False"

fun needs_closed :: "worker_pc \<Rightarrow> bool" where
  "needs_closed At_start = True" | "needs_closed At_unconfigured = True" | "needs_closed At_connect = True"
| "needs_closed At_retry = True" | "needs_closed pc = False"

definition link_inv :: "driver_node \<Rightarrow> bool" where
  "link_inv n \<longleftrightarrow> (needs_open (dn_pc n) \<longrightarrow> is_open (dn_client n)) \<and>
     (needs_closed (dn_pc n) \<longrightarrow> \<not> is_open (dn_client n))"

lemma worker_step_link_inv:
  assumes I: "link_inv n" and w: "worker_step n = Some n'"
  shows "link_inv n'"
  using w
proof (cases rule: worker_step_cases)
  case connect
  then show ?thesis using modbus.connect_iff by (fastforce simp: link_inv_def node_defs split: node_splits)
next
  case (wrt c)
  then show ?thesis using I modbus.write_open
    by (auto simp: link_inv_def node_defs split: node_splits)
next
  case rd
  then show ?thesis using I modbus.read_open
    by (auto simp: link_inv_def node_defs split: node_splits)
qed (use I in \<open>auto simp: link_inv_def node_defs\<close>)

text \<open>The identifier reported as last written.\<close>

definition last_id_inv :: "driver_node \<Rightarrow> bool" where
  "last_id_inv n \<longleftrightarrow> dn_connection_id n = of_nat (dn_connections n) \<and>
     written_upto (dn_connections n) (dn_written n) \<and>
     (dn_pc n \<noteq> At_returned \<longrightarrow> dn_last_command_id n =
        (if is_open (dn_client n) then last_on (dn_connections n) (dn_written n) else 0))"

lemma worker_step_last_id_inv:
  assumes I: "last_id_inv n" "link_inv n" and w: "worker_step n = Some n'"
  shows "last_id_inv n'"
  using w
proof (cases rule: worker_step_cases)
  case (mark r)
  then show ?thesis using I by (auto simp: last_id_inv_def link_inv_def node_defs)
next
  case (move pc)
  then show ?thesis using I by (auto simp: last_id_inv_def)
next
  case connect
  obtain u c where c: "Modbus_Tcp_Client.connect (dn_client n) = Some (u, c)"
    using connect by (auto simp: worker_connect_def split: option.splits)
  show ?thesis using connect I modbus.connect_iff [OF c]
    by (cases u) (auto simp: c last_id_inv_def node_defs last_on_new written_upto_Suc)
next
  case (wrt c)
  then show ?thesis using I modbus.write_open
    by (auto simp: last_id_inv_def link_inv_def node_defs split: node_splits)
next
  case rd
  then show ?thesis using I modbus.read_open
    by (auto simp: last_id_inv_def node_defs split: node_splits)
qed (use I in \<open>auto simp: last_id_inv_def node_defs\<close>)

text \<open>Commands are accepted only while the link is open and a status of this connection is out.\<close>

definition ready_inv :: "driver_node \<Rightarrow> bool" where
  "ready_inv n \<longleftrightarrow> (dn_ready_for_commands n \<longrightarrow> is_open (dn_client n) \<and> dn_published n \<noteq> [] \<and>
     s_connected (last (dn_published n)) \<and> s_connection_id (last (dn_published n)) = dn_connection_id n)"

lemma worker_step_ready_inv:
  assumes I: "ready_inv n" "link_inv n" and w: "worker_step n = Some n'"
  shows "ready_inv n'"
  using w
proof (cases rule: worker_step_cases)
  case connect
  then show ?thesis by (auto simp: ready_inv_def node_defs split: node_splits)
next
  case (wrt c)
  then show ?thesis using I modbus.write_open
    by (auto simp: ready_inv_def link_inv_def node_defs split: node_splits)
next
  case rd
  then show ?thesis using I modbus.read_open
    by (auto simp: ready_inv_def link_inv_def node_defs split: node_splits)
qed (use I in \<open>auto simp: ready_inv_def node_defs\<close>)

text \<open>Every published status, against the commands written by then.\<close>

definition status_inv :: "driver_node \<Rightarrow> bool" where
  "status_inv n \<longleftrightarrow> (\<forall>s \<in> set (dn_published n).
     if s_connected s
     then \<exists>k j. k \<le> dn_connections n \<and> j \<le> length (dn_written n) \<and> s_connection_id s = of_nat k \<and>
            s_last_command_id s = last_on k (take j (dn_written n))
     else s_last_command_id s = 0)"

lemma status_inv_append:
  assumes "status_inv n" "dn_published n' = dn_published n @ ss"
    "\<exists>ws. dn_written n' = dn_written n @ ws" "dn_connections n \<le> dn_connections n'"
    and "\<And>s. s \<in> set ss \<Longrightarrow> if s_connected s
       then s_connection_id s = of_nat (dn_connections n') \<and> s_last_command_id s = last_on (dn_connections n') (dn_written n')
       else s_last_command_id s = 0"
  shows "status_inv n'"
  unfolding status_inv_def
proof
  fix s assume s: "s \<in> set (dn_published n')"
  show "if s_connected s
     then \<exists>k j. k \<le> dn_connections n' \<and> j \<le> length (dn_written n') \<and> s_connection_id s = of_nat k \<and>
            s_last_command_id s = last_on k (take j (dn_written n'))
     else s_last_command_id s = 0"
  proof (cases "s \<in> set ss")
    case True
    then show ?thesis using assms(5) [OF True]
      by (cases "s_connected s")
        (simp_all, rule exI [of _ "dn_connections n'"], rule conjI, simp, rule exI [of _ "length (dn_written n')"], simp)
  next
    case False
    then have old: "s \<in> set (dn_published n)" using s assms(2) by auto
    obtain ws where ws: "dn_written n' = dn_written n @ ws" using assms(3) by blast
    show ?thesis
    proof (cases "s_connected s")
      case True
      then obtain k j where kj: "k \<le> dn_connections n" "j \<le> length (dn_written n)" "s_connection_id s = of_nat k"
        "s_last_command_id s = last_on k (take j (dn_written n))"
        using assms(1) old unfolding status_inv_def by (meson)
      then have "k \<le> dn_connections n' \<and> j \<le> length (dn_written n') \<and> s_connection_id s = of_nat k \<and>
          s_last_command_id s = last_on k (take j (dn_written n'))"
        using assms(4) by (simp add: ws)
      then show ?thesis using True by (simp only: if_True) blast
    next
      case False
      then show ?thesis using assms(1) old by (auto simp: status_inv_def)
    qed
  qed
qed

lemma worker_step_status_inv:
  assumes I: "status_inv n" "last_id_inv n" "link_inv n" and w: "worker_step n = Some n'"
  shows "status_inv n'"
  using w
proof (cases rule: worker_step_cases)
  case connect
  then show ?thesis
    by (intro status_inv_append [OF I(1), of n' "drop (length (dn_published n)) (dn_published n')"])
      (auto simp: node_defs split: node_splits)
next
  case (wrt c)
  then show ?thesis
    by (intro status_inv_append [OF I(1), of n' "[]"]) (auto simp: node_defs split: node_splits)
next
  case rd
  then show ?thesis using I(2,3)
    by (intro status_inv_append [OF I(1), of n' "drop (length (dn_published n)) (dn_published n')"])
      (auto simp: node_defs last_id_inv_def link_inv_def split: node_splits)
qed (rule status_inv_append [OF I(1), of n' "drop (length (dn_published n)) (dn_published n')"];
  use I in \<open>auto simp: node_defs\<close>)+

text \<open>The callback and a stop request touch none of this.\<close>

lemma handle_node_inv:
  assumes "link_inv n \<and> last_id_inv n \<and> ready_inv n \<and> status_inv n" and "handle e n = Some n'"
  shows "link_inv n' \<and> last_id_inv n' \<and> ready_inv n' \<and> status_inv n'"
proof (cases "e = Worker")
  case True
  then show ?thesis using assms worker_step_link_inv worker_step_last_id_inv worker_step_ready_inv
      worker_step_status_inv by auto
next
  case False
  then have same: "dn_pc n' = dn_pc n" "dn_client n' = dn_client n" "dn_connections n' = dn_connections n"
    "dn_connection_id n' = dn_connection_id n" "dn_last_command_id n' = dn_last_command_id n"
    "dn_written n' = dn_written n" "dn_published n' = dn_published n"
    "dn_ready_for_commands n' = dn_ready_for_commands n"
    using assms(2) by (cases e; auto simp: receive_check_def receive_store_def split: if_splits option.splits)+
  show ?thesis using assms(1)
    unfolding link_inv_def last_id_inv_def ready_inv_def status_inv_def same .
qed

lemma reachable_node_inv:
  assumes "Robotiq3FDriverNode p os stamps = Some (Inr n0)" "reachable n0 n"
  shows "link_inv n \<and> last_id_inv n \<and> ready_inv n \<and> status_inv n"
proof -
  have "link_inv n0 \<and> last_id_inv n0 \<and> ready_inv n0 \<and> status_inv n0"
    using constructed [OF assms(1)] by (simp add: link_inv_def last_id_inv_def ready_inv_def status_inv_def)
  with assms(2) show ?thesis by (rule reachable_invariant) (rule handle_node_inv)
qed

text \<open>What a published status says about commands is true: a connected status carries the
  number of a connection and the identifier of the last command that had been written on that
  connection (0 if none), and a disconnected status carries the identifier 0. While commands are
  accepted, the link is open and the last published status is a connected one of this connection.\<close>

theorem published_status_is_truthful:
  assumes "Robotiq3FDriverNode p os stamps = Some (Inr n0)" "reachable n0 n"
  shows "(\<forall>s \<in> set (dn_published n).
      if s_connected s
      then \<exists>k j. k \<le> dn_connections n \<and> j \<le> length (dn_written n) \<and> s_connection_id s = of_nat k \<and>
             s_last_command_id s = last_on k (take j (dn_written n))
      else s_last_command_id s = 0) \<and>
    (dn_ready_for_commands n \<longrightarrow> is_open (dn_client n) \<and> dn_published n \<noteq> [] \<and>
      s_connected (last (dn_published n)) \<and> s_connection_id (last (dn_published n)) = dn_connection_id n)"
  using reachable_node_inv [OF assms] unfolding status_inv_def ready_inv_def by blast

section \<open>Diagnosis\<close>

text \<open>What the diagnostic updater shows is what the last status said.\<close>

definition health_inv :: "driver_node \<Rightarrow> bool" where
  "health_inv n \<longleftrightarrow>
     (if dn_published n = [] then \<not> dn_connected n \<and> dn_last_diagnostic n = ''not connected''
      else dn_connected n = s_connected (last (dn_published n)) \<and>
        dn_last_diagnostic n = s_diagnostic (last (dn_published n)))"

lemma handle_health_inv:
  assumes "health_inv n" "handle e n = Some n'" shows "health_inv n'"
proof (cases "e = Worker")
  case True
  then have "worker_step n = Some n'" using assms(2) by simp
  then show ?thesis using assms(1)
    by (cases rule: worker_step_cases) (auto simp: health_inv_def node_defs split: node_splits)
next
  case False
  then show ?thesis using assms
    by (cases e) (auto simp: health_inv_def receive_check_def receive_store_def split: if_splits option.splits)
qed

lemma diagnosis_follows_status:
  assumes "Robotiq3FDriverNode p os stamps = Some (Inr n0)" "reachable n0 n" "dn_address n \<noteq> ''''" "dn_published n \<noteq> []"
  shows "fst (diagnose n) = (if s_connected (last (dn_published n)) then DIAG_OK else DIAG_WARN)"
    "\<not> s_connected (last (dn_published n)) \<Longrightarrow> fst (snd (diagnose n)) = s_diagnostic (last (dn_published n))"
proof -
  have "health_inv n0" using assms(1) constructed(10,16) [OF assms(1)]
    by (auto simp: health_inv_def Robotiq3FDriverNode_def split: if_splits option.splits)
  from reachable_invariant [where I = health_inv, OF assms(2) this handle_health_inv] assms(3,4)
  show "fst (diagnose n) = (if s_connected (last (dn_published n)) then DIAG_OK else DIAG_WARN)"
    "\<not> s_connected (last (dn_published n)) \<Longrightarrow> fst (snd (diagnose n)) = s_diagnostic (last (dn_published n))"
    by (auto simp: health_inv_def diagnose_def)
qed

lemma disconnected_is_reported:
  assumes "Robotiq3FDriverNode p os stamps = Some (Inr n0)" "reachable n0 n" "dn_published n \<noteq> []"
    and "\<not> s_connected (last (dn_published n))"
  shows "DIAG_WARN \<le> fst (diagnose n)"
proof (cases "dn_address n = ''''")
  case True
  then show ?thesis by (simp add: diagnose_def less_eq_diagnostic_level_def)
next
  case False
  then show ?thesis using diagnosis_follows_status(1) [OF assms(1,2) _ assms(3)] assms(4) by simp
qed

section \<open>Reconnecting\<close>

text \<open>\<open>backoff n d\<close>: the delay \<open>d\<close> is the initial one, doubled some number of times and capped.\<close>

definition backoff :: "driver_node \<Rightarrow> int \<Rightarrow> bool" where
  "backoff n d \<longleftrightarrow> (\<exists>j. d = min (dn_reconnect_initial n * 2 ^ j) (dn_reconnect_max n))"

definition delay_inv :: "driver_node \<Rightarrow> bool" where
  "delay_inv n \<longleftrightarrow> 0 < dn_reconnect_initial n \<and> dn_reconnect_initial n \<le> dn_reconnect_max n \<and>
     backoff n (dn_reconnect_delay n) \<and> (\<forall>d \<in> set (dn_retries n). backoff n d)"

lemma backoff_initial: "dn_reconnect_initial n \<le> dn_reconnect_max n \<Longrightarrow> backoff n (dn_reconnect_initial n)"
  by (auto simp: backoff_def intro!: exI [of _ 0])

lemma backoff_double:
  assumes "0 < dn_reconnect_initial n" "dn_reconnect_initial n \<le> dn_reconnect_max n" "backoff n d"
  shows "backoff n (min (d * 2) (dn_reconnect_max n))"
proof -
  obtain j where d: "d = min (dn_reconnect_initial n * 2 ^ j) (dn_reconnect_max n)"
    using assms(3) by (auto simp: backoff_def)
  have "min (d * 2) (dn_reconnect_max n) = min (dn_reconnect_initial n * 2 ^ Suc j) (dn_reconnect_max n)"
    using assms(1,2) by (auto simp: d min_def)
  then show ?thesis unfolding backoff_def by blast
qed

lemma backoff_cong:
  "dn_reconnect_initial n' = dn_reconnect_initial n \<Longrightarrow> dn_reconnect_max n' = dn_reconnect_max n \<Longrightarrow>
   backoff n' d = backoff n d"
  by (simp add: backoff_def)

lemma worker_step_delay_inv:
  assumes I: "delay_inv n" and w: "worker_step n = Some n'"
  shows "delay_inv n'"
proof -
  have same: "dn_reconnect_initial n' = dn_reconnect_initial n" "dn_reconnect_max n' = dn_reconnect_max n"
    using w by (cases rule: worker_step_cases; auto simp: node_defs split: node_splits)+
  note b = backoff_cong [OF same]
  have I': "0 < dn_reconnect_initial n" "dn_reconnect_initial n \<le> dn_reconnect_max n"
    "backoff n (dn_reconnect_delay n)" "\<forall>d \<in> set (dn_retries n). backoff n d"
    using I by (auto simp: delay_inv_def)
  have "backoff n (dn_reconnect_delay n') \<and> (\<forall>d \<in> set (dn_retries n'). backoff n d)"
    using w
  proof (cases rule: worker_step_cases)
    case retry
    then show ?thesis using I' backoff_double [OF I'(1-3)] by (auto simp: node_defs)
  qed (use I' backoff_initial [OF I'(2)] in \<open>auto simp: node_defs split: node_splits\<close>)
  then show ?thesis using I' by (simp add: delay_inv_def b same)
qed

lemma handle_delay_inv: "delay_inv n \<Longrightarrow> handle e n = Some n' \<Longrightarrow> delay_inv n'"
  using worker_step_delay_inv [of n n']
  by (cases e) (auto simp: delay_inv_def backoff_def receive_check_def receive_store_def
      split: if_splits option.splits)

text \<open>Reconnection attempts back off: every delay the worker sleeps after a failed attempt is
  the initial delay doubled some number of times and capped at the maximum, so it lies between the
  two configured delays.\<close>

theorem reconnect_delays_back_off:
  assumes "Robotiq3FDriverNode p os stamps = Some (Inr n0)" "reachable n0 n" "d \<in> set (dn_retries n)"
  shows "(\<exists>j. d = min (dn_reconnect_initial n * 2 ^ j) (dn_reconnect_max n)) \<and>
    dn_reconnect_initial n \<le> d \<and> d \<le> dn_reconnect_max n"
proof -
  have "delay_inv n0" using constructed [OF assms(1)] backoff_initial [of n0] by (simp add: delay_inv_def)
  with assms(2) have I: "delay_inv n" by (rule reachable_invariant) (rule handle_delay_inv)
  then obtain j where d: "d = min (dn_reconnect_initial n * 2 ^ j) (dn_reconnect_max n)"
    using assms(3) by (auto simp: delay_inv_def backoff_def)
  have "dn_reconnect_initial n * 1 \<le> dn_reconnect_initial n * 2 ^ j"
    using I by (intro mult_left_mono) (auto simp: delay_inv_def)
  then show ?thesis using I d by (auto simp: delay_inv_def)
qed

section \<open>Commands are not repeated\<close>

definition opt_mset :: "'a option \<Rightarrow> 'a multiset" where
  "opt_mset x = (case x of None \<Rightarrow> {#} | Some a \<Rightarrow> {#a#})"

lemma opt_mset_simps [simp]: "opt_mset None = {#}" "opt_mset (Some a) = {#a#}"
  by (simp_all add: opt_mset_def)

fun in_write :: "worker_pc \<Rightarrow> command option" where
  "in_write (At_write c) = c" | "in_write _ = None"

text \<open>The commands the node still holds: checked, pending, or taken for the write.\<close>

definition held :: "driver_node \<Rightarrow> command multiset" where
  "held n = opt_mset (dn_checked n) + opt_mset (dn_pending_command n) + opt_mset (in_write (dn_pc n))"

definition once_inv :: "driver_node \<Rightarrow> bool" where
  "once_inv n \<longleftrightarrow> held n + mset (map snd (dn_written n)) \<subseteq># mset (map snd (dn_accepted n))"

lemma once_inv_step:
  assumes "once_inv n" "held n' + mset (map snd (dn_written n')) \<subseteq># held n + mset (map snd (dn_written n))"
    "dn_accepted n' = dn_accepted n"
  shows "once_inv n'"
  using assms(1) unfolding once_inv_def assms(3) by (rule subset_mset.order_trans [OF assms(2)])

text \<open>No step of the worker but the write gains a command; the pending one may be dropped.\<close>

lemma held_mono:
  assumes "dn_checked n' = dn_checked n" "dn_written n' = dn_written n"
    and "opt_mset (dn_pending_command n') + opt_mset (in_write (dn_pc n')) \<subseteq>#
      opt_mset (dn_pending_command n) + opt_mset (in_write (dn_pc n))"
  shows "held n' + mset (map snd (dn_written n')) \<subseteq># held n + mset (map snd (dn_written n))"
  using assms by (simp add: held_def add.assoc subset_mset.add_right_mono)

lemma worker_step_once_inv:
  assumes I: "once_inv n" and w: "worker_step n = Some n'"
  shows "once_inv n'"
proof (rule once_inv_step [OF I])
  show "dn_accepted n' = dn_accepted n"
    using w by (cases rule: worker_step_cases) (auto simp: node_defs split: node_splits)
  show "held n' + mset (map snd (dn_written n')) \<subseteq># held n + mset (map snd (dn_written n))"
    using w
  proof (cases rule: worker_step_cases)
    case (mark r)
    then show ?thesis by (intro held_mono) (auto simp: node_defs)
  next
    case (move pc)
    then show ?thesis by (intro held_mono) auto
  next
    case begin_run
    then show ?thesis by (intro held_mono) auto
  next
    case connect
    then show ?thesis by (intro held_mono) (auto simp: node_defs split: node_splits)
  next
    case retry
    then show ?thesis by (intro held_mono) (auto simp: node_defs)
  next
    case tk
    then show ?thesis by (intro held_mono) (auto simp: node_defs)
  next
    case (wrt c)
    then show ?thesis by (auto simp: held_def node_defs split: node_splits)
  next
    case rd
    then show ?thesis by (intro held_mono) (auto simp: node_defs split: node_splits)
  next
    case (failed e)
    then show ?thesis by (intro held_mono) (auto simp: node_defs)
  next
    case leave
    then show ?thesis by (intro held_mono) auto
  qed
qed

lemma handle_once_inv:
  assumes I: "once_inv n" and h: "handle e n = Some n'"
  shows "once_inv n'"
proof (cases e)
  case Worker
  then show ?thesis using worker_step_once_inv [OF I] h by simp
next
  case (Check c)
  then have "n' = n \<or> held n' = add_mset c (held n) \<and> dn_written n' = dn_written n \<and>
      mset (map snd (dn_accepted n')) = add_mset c (mset (map snd (dn_accepted n)))"
    using h by (auto simp: receive_check_def held_def split: if_splits)
  then show ?thesis using I by (auto simp: once_inv_def)
next
  case Store
  have "held (receive_store n) \<subseteq># held n" by (auto simp: receive_store_def held_def split: option.splits)
  moreover have "dn_written n' = dn_written n" "dn_accepted n' = dn_accepted n"
    using Store h by (auto simp: receive_store_def split: option.splits)
  ultimately show ?thesis using Store h
    by (intro once_inv_step [OF I]) (auto intro: subset_mset.add_right_mono)
next
  case Stop
  then show ?thesis using I h by (auto simp: once_inv_def held_def)
qed

lemma reachable_once_inv:
  assumes "Robotiq3FDriverNode p os stamps = Some (Inr n0)" "reachable n0 n"
  shows "mset (map snd (dn_written n)) \<subseteq># mset (map snd (dn_accepted n))"
proof -
  have "once_inv n0" using constructed [OF assms(1)] by (simp add: once_inv_def held_def)
  with assms(2) have "once_inv n" by (rule reachable_invariant) (rule handle_once_inv)
  then show ?thesis unfolding once_inv_def by (meson mset_subset_eq_add_right subset_mset.order_trans)
qed

lemma written_accepted:
  assumes "Robotiq3FDriverNode p os stamps = Some (Inr n0)" "reachable n0 n" "(k, cmd) \<in> set (dn_written n)"
  shows "cmd \<in> snd ` set (dn_accepted n)"
  using set_mset_mono [OF reachable_once_inv [OF assms(1,2)]] assms(3) by force

text \<open>C7. Whatever the interleaving, a command that was accepted once is written at most once: as
  multisets, the written commands are among the accepted ones.\<close>

theorem commands_written_at_most_once:
  assumes "Robotiq3FDriverNode p os stamps = Some (Inr n0)" "reachable n0 n"
  shows "mset (map snd (dn_written n)) \<subseteq># mset (map snd (dn_accepted n))"
  using assms by (rule reachable_once_inv)

section \<open>Commands and connections\<close>

text \<open>When the callback is not interrupted, a command that the node holds was accepted on the
  current connection.\<close>

definition current_inv :: "driver_node \<Rightarrow> bool" where
  "current_inv n \<longleftrightarrow>
     (\<forall>c. dn_pending_command n = Some c \<longrightarrow> (dn_connections n, c) \<in> set (dn_accepted n)) \<and>
     (dn_pending_command n \<noteq> None \<longrightarrow> dn_ready_for_commands n \<or> dn_pc n = At_returned) \<and>
     (\<forall>c. in_write (dn_pc n) = Some c \<longrightarrow> (dn_connections n, c) \<in> set (dn_accepted n)) \<and>
     set (dn_written n) \<subseteq> set (dn_accepted n)"

lemma worker_step_current_inv:
  assumes I: "current_inv n" and R: "ready_inv n" and L: "link_inv n" and w: "worker_step n = Some n'"
  shows "current_inv n'"
  using w
proof (cases rule: worker_step_cases)
  case (mark r)
  then show ?thesis using I by (auto simp: current_inv_def node_defs)
next
  case (move pc)
  then show ?thesis using I by (auto simp: current_inv_def)
next
  case begin_run
  then show ?thesis using I by (auto simp: current_inv_def)
next
  case connect
  then have "dn_pending_command n = None" using I R L
    by (auto simp: current_inv_def ready_inv_def link_inv_def)
  then show ?thesis using connect I by (auto simp: current_inv_def node_defs split: node_splits)
next
  case retry
  then show ?thesis using I by (auto simp: current_inv_def node_defs)
next
  case tk
  then show ?thesis using I by (auto simp: current_inv_def node_defs)
next
  case (wrt c)
  then show ?thesis using I by (auto simp: current_inv_def node_defs split: node_splits)
next
  case rd
  then show ?thesis using I by (auto simp: current_inv_def node_defs split: node_splits)
next
  case (failed e)
  then show ?thesis using I by (auto simp: current_inv_def node_defs)
next
  case leave
  then show ?thesis using I by (auto simp: current_inv_def)
qed

lemma receive_command_current_inv:
  "current_inv n \<Longrightarrow> dn_checked n = None \<Longrightarrow> current_inv (receive_command c n)"
  by (auto simp: current_inv_def receive_command_def receive_check_def receive_store_def)

text \<open>C6. No command is replayed after a reconnection, provided the callback's check and store are
  not interrupted: every command written on a connection was accepted on that same connection.\<close>

theorem no_replay_across_connections:
  assumes "Robotiq3FDriverNode p os stamps = Some (Inr n0)" "reachable_atomic n0 n"
  shows "set (dn_written n) \<subseteq> set (dn_accepted n)"
proof -
  note c0 = constructed [OF assms(1)]
  have "current_inv n"
    using assms(2)
  proof (induction rule: reachable_atomic.induct)
    case start
    then show ?case using c0 by (simp add: current_inv_def)
  next
    case (work n n')
    then have "reachable n0 n" using reachable_atomic_reachable c0(7) by blast
    then show ?case using work worker_step_current_inv reachable_node_inv [OF assms(1)] by blast
  next
    case (receive n c)
    then show ?case using receive_command_current_inv reachable_atomic_reachable c0(7) by blast
  next
    case (stop n)
    then show ?case by (simp add: current_inv_def)
  qed
  then show ?thesis by (simp add: current_inv_def)
qed

section \<open>The worker stops\<close>

text \<open>How many steps the worker needs to return once a stop is requested.\<close>

fun rank :: "worker_pc \<Rightarrow> nat" where
  "rank At_returned = 0" | "rank At_exit = 1" | "rank At_unconfigured = 1" | "rank At_head = 2"
| "rank At_sleep = 2" | "rank At_retry = 2" | "rank At_start = 3" | "rank (At_failed e) = 3"
| "rank At_read = 4" | "rank (At_write c) = 5" | "rank At_cycle = 6" | "rank At_connect = 7"

fun worker_run :: "nat \<Rightarrow> driver_node \<Rightarrow> driver_node option" where
  "worker_run 0 n = Some n"
| "worker_run (Suc k) n = (case worker_step n of None \<Rightarrow> None | Some n' \<Rightarrow> worker_run k n')"

lemma worker_steps:
  assumes "dn_stop_requested n" "clock_runs (dn_client n)" "dn_pc n \<noteq> At_returned"
  shows "\<exists>n'. worker_step n = Some n' \<and> rank (dn_pc n') < rank (dn_pc n) \<and> dn_stop_requested n' \<and>
    clock_runs (dn_client n')"
proof -
  obtain u c1 where c1: "Modbus_Tcp_Client.connect (dn_client n) = Some (u, c1)" "clock_runs c1"
    using client_returns [OF assms(2)] connect_clock [OF assms(2)] by fastforce
  obtain v c2 where c2: "read_status (dn_client n) = Some (v, c2)" "clock_runs c2"
    using client_returns [OF assms(2)] read_status_clock [OF assms(2)] by fastforce
  have c3: "\<exists>w c3. write_command img (dn_client n) = Some (w, c3) \<and> clock_runs c3" for img
    using client_returns [OF assms(2), of img] write_command_clock [OF assms(2), of img]
    by fastforce
  show ?thesis
  proof (cases "dn_pc n")
    case At_connect
    then show ?thesis using assms c1 by (cases u) (auto simp: worker_step_def node_defs)
  next
    case At_read
    then show ?thesis using assms c2 by (cases v) (auto simp: worker_step_def node_defs)
  next
    case (At_write c)
    show ?thesis
    proof (cases "\<exists>d img. c = Some d \<and> pack_command d = Inr img")
      case True
      then obtain d img w c3' where d: "c = Some d" "pack_command d = Inr img"
        "write_command img (dn_client n) = Some (w, c3')" "clock_runs c3'" using c3 by metis
      then show ?thesis using assms At_write by (cases w) (auto simp: worker_step_def worker_write_def)
    next
      case False
      then show ?thesis using assms At_write
        by (auto simp: worker_step_def worker_write_def split: option.split sum.split)
    qed
  qed (use assms in \<open>simp_all add: worker_step_def node_defs\<close>)
qed

lemma worker_returns:
  "dn_stop_requested n \<Longrightarrow> clock_runs (dn_client n) \<Longrightarrow>
   \<exists>k n'. k \<le> rank (dn_pc n) \<and> worker_run k n = Some n' \<and> dn_pc n' = At_returned"
proof (induction "rank (dn_pc n)" arbitrary: n rule: less_induct)
  case less
  show ?case
  proof (cases "dn_pc n = At_returned")
    case True
    then show ?thesis by (intro exI [of _ 0]) simp
  next
    case False
    then obtain n' where n': "worker_step n = Some n'" "rank (dn_pc n') < rank (dn_pc n)"
      "dn_stop_requested n'" "clock_runs (dn_client n')" using worker_steps less.prems by blast
    from less.hyps [OF n'(2-4)] obtain k n'' where k: "k \<le> rank (dn_pc n')"
      "worker_run k n' = Some n''" "dn_pc n'' = At_returned" by blast
    then show ?thesis using n'(1,2) by (intro exI [of _ "Suc k"] exI [of _ n'']) simp
  qed
qed

text \<open>The worker stops: once a stop is requested, and on a clock that passes every instant, it
  returns within seven of its steps, whatever the gripper and the network do.\<close>

theorem worker_stops:
  assumes "dn_stop_requested n" "clock_runs (dn_client n)"
  shows "\<exists>k n'. k \<le> 7 \<and> worker_run k n = Some n' \<and> dn_pc n' = At_returned"
proof -
  have "rank (dn_pc n) \<le> 7" by (cases "dn_pc n") auto
  then show ?thesis using worker_returns [OF assms] le_trans by blast
qed

section \<open>Concrete runs\<close>

abbreviation run :: "event list \<Rightarrow> driver_node \<Rightarrow> driver_node option" where
  "run \<equiv> run_steps handle"

lemma reachable_run: "reachable n0 n \<Longrightarrow> run es n = Some n' \<Longrightarrow> reachable n0 n'"
  using run_steps_invariant [of handle es n n' "reachable n0"] by (blast intro: reachable.step)

text \<open>A gripper whose first connection breaks after one status, and which answers on the second.\<close>

definition demo_parameters :: driver_parameters where
  "demo_parameters = \<lparr>gripper_ip = ''10.0.0.1'', port = 502, unit_id = 9, poll_rate_hz = Fin 1,
     connect_timeout_ms = 1000, response_timeout_ms = 500, reconnect_initial_ms = 500,
     reconnect_max_ms = 5000, allow_automatic_release = False\<rparr>"

lemma demo_poll_period: "poll_period_of (Fin 1) = Some 1000"
proof -
  have one: "mk 1 = Fin 1" using mk_double [OF is_double_of_int [of 1]] by simp
  have "mk 1000 = Fin 1000" using mk_double [OF is_double_of_int [of 1000]] by simp
  with one show ?thesis by (simp add: poll_period_of_def trunc_int64_def to_int64_def rat_trunc_def fits_int64_def)
qed

text \<open>A poll rate that is not a number passes the validation of the constructor, and the conversion of the period is then undefined.\<close>

lemma nan_poll_rate:
  "Robotiq3FDriverNode (demo_parameters\<lparr>poll_rate_hz := NaN\<rparr>) os stamps = None"
  by (simp add: Robotiq3FDriverNode_def demo_parameters_def poll_period_of_def trunc_int64_def
      to_int64_def dle_def deq_def)

definition demo_image :: "u8 list" where "demo_image = replicate 16 0"

definition demo_command :: command where
  "demo_command = Command\<lparr>c_command_id := 7, c_activate := True, c_go_to := True\<rparr>"

definition hears :: "u16 \<Rightarrow> u8 list \<Rightarrow> read_some_event stream \<Rightarrow> read_some_event stream" where
  "hears tid r s = (let rf = request_frame tid 9 r in Got_bytes (take 7 rf) ## Got_bytes (drop 7 rf) ## s)"

definition demo_client :: "u16 \<Rightarrow> bool option \<Rightarrow> u8 list \<Rightarrow> u8 list \<Rightarrow> read_some_event stream \<Rightarrow> modbus_client" where
  "demo_client tid sock out inp s = ready_client\<lparr>mc_transaction_id := tid, mc_socket := sock,
     mc_sent := out, mc_received := inp, mc_reads := s\<rparr>"

lemma demo_client_prompt: "prompt 0 (demo_client tid (Some True) out inp s)"
  by (simp add: prompt_def demo_client_def ready_client_def is_open_def)

lemma demo_client_ops [simp]:
  "is_open (demo_client tid sock out inp s) = (sock = Some True)"
  "close (demo_client tid sock out inp s) = demo_client tid None out inp s"
  "Modbus_Tcp_Client.connect (demo_client tid None out inp s) =
     Some (Inr (), demo_client tid (Some True) out inp s)"
  by (simp_all add: demo_client_def ready_client_def is_open_def close_def connect_def Let_def)

lemma demo_client_hears:
  "demo_client tid sock out inp (hears k r s) =
     say (take 7 (request_frame k 9 r)) (say (drop 7 (request_frame k 9 r)) (demo_client tid sock out inp s))"
  by (simp add: hears_def Let_def demo_client_def say_def ready_client_def)

lemma demo_client_exchanges:
  "k = tid + 1 \<Longrightarrow> length img = 16 \<Longrightarrow>
   read_status (demo_client tid (Some True) out inp (hears k (4 # 16 # img) s)) =
     Some (Inr img, demo_client k (Some True) (out @ request_frame k 9 [4, 0, 0, 0, 8])
       (inp @ request_frame k 9 (4 # 16 # img)) s)"
  "k = tid + 1 \<Longrightarrow> length img = 16 \<Longrightarrow>
   write_command img (demo_client tid (Some True) out inp (hears k [16, 0, 0, 0, 8] s)) =
     Some (Inr (), demo_client k (Some True) (out @ request_frame k 9 ([16, 0, 0, 0, 8, 16] @ img))
       (inp @ request_frame k 9 [16, 0, 0, 0, 8]) s)"
  "read_status (demo_client tid (Some True) out inp (Get_error m ## s)) =
     Some (Inl (io_error ''read Modbus TCP response'' m),
       demo_client (tid + 1) (Some True) (out @ request_frame (tid + 1) 9 [4, 0, 0, 0, 8]) inp s)"
  using prompt_read_status [OF demo_client_prompt [of tid out inp s], of img]
    prompt_write_command [OF demo_client_prompt [of tid out inp s], of img]
    prompt_read_error [OF demo_client_prompt [of tid out inp s], of m s]
  by (simp_all add: demo_client_hears) (simp_all add: demo_client_def ready_client_def)

definition demo_reads :: "read_some_event stream" where
  "demo_reads = hears 1 (4 # 16 # demo_image) (Get_error ''reset'' ##
     hears 3 (4 # 16 # demo_image) (hears 4 [16, 0, 0, 0, 8] (sconst Get_again)))"

definition demo_node :: "read_some_event stream \<Rightarrow> driver_node" where
  "demo_node s = \<lparr>dn_address = ''10.0.0.1'', dn_poll_period = 1000, dn_reconnect_initial = 500,
     dn_reconnect_max = 5000, dn_allow_automatic_release = False, dn_stop_requested = False,
     dn_ready_for_commands = False, dn_connection_id = 0, dn_last_command_id = 0,
     dn_pending_command = None, dn_connected = False, dn_last_diagnostic = ''not connected'',
     dn_client = demo_client 0 None [] [] s, dn_reconnect_delay = 500, dn_pc = At_start, dn_checked = None,
     dn_stamps = sconst 0, dn_connections = 0, dn_published = [], dn_written = [],
     dn_accepted = [], dn_retries = []\<rparr>"

lemma demo_node_constructed:
  "\<exists>os. Robotiq3FDriverNode demo_parameters os (sconst 0) = Some (Inr (demo_node s))"
proof (rule exI)
  show "Robotiq3FDriverNode demo_parameters (demo_client 0 None [] [] s) (sconst 0) = Some (Inr (demo_node s))"
    by (simp add: Robotiq3FDriverNode_def demo_parameters_def demo_node_def demo_poll_period dle_def deq_def
        ModbusTcpClient_def demo_client_def ready_client_def)
qed

lemmas demo_simps = worker_step_def node_defs demo_client_exchanges demo_image_def
  receive_check_def receive_store_def

lemma demo_command_ok:
  "\<not> c_mode demo_command > MODE_SCISSOR" "c_command_id demo_command \<noteq> 0"
  "\<not> c_automatic_release demo_command"
  "\<exists>img. pack_command demo_command = Inr img \<and> length img = 16"
  by (simp_all add: demo_command_def Command_def MODE_SCISSOR_def pack_command_def)

text \<open>The first connection delivers a status and a command is checked; the connection breaks, the
  second one delivers a status, and only then is the command stored, and written.\<close>

lemma replicate_numerals: "replicate (numeral k) x = x # replicate (pred_numeral k) x"
  by (simp add: numeral_eq_Suc)

definition race_events :: "event list" where
  "race_events = replicate 6 Worker @ [Check demo_command] @ replicate 11 Worker @ [Store] @ replicate 4 Worker"

lemma race_run:
  "\<exists>n. run race_events (demo_node demo_reads) = Some n \<and> dn_written n = [(2, demo_command)] \<and>
     dn_accepted n = [(1, demo_command)]"
proof -
  obtain img where img: "pack_command demo_command = Inr img" "length img = 16"
    using demo_command_ok(4) by blast
  show ?thesis
    using demo_command_ok(1-3)
    by (simp add: race_events_def replicate_numerals demo_node_def demo_reads_def demo_simps img)
qed

text \<open>The callback's check and its store are not one step, and that matters: there is a run of a
  constructed node in which the only command accepted was accepted on the first connection and is
  written on the second.\<close>

lemma stale_command_is_replayed:
  "\<exists>os stamps n0 n c. Robotiq3FDriverNode demo_parameters os stamps = Some (Inr n0) \<and> reachable n0 n \<and>
     dn_accepted n = [(1, c)] \<and> dn_written n = [(2, c)]"
  using demo_node_constructed race_run reachable_run [OF reachable.start] by blast

section \<open>Witnesses\<close>

theorem written_commands_are_valid_witness:
  "\<exists>n :: driver_node. dn_written n = [(2, demo_command)] \<and> c_mode demo_command \<le> MODE_SCISSOR"
proof -
  obtain os where os: "Robotiq3FDriverNode demo_parameters os (sconst 0) = Some (Inr (demo_node demo_reads))"
    using demo_node_constructed by blast
  obtain n where n: "run race_events (demo_node demo_reads) = Some n" "dn_written n = [(2, demo_command)]"
    using race_run by blast
  show ?thesis
    using written_commands_are_valid [OF os reachable_run [OF reachable.start n(1)]] n(2)
    by (intro exI [of _ n]) simp
qed

theorem commands_written_at_most_once_witness:
  "\<exists>n :: driver_node. dn_written n = [(2, demo_command)] \<and> mset (map snd (dn_written n)) \<subseteq># mset (map snd (dn_accepted n))"
proof -
  obtain os where os: "Robotiq3FDriverNode demo_parameters os (sconst 0) = Some (Inr (demo_node demo_reads))"
    using demo_node_constructed by blast
  obtain n where n: "run race_events (demo_node demo_reads) = Some n" "dn_written n = [(2, demo_command)]"
    using race_run by blast
  show ?thesis
    using commands_written_at_most_once [OF os reachable_run [OF reachable.start n(1)]] n(2) by blast
qed

lemma one_status_run:
  "\<exists>n. run (replicate 6 Worker) (demo_node (hears 1 (4 # 16 # demo_image) (sconst Get_again))) = Some n \<and>
     length (dn_published n) = 1 \<and> s_connected (hd (dn_published n)) \<and> dn_ready_for_commands n"
  by (simp add: replicate_numerals demo_node_def demo_simps)

theorem published_status_is_truthful_witness:
  "\<exists>n :: driver_node. dn_ready_for_commands n \<and> s_connected (last (dn_published n)) \<and> is_open (dn_client n)"
proof -
  let ?s = "hears 1 (4 # 16 # demo_image) (sconst Get_again)"
  obtain os where os: "Robotiq3FDriverNode demo_parameters os (sconst 0) = Some (Inr (demo_node ?s))"
    using demo_node_constructed by blast
  obtain n where n: "run (replicate 6 Worker) (demo_node ?s) = Some n" "dn_ready_for_commands n"
    using one_status_run by blast
  show ?thesis
    using published_status_is_truthful [OF os reachable_run [OF reachable.start n(1)]] n(2) by blast
qed

text \<open>An address that no socket can be made for: the attempt fails and the worker sleeps.\<close>

definition deaf_os :: modbus_client where
  "deaf_os = (demo_client 0 None [] [] (sconst Get_again))\<lparr>mc_connects :=
     sconst \<lparr>cs_make_address = Some ''invalid'', cs_open = None, cs_non_blocking = None,
       cs_connect = Connect_done, cs_getsockopt = None, cs_socket_error = None\<rparr>\<rparr>"

lemma deaf_connect:
  "\<exists>e. Modbus_Tcp_Client.connect deaf_os = Some (Inl e, deaf_os)"
  by (simp add: deaf_os_def connect_def Let_def close_def demo_client_def ready_client_def)

lemma deaf_run:
  "\<exists>n. run (replicate 4 Worker) ((demo_node s)\<lparr>dn_client := deaf_os\<rparr>) = Some n \<and> dn_retries n = [500]"
  using deaf_connect
  by (auto simp: replicate_numerals demo_node_def demo_simps)
    (simp_all add: deaf_os_def is_open_def demo_client_def)

theorem reconnect_delays_back_off_witness:
  "\<exists>n :: driver_node. dn_retries n = [500] \<and> dn_reconnect_initial n \<le> 500 \<and> 500 \<le> dn_reconnect_max n"
proof -
  let ?n0 = "(demo_node (sconst Get_again))\<lparr>dn_client := deaf_os\<rparr>"
  have c: "Robotiq3FDriverNode demo_parameters deaf_os (sconst 0) = Some (Inr ?n0)"
    by (simp add: Robotiq3FDriverNode_def demo_parameters_def demo_node_def demo_poll_period dle_def deq_def
        ModbusTcpClient_def demo_client_def ready_client_def deaf_os_def)
  obtain n where n: "run (replicate 4 Worker) ?n0 = Some n" "dn_retries n = [500]" using deaf_run by blast
  show ?thesis
    using reconnect_delays_back_off [OF c reachable_run [OF reachable.start n(1)], of 500] n(2)
    by (intro exI [of _ n]) simp
qed

lemma reachable_atomic_run:
  "reachable_atomic n0 n \<Longrightarrow> worker_run k n = Some n' \<Longrightarrow> reachable_atomic n0 n'"
  by (induction k arbitrary: n) (auto split: option.splits intro: reachable_atomic.work)

lemma worker_run_numeral:
  "worker_run (numeral k) n = (case worker_step n of None \<Rightarrow> None | Some n' \<Rightarrow> worker_run (pred_numeral k) n')"
  by (simp add: numeral_eq_Suc)

lemma clean_run:
  defines "s \<equiv> hears 1 (4 # 16 # demo_image) (hears 2 [16, 0, 0, 0, 8] (sconst Get_again))"
  shows "\<exists>n n'. worker_run 6 (demo_node s) = Some n \<and> worker_run 4 (receive_command demo_command n) = Some n' \<and>
     dn_written n' = [(1, demo_command)]"
proof -
  obtain img where img: "pack_command demo_command = Inr img" "length img = 16"
    using demo_command_ok(4) by blast
  show ?thesis
    using demo_command_ok(1-3)
    by (simp add: worker_run_numeral demo_node_def s_def demo_simps receive_command_def img)
qed

theorem no_replay_across_connections_witness:
  "\<exists>n :: driver_node. dn_written n = [(1, demo_command)] \<and> (1, demo_command) \<in> set (dn_accepted n)"
proof -
  let ?s = "hears 1 (4 # 16 # demo_image) (hears 2 [16, 0, 0, 0, 8] (sconst Get_again))"
  obtain os where os: "Robotiq3FDriverNode demo_parameters os (sconst 0) = Some (Inr (demo_node ?s))"
    using demo_node_constructed by blast
  obtain n n' where n: "worker_run 6 (demo_node ?s) = Some n"
    "worker_run 4 (receive_command demo_command n) = Some n'" "dn_written n' = [(1, demo_command)]"
    using clean_run by blast
  have "reachable_atomic (demo_node ?s) n'"
    using reachable_atomic_run reachable_atomic.receive reachable_atomic.start n(1,2) by blast
  from no_replay_across_connections [OF os this] n(3) show ?thesis by (intro exI [of _ n']) simp
qed

theorem worker_stops_witness:
  "\<exists>k n'. k \<le> 7 \<and> worker_run k ((demo_node (sconst Get_again))\<lparr>dn_stop_requested := True, dn_pc := At_connect,
     dn_client := (demo_client 0 None [] [] (sconst Get_again))\<lparr>mc_clock := siterate (\<lambda>t. t + 1) 0\<rparr>\<rparr>) = Some n' \<and>
   dn_pc n' = At_returned"
  by (rule worker_stops) (simp_all add: siterate_clock_runs)

end
