(* ===== verification/Controller_Node.thy ===== *)
theory Controller_Node
  imports Driver_Node
begin

text \<open>
  The 3F controller node, \<^verbatim>\<open>robotiq_3f_controller/src/controller_node.cpp\<close>: the constructor, the
  status and command paths, the waiting loop all operations share, the three services and the two
  actions. The state holds the members of the class. Readings of the steady clock are a script.
  While an operation waits, other threads run: a second script gives, for every pass of the waiting
  loop, the events that happened since the last one (statuses received, \<^verbatim>\<open>stop\<close> served, other
  operations and goals offered, shutdown) and what the goal handle answers. \<open>ct_published\<close> and
  \<open>ct_relayed\<close> log the commands and the statuses published, \<open>ct_feedback\<close> the feedback. Times are
  nanoseconds.
\<close>

section \<open>State\<close>

record controller_parameters =
  activation_timeout_s :: double
  default_move_timeout_s :: double
  status_timeout_s :: double
  activation_mode :: int
  gripper_command_closed_position_m :: double
  gripper_command_max_opening_m :: double
  gripper_command_closed_raw :: int
  gripper_command_min_effort_n :: double
  gripper_command_max_effort_n :: double
  gripper_command_default_effort_n :: double
  gripper_command_speed :: int

record move_goal =
  mg_mode :: u8
  mg_individual_finger_control :: bool
  mg_individual_scissor_control :: bool
  mg_position_a :: u8
  mg_speed_a :: u8
  mg_force_a :: u8
  mg_position_b :: u8
  mg_speed_b :: u8
  mg_force_b :: u8
  mg_position_c :: u8
  mg_speed_c :: u8
  mg_force_c :: u8
  mg_position_scissor :: u8
  mg_speed_scissor :: u8
  mg_force_scissor :: u8
  mg_timeout_sec :: "32 word"      \<comment> \<open>signed\<close>
  mg_timeout_nanosec :: u32

record move_result =
  reached_requested_position :: bool
  stopped_due_to_contact :: bool
  fault_status :: u8
  message :: string
  final_status :: status

record gripper_state =
  gs_position :: double
  gs_effort :: double
  gs_stalled :: bool
  gs_reached_goal :: bool

datatype feedback = Move_feedback status | Gripper_feedback gripper_state

datatype thread_event =
    Status_received status   \<comment> \<open>\<^verbatim>\<open>receive_status\<close>\<close>
  | Stop_called              \<comment> \<open>the \<^verbatim>\<open>stop\<close> service\<close>
  | Operation_offered        \<comment> \<open>a call of \<^verbatim>\<open>activate\<close> or \<^verbatim>\<open>deactivate\<close> tests \<^verbatim>\<open>busy_\<close>\<close>
  | Goal_offered move_goal   \<comment> \<open>\<^verbatim>\<open>handle_move_goal\<close>\<close>
  | Gripper_goal_offered double double  \<comment> \<open>\<^verbatim>\<open>handle_gripper_command_goal\<close>\<close>
  | Shutdown

record thread_step =
  ts_events :: "thread_event list"
  ts_canceling :: bool
  ts_active :: bool

record controller =
  ct_parameters :: controller_parameters
  ct_activation_timeout :: int
  ct_default_move_timeout :: int
  ct_status_timeout :: int
  ct_current_status :: status
  ct_last_status_time :: int
  ct_have_status :: bool
  ct_last_command :: command
  ct_have_command :: bool
  ct_busy :: bool
  ct_shutting_down :: bool
  ct_next_command_id :: u64
  ct_clock :: "int stream"
  ct_threads :: "thread_step stream"
  ct_published :: "command list"
  ct_relayed :: "status list"
  ct_feedback :: "feedback list"

section \<open>The constructor\<close>

text \<open>\<^verbatim>\<open>duration_cast<nanoseconds>\<close> of a number of seconds; undefined (\<open>None\<close>) if it does not fit.\<close>

definition seconds_to_ns :: "double \<Rightarrow> int option" where
  "seconds_to_ns s = trunc_int64 (dmul s (Fin 1000000000))"

definition bad_compatibility :: "controller_parameters \<Rightarrow> bool" where
  "bad_compatibility p \<longleftrightarrow>
     \<not> isfinite (gripper_command_closed_position_m p) \<or>
     \<not> isfinite (gripper_command_max_opening_m p) \<or>
     dlt (gripper_command_closed_position_m p) (Fin 0) \<or>
     dle (gripper_command_max_opening_m p) (gripper_command_closed_position_m p) \<or>
     \<not> isfinite (gripper_command_min_effort_n p) \<or>
     \<not> isfinite (gripper_command_max_effort_n p) \<or>
     \<not> isfinite (gripper_command_default_effort_n p) \<or>
     dlt (gripper_command_min_effort_n p) (Fin 0) \<or>
     dle (gripper_command_max_effort_n p) (gripper_command_min_effort_n p) \<or>
     dlt (gripper_command_default_effort_n p) (gripper_command_min_effort_n p) \<or>
     dlt (gripper_command_max_effort_n p) (gripper_command_default_effort_n p) \<or>
     gripper_command_closed_raw p < 1 \<or> gripper_command_closed_raw p > 255 \<or>
     gripper_command_speed p < 0 \<or> gripper_command_speed p > 255"

definition Robotiq3FControllerNode ::
  "controller_parameters \<Rightarrow> int stream \<Rightarrow> thread_step stream \<Rightarrow> (cpp_exception + controller) option" where
  "Robotiq3FControllerNode p clock threads =
     (case (seconds_to_ns (activation_timeout_s p), seconds_to_ns (default_move_timeout_s p),
            seconds_to_ns (status_timeout_s p)) of
        (Some activation, Some default_move, Some status_timeout) \<Rightarrow>
          Some (if activation \<le> 0 \<or> default_move \<le> 0 \<or> status_timeout \<le> 0 \<or>
                   activation_mode p < 0 \<or> activation_mode p > 3 then
                  Inl (Invalid_argument ''invalid Robotiq 3F controller parameter'')
                else if bad_compatibility p then
                  Inl (Invalid_argument ''invalid GripperCommand compatibility parameter'')
                else Inr
                  \<lparr>ct_parameters = p, ct_activation_timeout = activation,
                   ct_default_move_timeout = default_move, ct_status_timeout = status_timeout,
                   ct_current_status = Status, ct_last_status_time = 0, ct_have_status = False,
                   ct_last_command = Command, ct_have_command = False, ct_busy = False,
                   ct_shutting_down = False, ct_next_command_id = 1, ct_clock = clock,
                   ct_threads = threads, ct_published = [], ct_relayed = [], ct_feedback = []\<rparr>)
      | _ \<Rightarrow> None)"

section \<open>Statuses and commands\<close>

definition steady_now :: "controller \<Rightarrow> int \<times> controller" where
  "steady_now c = (shd (ct_clock c), c\<lparr>ct_clock := stl (ct_clock c)\<rparr>)"

definition receive_status :: "status \<Rightarrow> controller \<Rightarrow> controller" where
  "receive_status status c =
     (case steady_now c of (t, c1) \<Rightarrow>
        c1\<lparr>ct_current_status := status, ct_last_status_time := t, ct_have_status := True,
           ct_relayed := ct_relayed c1 @ [status]\<rparr>)"

text \<open>The result is the status, or the reason why there is none.\<close>

definition current_status :: "controller \<Rightarrow> (string + status) \<times> controller" where
  "current_status c =
     (if \<not> ct_have_status c then (Inl ''no gripper status has been received'', c)
      else if \<not> s_connected (ct_current_status c) then
        (Inl (if s_diagnostic (ct_current_status c) = '''' then ''gripper backend is disconnected''
              else s_diagnostic (ct_current_status c)), c)
      else
        (case steady_now c of (t, c1) \<Rightarrow>
          if t - ct_last_status_time c > ct_status_timeout c then (Inl ''gripper status is stale'', c1)
          else (Inr (ct_current_status c), c1)))"

definition publish_command :: "command \<Rightarrow> controller \<Rightarrow> u64 \<times> controller" where
  "publish_command command c =
     (let command_id = ct_next_command_id c; cmd = command\<lparr>c_command_id := command_id\<rparr> in
      (command_id, c\<lparr>ct_next_command_id := ct_next_command_id c + 1, ct_last_command := cmd,
                     ct_have_command := True, ct_published := ct_published c @ [cmd]\<rparr>))"

definition begin_operation :: "controller \<Rightarrow> bool \<times> controller" where
  "begin_operation c = (\<not> ct_busy c, c\<lparr>ct_busy := True\<rparr>)"

text \<open>The destructor of \<^verbatim>\<open>BusyGuard\<close>.\<close>

definition release :: "controller \<Rightarrow> controller" where
  "release c = c\<lparr>ct_busy := False\<rparr>"

text \<open>The response of a service: \<^verbatim>\<open>success\<close> and \<^verbatim>\<open>message\<close>.\<close>

definition stop_command :: "status \<Rightarrow> controller \<Rightarrow> command" where
  "stop_command status c =
     (if ct_have_command c then ct_last_command c
      else Command\<lparr>c_activate := s_activated status, c_mode := s_mode status\<rparr>)
     \<lparr>c_go_to := False, c_automatic_release := False\<rparr>"

definition stop :: "controller \<Rightarrow> (bool \<times> string) \<times> controller" where
  "stop c =
     (case current_status c of
        (Inl reason, c1) \<Rightarrow> ((False, reason), c1)
      | (Inr status, c1) \<Rightarrow>
          ((True, ''stop command sent''), snd (publish_command (stop_command status c1) c1)))"

datatype goal_response = REJECT | ACCEPT_AND_EXECUTE

definition handle_move_goal :: "move_goal \<Rightarrow> controller \<Rightarrow> goal_response \<times> controller" where
  "handle_move_goal goal c =
     (if mg_mode goal > MODE_SCISSOR then (REJECT, c)
      else if ct_busy c then (REJECT, c\<lparr>ct_busy := True\<rparr>)
      else (ACCEPT_AND_EXECUTE, c\<lparr>ct_busy := True\<rparr>))"

definition handle_gripper_command_goal :: "double \<Rightarrow> double \<Rightarrow> controller \<Rightarrow> goal_response \<times> controller" where
  "handle_gripper_command_goal position_m effort_n c =
     (let p = ct_parameters c in
      if \<not> isfinite position_m \<or> dlt position_m (gripper_command_closed_position_m p) \<or>
         dlt (gripper_command_max_opening_m p) position_m then (REJECT, c)
      else if \<not> isfinite effort_n \<or> dlt effort_n (Fin 0) \<or>
         dlt (Fin 0) effort_n \<and> (dlt effort_n (gripper_command_min_effort_n p) \<or>
           dlt (gripper_command_max_effort_n p) effort_n) then (REJECT, c)
      else if ct_busy c then (REJECT, c\<lparr>ct_busy := True\<rparr>)
      else (ACCEPT_AND_EXECUTE, c\<lparr>ct_busy := True\<rparr>))"

section \<open>Waiting\<close>

fun on_thread_event :: "thread_event \<Rightarrow> controller \<Rightarrow> controller" where
  "on_thread_event (Status_received status) c = receive_status status c"
| "on_thread_event Stop_called c = snd (stop c)"
| "on_thread_event Operation_offered c = snd (begin_operation c)"
| "on_thread_event (Goal_offered goal) c = snd (handle_move_goal goal c)"
| "on_thread_event (Gripper_goal_offered position effort) c =
     snd (handle_gripper_command_goal position effort c)"
| "on_thread_event Shutdown c = c\<lparr>ct_shutting_down := True\<rparr>"

definition thread_events :: "thread_event list \<Rightarrow> controller \<Rightarrow> controller" where
  "thread_events es c = fold on_thread_event es c"

text \<open>What the wait makes of the current status: success, failure with a reason, or go on.\<close>

datatype verdict = Success | Failure string | Go_on

definition status_verdict ::
  "(status \<Rightarrow> bool) \<Rightarrow> u64 \<Rightarrow> controller \<Rightarrow> verdict \<times> controller" where
  "status_verdict predicate connection_id c =
     (if \<not> s_connected (ct_current_status c) then
        (Failure (if s_diagnostic (ct_current_status c) = '''' then ''gripper disconnected''
                  else s_diagnostic (ct_current_status c)), c)
      else if s_connection_id (ct_current_status c) \<noteq> connection_id then
        (Failure ''gripper reconnected. Request not replayed'', c)
      else
        (case steady_now c of (t, c1) \<Rightarrow>
          if t - ct_last_status_time c > ct_status_timeout c then (Failure ''gripper status is stale'', c1)
          else if predicate (ct_current_status c) then (Success, c1)
          else (Go_on, c1)))"

text \<open>\<^verbatim>\<open>wait_for_status\<close>. \<open>cancellable\<close> says whether \<^verbatim>\<open>cancelled\<close> asks the goal handle, \<open>progress\<close>
  is the progress callback with the handle's \<^verbatim>\<open>is_active\<close>, \<open>final\<close> is \<^verbatim>\<open>final_status\<close>. One
  pass of the loop ends with whether it succeeded, the reason if not, and \<^verbatim>\<open>final_status\<close>, or it
  goes on with \<^verbatim>\<open>final_status\<close> assigned.\<close>

definition wait_pass ::
  "(status \<Rightarrow> bool) \<Rightarrow> int \<Rightarrow> u64 \<Rightarrow> bool \<Rightarrow> (bool \<Rightarrow> status \<Rightarrow> controller \<Rightarrow> controller) \<Rightarrow> status \<Rightarrow>
   controller \<Rightarrow> ((bool \<times> string \<times> status) option \<times> status) \<times> controller" where
  "wait_pass predicate deadline connection_id cancellable progress final c =
     (let s = shd (ct_threads c);
          c1 = thread_events (ts_events s) (c\<lparr>ct_threads := stl (ct_threads c)\<rparr>) in
      if ct_shutting_down c1 then ((Some (False, ''controller is shutting down'', final), final), c1)
      else if cancellable \<and> ts_canceling s then ((Some (False, ''request cancelled'', final), final), c1)
      else
        (let final1 = (if ct_have_status c1 then ct_current_status c1 else final);
             c2 = (if ct_have_status c1 then progress (ts_active s) (ct_current_status c1) c1 else c1) in
         case (if ct_have_status c1 then status_verdict predicate connection_id c2 else (Go_on, c2)) of
           (Failure reason, c3) \<Rightarrow> ((Some (False, reason, final1), final1), c3)
         | (Success, c3) \<Rightarrow> ((Some (True, '''', final1), final1), c3)
         | (Go_on, c3) \<Rightarrow>
             (case steady_now c3 of (t, c4) \<Rightarrow>
                if t \<ge> deadline then ((Some (False, ''request timed out'', final1), final1), c4)
                else ((None, final1), c4))))"

partial_function (option) wait_for_status ::
  "(status \<Rightarrow> bool) \<Rightarrow> int \<Rightarrow> u64 \<Rightarrow> bool \<Rightarrow> (bool \<Rightarrow> status \<Rightarrow> controller \<Rightarrow> controller) \<Rightarrow>
   status \<Rightarrow> controller \<Rightarrow> ((bool \<times> string \<times> status) \<times> controller) option" where
  "wait_for_status predicate deadline connection_id cancellable progress final c =
     (case wait_pass predicate deadline connection_id cancellable progress final c of
        ((Some r, _), c') \<Rightarrow> Some (r, c')
      | ((None, final'), c') \<Rightarrow>
          wait_for_status predicate deadline connection_id cancellable progress final' c')"

definition no_progress :: "bool \<Rightarrow> status \<Rightarrow> controller \<Rightarrow> controller" where
  "no_progress active status c = c"

text \<open>A wait of a service, with the deadline set from the clock.\<close>

definition service_wait ::
  "(status \<Rightarrow> bool) \<Rightarrow> u64 \<Rightarrow> status \<Rightarrow> controller \<Rightarrow> ((bool \<times> string \<times> status) \<times> controller) option" where
  "service_wait predicate connection_id status c =
     (case steady_now c of (t, c1) \<Rightarrow>
        wait_for_status predicate (t + ct_activation_timeout c) connection_id False no_progress status c1)"

section \<open>The services\<close>

definition reset_done :: "u64 \<Rightarrow> status \<Rightarrow> bool" where
  "reset_done command_id value \<longleftrightarrow> s_last_command_id value = command_id \<and> \<not> s_activated value \<and>
     s_initialization_status value = INITIALIZATION_RESET"

definition activation_done :: "u64 \<Rightarrow> u8 \<Rightarrow> status \<Rightarrow> bool" where
  "activation_done command_id mode value \<longleftrightarrow> s_last_command_id value = command_id \<and> s_activated value \<and>
     s_initialization_status value = INITIALIZATION_READY \<and> s_mode value = mode"

definition deactivation_done :: "u64 \<Rightarrow> status \<Rightarrow> bool" where
  "deactivation_done command_id value \<longleftrightarrow> s_last_command_id value = command_id \<and> \<not> s_activated value"

text \<open>\<^verbatim>\<open>static_cast<std::uint8_t>(activation_mode_)\<close>.\<close>

definition activation_mode_byte :: "controller \<Rightarrow> u8" where
  "activation_mode_byte c = of_int (activation_mode (ct_parameters c))"

definition activate_guarded :: "controller \<Rightarrow> ((bool \<times> string) \<times> controller) option" where
  "activate_guarded c =
     (case current_status c of
        (Inl reason, c1) \<Rightarrow> Some ((False, reason), c1)
      | (Inr status, c1) \<Rightarrow>
          (case publish_command Command c1 of (reset_command_id, c2) \<Rightarrow>
           case service_wait (reset_done reset_command_id) (s_connection_id status) status c2 of
             None \<Rightarrow> None
           | Some ((False, reason, _), c3) \<Rightarrow> Some ((False, ''reset before activation failed: '' @ reason), c3)
           | Some ((True, _, status1), c3) \<Rightarrow>
               (case publish_command
                   (Command\<lparr>c_activate := True, c_mode := activation_mode_byte c3\<rparr>) c3 of
                  (activation_command_id, c4) \<Rightarrow>
                  (case service_wait (activation_done activation_command_id (activation_mode_byte c4))
                      (s_connection_id status) status1 c4 of
                     None \<Rightarrow> None
                   | Some ((False, reason, _), c5) \<Rightarrow> Some ((False, ''activation failed: '' @ reason), c5)
                   | Some ((True, _, _), c5) \<Rightarrow> Some ((True, ''gripper activated and ready''), c5)))))"

definition deactivate_guarded :: "controller \<Rightarrow> ((bool \<times> string) \<times> controller) option" where
  "deactivate_guarded c =
     (case current_status c of
        (Inl reason, c1) \<Rightarrow> Some ((False, reason), c1)
      | (Inr status, c1) \<Rightarrow>
          (case publish_command Command c1 of (command_id, c2) \<Rightarrow>
           case service_wait (deactivation_done command_id) (s_connection_id status) status c2 of
             None \<Rightarrow> None
           | Some ((False, reason, _), c3) \<Rightarrow> Some ((False, ''deactivation failed: '' @ reason), c3)
           | Some ((True, _, _), c3) \<Rightarrow> Some ((True, ''gripper deactivated''), c3)))"

text \<open>A body that runs under \<^verbatim>\<open>BusyGuard\<close>, and the test of \<^verbatim>\<open>busy_\<close> before it.\<close>

definition guarded :: "(controller \<Rightarrow> ('a \<times> controller) option) \<Rightarrow> controller \<Rightarrow> ('a \<times> controller) option" where
  "guarded body c = map_option (\<lambda>(r, c'). (r, release c')) (body c)"

definition exclusive ::
  "(controller \<Rightarrow> ((bool \<times> string) \<times> controller) option) \<Rightarrow> controller \<Rightarrow> ((bool \<times> string) \<times> controller) option" where
  "exclusive body c =
     (case begin_operation c of
        (False, c1) \<Rightarrow> Some ((False, ''another gripper operation is active''), c1)
      | (True, c1) \<Rightarrow> guarded body c1)"

definition activate :: "controller \<Rightarrow> ((bool \<times> string) \<times> controller) option" where
  "activate = exclusive activate_guarded"

definition deactivate :: "controller \<Rightarrow> ((bool \<times> string) \<times> controller) option" where
  "deactivate = exclusive deactivate_guarded"

section \<open>The move action\<close>

datatype goal_outcome = Succeeded | Aborted | Canceled

definition Move_result :: move_result where
  "Move_result = \<lparr>reached_requested_position = False, stopped_due_to_contact = False,
     fault_status = 0, message = '''', final_status = Status\<rparr>"

definition move_command :: "move_goal \<Rightarrow> command" where
  "move_command goal = Command\<lparr>c_activate := True, c_mode := mg_mode goal, c_go_to := True,
     c_individual_finger_control := mg_individual_finger_control goal,
     c_individual_scissor_control := mg_individual_scissor_control goal,
     c_position_a := mg_position_a goal, c_speed_a := mg_speed_a goal, c_force_a := mg_force_a goal,
     c_position_b := mg_position_b goal, c_speed_b := mg_speed_b goal, c_force_b := mg_force_b goal,
     c_position_c := mg_position_c goal, c_speed_c := mg_speed_c goal, c_force_c := mg_force_c goal,
     c_position_scissor := mg_position_scissor goal, c_speed_scissor := mg_speed_scissor goal,
     c_force_scissor := mg_force_scissor goal\<rparr>"

definition move_done :: "move_goal \<Rightarrow> u64 \<Rightarrow> status \<Rightarrow> bool" where
  "move_done goal command_id value =
     (if s_last_command_id value \<noteq> command_id \<or> s_mode value \<noteq> mg_mode goal \<or> \<not> s_go_to value \<or>
         s_initialization_status value \<noteq> INITIALIZATION_READY \<or>
         s_requested_position_a value \<noteq> mg_position_a goal then False
      else if mg_individual_finger_control goal \<and>
         (s_requested_position_b value \<noteq> mg_position_b goal \<or>
          s_requested_position_c value \<noteq> mg_position_c goal) then False
      else if mg_individual_scissor_control goal \<and>
         s_requested_position_scissor value \<noteq> mg_position_scissor goal then False
      else s_motion_status value \<noteq> MOTION_MOVING \<or> s_fault_status value \<ge> 0x09)"

text \<open>The timeout of a goal, in nanoseconds: the requested one if it is positive.\<close>

definition move_timeout :: "move_goal \<Rightarrow> controller \<Rightarrow> int option" where
  "move_timeout goal c =
     (let requested = dadd (of_integer (sint (mg_timeout_sec goal)))
            (ddiv (of_integer (uint (mg_timeout_nanosec goal))) (Fin 1000000000)) in
      if dlt (Fin 0) requested then seconds_to_ns requested else Some (ct_default_move_timeout c))"

definition move_progress :: "bool \<Rightarrow> status \<Rightarrow> controller \<Rightarrow> controller" where
  "move_progress active value c =
     (if active then c\<lparr>ct_feedback := ct_feedback c @ [Move_feedback value]\<rparr> else c)"

text \<open>The goal handle answers \<^verbatim>\<open>is_canceling\<close> after the wait as well.\<close>

definition is_canceling :: "controller \<Rightarrow> bool \<times> controller" where
  "is_canceling c = (ts_canceling (shd (ct_threads c)), c\<lparr>ct_threads := stl (ct_threads c)\<rparr>)"

text \<open>After a wait that failed: the stop command, where the connection still stands.\<close>

definition stop_if_connected :: "status \<Rightarrow> u64 \<Rightarrow> command \<Rightarrow> controller \<Rightarrow> bool \<times> controller" where
  "stop_if_connected status connection_id command c =
     (if s_connected status \<and> s_connection_id status = connection_id then
        (True, snd (publish_command (command\<lparr>c_go_to := False\<rparr>) c))
      else (False, c))"

definition move_finish ::
  "bool \<Rightarrow> string \<Rightarrow> status \<Rightarrow> u64 \<Rightarrow> command \<Rightarrow> controller \<Rightarrow> (goal_outcome \<times> move_result) \<times> controller" where
  "move_finish completed reason status connection_id command c =
     (let result = Move_result\<lparr>final_status := status, fault_status := s_fault_status status\<rparr> in
      if \<not> completed then
        (case stop_if_connected status connection_id command c of (stop_sent, c1) \<Rightarrow>
         case is_canceling c1 of (canceling, c2) \<Rightarrow>
           if canceling then
             ((Canceled, result\<lparr>message := (if stop_sent then ''Move cancelled. Stop sent''
                else ''Move cancelled. Backend unavailable'')\<rparr>), c2)
           else
             ((Aborted, result\<lparr>message := reason @ (if stop_sent then ''. Stop sent''
                else ''. Backend unavailable'')\<rparr>), c2))
      else if s_fault_status status \<ge> 0x09 then
        ((Aborted, result\<lparr>message := ''gripper reported fault '' @ dec (unat (s_fault_status status))\<rparr>), c)
      else
        (let reached = (s_motion_status status = MOTION_REACHED) in
         ((Succeeded, result\<lparr>reached_requested_position := reached,
             stopped_due_to_contact := (s_motion_status status = MOTION_PARTIAL_CONTACT \<or>
               s_motion_status status = MOTION_ALL_CONTACT),
             message := (if reached then ''requested position reached''
               else ''motion stopped after object contact'')\<rparr>), c)))"

definition move_guarded ::
  "move_goal \<Rightarrow> controller \<Rightarrow> ((goal_outcome \<times> move_result) \<times> controller) option" where
  "move_guarded goal c =
     (case current_status c of
        (Inl reason, c1) \<Rightarrow> Some ((Aborted, Move_result\<lparr>message := reason\<rparr>), c1)
      | (Inr status, c1) \<Rightarrow>
          if \<not> s_activated status \<or> s_initialization_status status \<noteq> INITIALIZATION_READY then
            Some ((Aborted, Move_result\<lparr>message := ''gripper is not activated and ready'',
              final_status := status\<rparr>), c1)
          else
            (case publish_command (move_command goal) c1 of (command_id, c2) \<Rightarrow>
             case move_timeout goal c2 of
               None \<Rightarrow> None
             | Some timeout \<Rightarrow>
                 (case steady_now c2 of (t, c3) \<Rightarrow>
                  case wait_for_status (move_done goal command_id) (t + timeout) (s_connection_id status)
                      True move_progress status c3 of
                    None \<Rightarrow> None
                  | Some ((completed, reason, status1), c4) \<Rightarrow>
                      Some (move_finish completed reason status1 (s_connection_id status)
                        (move_command goal) c4))))"

definition execute_move ::
  "move_goal \<Rightarrow> controller \<Rightarrow> ((goal_outcome \<times> move_result) \<times> controller) option" where
  "execute_move goal = guarded (move_guarded goal)"

section \<open>The standard gripper action\<close>

text \<open>\<^verbatim>\<open>static_cast<std::uint8_t>(std::lround(x))\<close>.\<close>

definition lround_byte :: "double \<Rightarrow> u8 option" where
  "lround_byte x = map_option of_int (lround x)"

definition gripper_command_position_to_raw :: "controller_parameters \<Rightarrow> double \<Rightarrow> u8 option" where
  "gripper_command_position_to_raw p position_m =
     (let closed_fraction = ddiv (dsub (gripper_command_max_opening_m p) position_m)
            (dsub (gripper_command_max_opening_m p) (gripper_command_closed_position_m p)) in
      lround_byte (dmul (of_integer (gripper_command_closed_raw p)) closed_fraction))"

definition gripper_command_raw_to_position :: "controller_parameters \<Rightarrow> u8 \<Rightarrow> double" where
  "gripper_command_raw_to_position p raw =
     (let bounded_raw = dmin (of_integer (uint raw)) (of_integer (gripper_command_closed_raw p));
          closed_fraction = ddiv bounded_raw (of_integer (gripper_command_closed_raw p)) in
      dsub (gripper_command_max_opening_m p)
        (dmul closed_fraction
          (dsub (gripper_command_max_opening_m p) (gripper_command_closed_position_m p))))"

definition gripper_command_effort_to_raw :: "controller_parameters \<Rightarrow> double \<Rightarrow> u8 option" where
  "gripper_command_effort_to_raw p requested_effort_n =
     (let effort_n = (if deq requested_effort_n (Fin 0) then gripper_command_default_effort_n p
                      else requested_effort_n);
          fraction = ddiv (dsub effort_n (gripper_command_min_effort_n p))
            (dsub (gripper_command_max_effort_n p) (gripper_command_min_effort_n p)) in
      lround_byte (dmul (Fin 255) fraction))"

definition fill_gripper_command_state :: "controller_parameters \<Rightarrow> status \<Rightarrow> gripper_state" where
  "fill_gripper_command_state p status =
     \<lparr>gs_position = gripper_command_raw_to_position p (s_actual_position_a status),
      gs_effort = Fin 0,
      gs_stalled = (s_motion_status status = MOTION_PARTIAL_CONTACT \<or>
        s_motion_status status = MOTION_ALL_CONTACT),
      gs_reached_goal = (s_motion_status status = MOTION_REACHED)\<rparr>"

definition Gripper_result :: gripper_state where
  "Gripper_result = \<lparr>gs_position = Fin 0, gs_effort = Fin 0, gs_stalled = False, gs_reached_goal = False\<rparr>"

definition gripper_command :: "u8 \<Rightarrow> u8 \<Rightarrow> u8 \<Rightarrow> command" where
  "gripper_command position_raw speed_raw effort_raw =
     Command\<lparr>c_activate := True, c_mode := MODE_PINCH, c_go_to := True,
       c_position_a := position_raw, c_speed_a := speed_raw, c_force_a := effort_raw,
       c_position_b := position_raw, c_speed_b := speed_raw, c_force_b := effort_raw,
       c_position_c := position_raw, c_speed_c := speed_raw, c_force_c := effort_raw,
       c_speed_scissor := speed_raw, c_force_scissor := effort_raw\<rparr>"

definition gripper_done :: "u8 \<Rightarrow> u64 \<Rightarrow> status \<Rightarrow> bool" where
  "gripper_done position_raw command_id value \<longleftrightarrow>
     s_last_command_id value = command_id \<and> s_mode value = MODE_PINCH \<and> s_go_to value \<and>
     s_initialization_status value = INITIALIZATION_READY \<and>
     s_requested_position_a value = position_raw \<and>
     (s_motion_status value \<noteq> MOTION_MOVING \<or> s_fault_status value \<ge> 0x09)"

definition gripper_progress :: "bool \<Rightarrow> status \<Rightarrow> controller \<Rightarrow> controller" where
  "gripper_progress active value c =
     (if active then
        c\<lparr>ct_feedback := ct_feedback c @ [Gripper_feedback (fill_gripper_command_state (ct_parameters c) value)]\<rparr>
      else c)"

definition gripper_finish ::
  "bool \<Rightarrow> status \<Rightarrow> u64 \<Rightarrow> command \<Rightarrow> controller \<Rightarrow> (goal_outcome \<times> gripper_state) \<times> controller" where
  "gripper_finish completed status connection_id command c =
     (let result = fill_gripper_command_state (ct_parameters c) status in
      if \<not> completed then
        (case stop_if_connected status connection_id command c of (_, c1) \<Rightarrow>
         case is_canceling c1 of (canceling, c2) \<Rightarrow>
           ((if canceling then Canceled else Aborted, result), c2))
      else if s_fault_status status \<ge> 0x09 then ((Aborted, result), c)
      else ((Succeeded, result), c))"

definition gripper_guarded ::
  "double \<Rightarrow> double \<Rightarrow> controller \<Rightarrow> ((goal_outcome \<times> gripper_state) \<times> controller) option" where
  "gripper_guarded position_m max_effort c =
     (case current_status c of
        (Inl reason, c1) \<Rightarrow> Some ((Aborted, Gripper_result), c1)
      | (Inr status, c1) \<Rightarrow>
          if \<not> s_activated status \<or> s_initialization_status status \<noteq> INITIALIZATION_READY then
            Some ((Aborted, fill_gripper_command_state (ct_parameters c) status), c1)
          else
            (case (gripper_command_position_to_raw (ct_parameters c) position_m,
                   gripper_command_effort_to_raw (ct_parameters c) max_effort) of
               (Some position_raw, Some effort_raw) \<Rightarrow>
                 (let speed_raw = of_int (gripper_command_speed (ct_parameters c));
                      command = gripper_command position_raw speed_raw effort_raw in
                  case publish_command command c1 of (command_id, c2) \<Rightarrow>
                  case steady_now c2 of (t, c3) \<Rightarrow>
                  case wait_for_status (gripper_done position_raw command_id)
                      (t + ct_default_move_timeout c3) (s_connection_id status) True gripper_progress
                      status c3 of
                    None \<Rightarrow> None
                  | Some ((completed, reason, status1), c4) \<Rightarrow>
                      Some (gripper_finish completed status1 (s_connection_id status) command c4))
             | _ \<Rightarrow> None))"

definition execute_gripper_command ::
  "double \<Rightarrow> double \<Rightarrow> controller \<Rightarrow> ((goal_outcome \<times> gripper_state) \<times> controller) option" where
  "execute_gripper_command position_m max_effort = guarded (gripper_guarded position_m max_effort)"

section \<open>Interference\<close>

text \<open>What every step of the node, its own or another thread's, keeps: the configuration stands, the
  logs only grow, every published command takes the next identifier, and the current status is one
  that was received.\<close>

definition grows :: "controller \<Rightarrow> controller \<Rightarrow> bool" where
  "grows c c' \<longleftrightarrow> ct_parameters c' = ct_parameters c \<and> ct_activation_timeout c' = ct_activation_timeout c \<and>
     ct_default_move_timeout c' = ct_default_move_timeout c \<and> ct_status_timeout c' = ct_status_timeout c \<and>
     (\<exists>cs. ct_published c' = ct_published c @ cs \<and>
        ct_next_command_id c' = ct_next_command_id c + of_nat (length cs)) \<and>
     (\<exists>ss. ct_relayed c' = ct_relayed c @ ss) \<and>
     (\<exists>fs. ct_feedback c' = ct_feedback c @ fs) \<and>
     (\<exists>k. ct_clock c' = sdrop k (ct_clock c)) \<and>
     (ct_have_status c \<longrightarrow> ct_have_status c')"

definition seen :: "controller \<Rightarrow> bool" where
  "seen c \<longleftrightarrow> (ct_have_status c \<longrightarrow> ct_current_status c \<in> set (ct_relayed c))"

lemma grows_refl [simp, intro]: "grows c c"
  by (auto simp: grows_def intro: exI [of _ 0])

lemma grows_trans [trans]: "grows a b \<Longrightarrow> grows b c \<Longrightarrow> grows a c"
  by (auto simp: grows_def sdrop_add)

text \<open>\<open>keeps f\<close>: the step \<open>f\<close> grows the logs, keeps \<open>seen\<close> and does not release \<^verbatim>\<open>busy_\<close>.\<close>

definition kept :: "controller \<Rightarrow> controller \<Rightarrow> bool" where
  "kept c c' \<longleftrightarrow> grows c c' \<and> (seen c \<longrightarrow> seen c') \<and> (ct_busy c \<longrightarrow> ct_busy c')"

lemma kept_refl [simp, intro]: "kept c c"
  by (simp add: kept_def)

lemma kept_trans [trans]: "kept a b \<Longrightarrow> kept b c \<Longrightarrow> kept a c"
  using grows_trans by (auto simp: kept_def)

lemma kept_threads [simp]: "kept c (c\<lparr>ct_threads := x\<rparr>)"
  by (auto simp: kept_def grows_def seen_def intro: exI [of _ 0])

lemma steady_now_kept: "steady_now c = (t, c') \<Longrightarrow> kept c c'"
  by (auto simp: steady_now_def kept_def grows_def seen_def intro: exI [of _ 1])

lemma publish_command_kept: "publish_command cmd c = (i, c') \<Longrightarrow> kept c c'"
  by (auto simp: publish_command_def Let_def kept_def grows_def seen_def intro: exI [of _ 0])

lemma current_status_kept: "current_status c = (r, c') \<Longrightarrow> kept c c'"
  using steady_now_kept by (auto simp: current_status_def split: if_splits prod.splits)

lemma stop_kept: "stop c = (r, c') \<Longrightarrow> kept c c'"
  using publish_command_kept kept_trans
  by (auto simp: stop_def split: prod.splits sum.splits dest!: current_status_kept)
    (metis prod.collapse)

lemma receive_status_kept: "kept c (receive_status s c)"
  by (auto simp: receive_status_def steady_now_def kept_def grows_def seen_def intro: exI [of _ 1])

lemma kept_flags [simp]: "kept c (c\<lparr>ct_busy := True\<rparr>)" "kept c (c\<lparr>ct_shutting_down := True\<rparr>)"
  by (auto simp: kept_def grows_def seen_def intro: exI [of _ 0])

lemma on_thread_event_kept: "kept c (on_thread_event e c)"
proof (cases e)
  case Stop_called
  then show ?thesis using stop_kept [of c] by (cases "stop c") simp
qed (simp_all add: receive_status_kept begin_operation_def handle_move_goal_def
       handle_gripper_command_goal_def Let_def)

lemma thread_events_kept: "kept c (thread_events es c)"
  unfolding thread_events_def
proof (induction es arbitrary: c)
  case (Cons e es)
  then show ?case using on_thread_event_kept kept_trans by (metis fold_Cons comp_apply)
qed simp

lemma status_verdict_kept: "status_verdict pr k c = (v, c') \<Longrightarrow> kept c c'"
  using steady_now_kept by (auto simp: status_verdict_def split: if_splits prod.splits)

text \<open>A progress callback only publishes feedback.\<close>

definition only_feedback :: "(bool \<Rightarrow> status \<Rightarrow> controller \<Rightarrow> controller) \<Rightarrow> bool" where
  "only_feedback progress \<longleftrightarrow> (\<forall>a s c. \<exists>fs. progress a s c = c\<lparr>ct_feedback := ct_feedback c @ fs\<rparr>)"

lemma only_feedback_callbacks [simp]:
  "only_feedback no_progress" "only_feedback move_progress" "only_feedback gripper_progress"
  by (auto simp: only_feedback_def no_progress_def move_progress_def gripper_progress_def
      intro: exI [of _ "[]"])

lemma only_feedback_fields:
  assumes "only_feedback progress"
  shows "ct_have_status (progress a s c) = ct_have_status c"
    "ct_current_status (progress a s c) = ct_current_status c"
    "ct_published (progress a s c) = ct_published c" "ct_relayed (progress a s c) = ct_relayed c"
    "ct_have_command (progress a s c) = ct_have_command c"
    "ct_last_command (progress a s c) = ct_last_command c"
proof -
  obtain fs where "progress a s c = c\<lparr>ct_feedback := ct_feedback c @ fs\<rparr>"
    using assms unfolding only_feedback_def by blast
  then show "ct_have_status (progress a s c) = ct_have_status c"
    "ct_current_status (progress a s c) = ct_current_status c"
    "ct_published (progress a s c) = ct_published c" "ct_relayed (progress a s c) = ct_relayed c"
    "ct_have_command (progress a s c) = ct_have_command c"
    "ct_last_command (progress a s c) = ct_last_command c" by simp_all
qed

lemma only_feedback_kept: "only_feedback progress \<Longrightarrow> kept c (progress a s c)"
  unfolding only_feedback_def
  by (drule spec [of _ a], drule spec [of _ s], drule spec [of _ c])
    (auto simp: kept_def grows_def seen_def intro: exI [of _ 0])

section \<open>What a wait establishes\<close>

text \<open>A wait that succeeds ends on a status that satisfies the predicate, is connected, belongs to the
  awaited connection, is the current one, was received, and was fresh at a reading of the clock.\<close>

definition awaited :: "(status \<Rightarrow> bool) \<Rightarrow> u64 \<Rightarrow> controller \<Rightarrow> controller \<Rightarrow> status \<Rightarrow> bool" where
  "awaited predicate connection_id c c' st \<longleftrightarrow>
     predicate st \<and> s_connected st \<and> s_connection_id st = connection_id \<and>
     ct_have_status c' \<and> st = ct_current_status c' \<and>
     (\<exists>k. ct_clock c !! k - ct_last_status_time c' \<le> ct_status_timeout c)"

lemma awaited_kept: "kept c c1 \<Longrightarrow> awaited pr k c1 c' st \<Longrightarrow> awaited pr k c c' st"
  by (auto simp: awaited_def kept_def grows_def sdrop_snth)

lemma status_verdict_success:
  assumes "status_verdict pr k c = (Success, c')" "ct_have_status c"
  shows "awaited pr k c c' (ct_current_status c)"
  using assms
  by (auto simp: status_verdict_def steady_now_def awaited_def Let_def split: if_splits prod.splits
      intro!: exI [of _ 0])

definition wait_post :: "(status \<Rightarrow> bool) \<Rightarrow> u64 \<Rightarrow> controller \<Rightarrow> ((bool \<times> string \<times> status) \<times> controller) \<Rightarrow> bool" where
  "wait_post pr k c q \<longleftrightarrow>
     (case q of ((ok, _, st), c') \<Rightarrow> kept c c' \<and> (ok \<longrightarrow> awaited pr k c c' st))"

lemma wait_post_kept: "kept c c1 \<Longrightarrow> wait_post pr k c1 q \<Longrightarrow> wait_post pr k c q"
  using kept_trans awaited_kept by (fastforce simp: wait_post_def split: prod.splits)

lemma wait_pass_post:
  assumes "wait_pass pr dl k canc prog final c = ((r, final'), c')" "only_feedback prog"
  shows "kept c c'" "r = Some (ok, reason, st) \<Longrightarrow> ok \<Longrightarrow> awaited pr k c c' st"
    "r = None \<Longrightarrow> \<exists>m. ct_clock c !! m < dl \<and> ct_clock c' = sdrop (Suc m) (ct_clock c)"
proof -
  let ?s = "shd (ct_threads c)"
  define c1 where "c1 = thread_events (ts_events ?s) (c\<lparr>ct_threads := stl (ct_threads c)\<rparr>)"
  define c2 where "c2 = (if ct_have_status c1 then prog (ts_active ?s) (ct_current_status c1) c1 else c1)"
  define final1 where "final1 = (if ct_have_status c1 then ct_current_status c1 else final)"
  obtain v c3 where v: "(if ct_have_status c1 then status_verdict pr k c2 else (Go_on, c2)) = (v, c3)"
    by fastforce
  obtain t c4 where t: "steady_now c3 = (t, c4)" by fastforce
  note pass = assms(1) [unfolded wait_pass_def Let_def c1_def [symmetric], folded c2_def final1_def, unfolded v]
  have k1: "kept c c1" unfolding c1_def by (rule kept_trans [OF kept_threads thread_events_kept])
  have k2: "kept c c2" unfolding c2_def using k1 only_feedback_kept [OF assms(2)] kept_trans by simp
  have k3: "kept c c3" using v status_verdict_kept k2 kept_trans by (auto split: if_splits)
  have k4: "kept c c4" using k3 steady_now_kept [OF t] kept_trans by blast
  show "kept c c'" using pass k1 k3 k4 by (auto simp: t split: if_splits verdict.splits)
  have same: "ct_have_status c2 = ct_have_status c1" "ct_current_status c2 = ct_current_status c1"
    using only_feedback_fields [OF assms(2)] by (simp_all add: c2_def)
  show "awaited pr k c c' st" if r: "r = Some (ok, reason, st)" ok
  proof -
    have "v = Success" "c' = c3" "st = final1" "ct_have_status c1" using pass r v
      by (auto simp: t split: if_splits verdict.splits)
    then have "awaited pr k c2 c' (ct_current_status c2)" "st = ct_current_status c2"
      using status_verdict_success [of pr k c2 c3] v same by (auto simp: final1_def)
    then show ?thesis using awaited_kept [OF k2] by simp
  qed
  show "\<exists>m. ct_clock c !! m < dl \<and> ct_clock c' = sdrop (Suc m) (ct_clock c)" if "r = None"
  proof -
    obtain m where m: "ct_clock c3 = sdrop m (ct_clock c)" using k3 by (auto simp: kept_def grows_def)
    have "t < dl" "c' = c4" using pass that by (auto simp: t split: if_splits verdict.splits)
    then show ?thesis using t m by (intro exI [of _ m]) (auto simp: steady_now_def sdrop_simps)
  qed
qed

lemma wait_for_status_post':
  assumes "wait_for_status pr dl k canc prog final c = Some q"
  shows "only_feedback prog \<longrightarrow> wait_post pr k c q"
proof (rule wait_for_status.raw_induct [where P =
      "\<lambda>pr dl k canc prog final c q. only_feedback prog \<longrightarrow> wait_post pr k c q", OF _ assms])
  fix f :: "(status \<Rightarrow> bool) \<Rightarrow> int \<Rightarrow> u64 \<Rightarrow> bool \<Rightarrow> (bool \<Rightarrow> status \<Rightarrow> controller \<Rightarrow> controller) \<Rightarrow>
      status \<Rightarrow> controller \<Rightarrow> ((bool \<times> string \<times> status) \<times> controller) option"
    and pr dl k canc prog final c q
  assume IH: "\<And>pr dl k canc prog final c q. f pr dl k canc prog final c = Some q \<Longrightarrow>
      only_feedback prog \<longrightarrow> wait_post pr k c q"
    and eq: "(case wait_pass pr dl k canc prog final c of
        ((Some r, _), c') \<Rightarrow> Some (r, c')
      | ((None, final'), c') \<Rightarrow> f pr dl k canc prog final' c') = Some q"

  show "only_feedback prog \<longrightarrow> wait_post pr k c q"
  proof
  assume fb: "only_feedback prog"
  obtain r final' c' where p: "wait_pass pr dl k canc prog final c = ((r, final'), c')" 
    by (metis surj_pair)
  note post = wait_pass_post [OF p fb]
  show "wait_post pr k c q"
  proof (cases r)
    case None
    then have "wait_post pr k c' q" using IH eq p fb by simp
    then show ?thesis using wait_post_kept post(1) by blast
  next
    case (Some r')
    then show ?thesis using eq p post by (cases r') (auto simp: wait_post_def)
  qed
  qed
qed

lemmas wait_for_status_post = wait_for_status_post' [rule_format]

text \<open>A wait for a status is sound: when it succeeds, the status it returns satisfies the
  predicate, comes from a connected driver on the awaited connection, is the current status of the
  node, and was not older than the status timeout at a reading of the clock. Waiting only appends to
  the logs and does not release the node.\<close>

theorem wait_for_status_sound:
  assumes "wait_for_status predicate deadline connection_id cancellable progress st0 c = Some ((ok, reason, st), c')"
    and "only_feedback progress"
  shows "kept c c' \<and> (ok \<longrightarrow> predicate st \<and> s_connected st \<and> s_connection_id st = connection_id \<and>
    st = ct_current_status c' \<and> (\<exists>k. ct_clock c !! k - ct_last_status_time c' \<le> ct_status_timeout c))"
  using wait_for_status_post [OF assms] unfolding wait_post_def awaited_def prod.case by blast

section \<open>Every operation returns\<close>

definition steady_runs :: "controller \<Rightarrow> bool" where
  "steady_runs c \<longleftrightarrow> (\<forall>t. \<exists>n. \<forall>m\<ge>n. t \<le> ct_clock c !! m)"

lemma steady_runs_kept:
  assumes "steady_runs c" "kept c c'" shows "steady_runs c'"
  unfolding steady_runs_def
proof
  fix t
  obtain k where k: "ct_clock c' = sdrop k (ct_clock c)" using assms(2) by (auto simp: kept_def grows_def)
  obtain n where "\<forall>m\<ge>n. t \<le> ct_clock c !! m" using assms(1) by (auto simp: steady_runs_def)
  then show "\<exists>n. \<forall>m\<ge>n. t \<le> ct_clock c' !! m" by (auto simp: k sdrop_snth intro!: exI [of _ n])
qed

lemma wait_for_status_returns':
  assumes "only_feedback prog" "\<forall>m\<ge>n. dl \<le> ct_clock c !! m"
  shows "\<exists>q. wait_for_status pr dl k canc prog final c = Some q"
  using assms(2)
proof (induction n arbitrary: c final rule: less_induct)
  case (less n)
  obtain r final' c' where p: "wait_pass pr dl k canc prog final c = ((r, final'), c')"
    by (metis surj_pair)
  show ?case
  proof (cases r)
    case None
    then obtain m where m: "ct_clock c !! m < dl" "ct_clock c' = sdrop (Suc m) (ct_clock c)"
      using wait_pass_post(3) [OF p assms(1)] by blast
    then have mn: "m < n" using less.prems by (metis leD not_le)
    have "\<forall>j\<ge>n - Suc m. dl \<le> ct_clock c' !! j"
    proof (intro allI impI)
      fix j assume "n - Suc m \<le> j"
      then have "n \<le> Suc m + j" by simp
      then show "dl \<le> ct_clock c' !! j" using less.prems unfolding m(2) sdrop_snth by blast
    qed
    from less.IH [OF _ this] mn show ?thesis using None p
      by (subst wait_for_status.simps) simp
  qed (use p in \<open>subst wait_for_status.simps, auto\<close>)
qed

lemma wait_for_status_returns:
  assumes "steady_runs c" "only_feedback prog"
  obtains ok reason st c' where "wait_for_status pr dl k canc prog final c = Some ((ok, reason, st), c')"
    "kept c c'" "ok \<Longrightarrow> awaited pr k c c' st"
proof -
  obtain n where "\<forall>m\<ge>n. dl \<le> ct_clock c !! m" using assms(1) unfolding steady_runs_def by blast
  from wait_for_status_returns' [OF assms(2) this] obtain q where
    w: "wait_for_status pr dl k canc prog final c = Some q" by blast
  then show thesis using that wait_for_status_post [OF w assms(2)]
    by (cases q) (auto simp: wait_post_def)
qed

lemma service_wait_returns:
  assumes "steady_runs c"
  shows "\<exists>q. service_wait pr k st c = Some q"
proof -
  obtain t c1 where t: "steady_now c = (t, c1)" by fastforce
  have "steady_runs c1" using steady_runs_kept [OF assms steady_now_kept [OF t]] .
  then show ?thesis using t
    by (auto simp: service_wait_def elim!: wait_for_status_returns [where prog = no_progress, OF _ only_feedback_callbacks(1)])
qed

lemma service_wait_post:
  assumes "service_wait pr k st c = Some ((ok, reason, st'), c')"
  shows "kept c c'" "ok \<Longrightarrow> awaited pr k c c' st'"
proof -
  obtain t c1 where t: "steady_now c = (t, c1)" by fastforce
  have "wait_post pr k c1 ((ok, reason, st'), c')"
    using assms t by (intro wait_for_status_post [where prog = no_progress]) (auto simp: service_wait_def)
  then have "wait_post pr k c ((ok, reason, st'), c')" using wait_post_kept steady_now_kept [OF t] by blast
  then show "kept c c'" "ok \<Longrightarrow> awaited pr k c c' st'" by (auto simp: wait_post_def)
qed

section \<open>Activation\<close>

definition activation_trace :: "controller \<Rightarrow> controller \<Rightarrow> bool" where
  "activation_trace c c' \<longleftrightarrow>
     (\<exists>k cs1 cs2 s1 s2 r a. ct_published c' =
          ct_published c @ [Command\<lparr>c_command_id := r\<rparr>] @ cs1 @
            [Command\<lparr>c_activate := True, c_mode := activation_mode_byte c, c_command_id := a\<rparr>] @ cs2 \<and>
        r = ct_next_command_id c \<and> a = r + 1 + of_nat (length cs1) \<and>
        (\<forall>s \<in> {s1, s2}. s \<in> set (ct_relayed c') \<and> s_connected s \<and> s_connection_id s = k) \<and>
        reset_done r s1 \<and> activation_done a (activation_mode_byte c) s2)"

lemma awaited_relayed: "awaited pr k c c' st \<Longrightarrow> seen c' \<Longrightarrow> st \<in> set (ct_relayed c')"
  by (auto simp: awaited_def seen_def)

lemma kept_seen: "kept c c' \<Longrightarrow> seen c \<Longrightarrow> seen c'"
  by (simp add: kept_def)

lemma kept_relayed: "kept c c' \<Longrightarrow> set (ct_relayed c) \<subseteq> set (ct_relayed c')"
  by (auto simp: kept_def grows_def)

lemma kept_published:
  assumes "kept c c'"
  obtains cs where "ct_published c' = ct_published c @ cs"
    "ct_next_command_id c' = ct_next_command_id c + of_nat (length cs)"
  using assms by (auto simp: kept_def grows_def)

lemma kept_mode_byte: "kept c c' \<Longrightarrow> activation_mode_byte c' = activation_mode_byte c"
  by (simp add: kept_def grows_def activation_mode_byte_def)

lemma publish_command_facts:
  assumes "publish_command cmd c = (i, c')"
  shows "i = ct_next_command_id c" "ct_next_command_id c' = ct_next_command_id c + 1"
    "ct_published c' = ct_published c @ [cmd\<lparr>c_command_id := ct_next_command_id c\<rparr>]"
    "ct_relayed c' = ct_relayed c" "ct_busy c' = ct_busy c"
  using assms by (auto simp: publish_command_def Let_def)

lemma current_status_logs:
  assumes "current_status c = (r, c')"
  shows "ct_published c' = ct_published c" "ct_next_command_id c' = ct_next_command_id c"
    "ct_relayed c' = ct_relayed c" "ct_busy c' = ct_busy c"
  using assms by (auto simp: current_status_def steady_now_def split: if_splits)

lemma activate_guarded_trace:
  assumes a: "activate_guarded c = Some ((True, msg), c')" and s: "seen c"
  shows "activation_trace c c'"
proof -
  obtain st c1 where 1: "current_status c = (Inr st, c1)"
    using a by (auto simp: activate_guarded_def split: prod.splits sum.splits)
  obtain r c2 where 2: "publish_command Command c1 = (r, c2)" by fastforce
  obtain m st1 c3 where 3: "service_wait (reset_done r) (s_connection_id st) st c2 = Some ((True, m, st1), c3)"
    using a by (auto simp: activate_guarded_def 1 2 split: prod.splits option.splits bool.splits)
  let ?act = "Command\<lparr>c_activate := True, c_mode := activation_mode_byte c3\<rparr>"
  obtain i c4 where 4: "publish_command ?act c3 = (i, c4)" by fastforce
  obtain m' st2 where 5: "service_wait (activation_done i (activation_mode_byte c4)) (s_connection_id st) st1 c4 =
      Some ((True, m', st2), c')"
    using a by (auto simp: activate_guarded_def 1 2 3 4 split: prod.splits option.splits bool.splits)
  note k1 = current_status_kept [OF 1] and k2 = publish_command_kept [OF 2]
    and k3 = service_wait_post(1) [OF 3] and k4 = publish_command_kept [OF 4] and k5 = service_wait_post(1) [OF 5]
  have seen: "seen c3" "seen c'" using s k1 k2 k3 k4 k5 kept_seen by blast+
  have mode: "activation_mode_byte c3 = activation_mode_byte c" "activation_mode_byte c4 = activation_mode_byte c"
    using k1 k2 k3 k4 by (simp_all add: kept_mode_byte)
  obtain cs1 where cs1: "ct_published c3 = ct_published c2 @ cs1"
    "ct_next_command_id c3 = ct_next_command_id c2 + of_nat (length cs1)" using kept_published [OF k3] .
  obtain cs2 where cs2: "ct_published c' = ct_published c4 @ cs2" using kept_published [OF k5] by metis
  note p2 = publish_command_facts [OF 2] current_status_logs [OF 1] and p4 = publish_command_facts [OF 4]
  have w1: "awaited (reset_done r) (s_connection_id st) c2 c3 st1" using service_wait_post(2) [OF 3] by simp
  have w2: "awaited (activation_done i (activation_mode_byte c)) (s_connection_id st) c4 c' st2"
    using service_wait_post(2) [OF 5] by (simp add: mode)
  have r1: "st1 \<in> set (ct_relayed c')"
    using awaited_relayed [OF w1 seen(1)] kept_relayed [OF k4] kept_relayed [OF k5] by blast
  have r2: "st2 \<in> set (ct_relayed c')" using awaited_relayed [OF w2 seen(2)] .
  have pub: "ct_published c' = ct_published c @ [Command\<lparr>c_command_id := r\<rparr>] @ cs1 @
      [Command\<lparr>c_activate := True, c_mode := activation_mode_byte c, c_command_id := i\<rparr>] @ cs2"
    by (simp add: cs2 p4 cs1(1) p2 mode)
  have ids: "r = ct_next_command_id c" "i = r + 1 + of_nat (length cs1)" using p2 p4 cs1(2) by simp_all
  have st: "\<forall>s \<in> {st1, st2}. s \<in> set (ct_relayed c') \<and> s_connected s \<and> s_connection_id s = s_connection_id st"
    using r1 r2 w1 w2 unfolding awaited_def by blast
  have both: "reset_done r st1" "activation_done i (activation_mode_byte c) st2"
    using w1 w2 unfolding awaited_def by blast+
  show ?thesis unfolding activation_trace_def using pub ids st both by blast
qed

lemma exclusive_result:
  assumes "exclusive body c = Some ((ok, msg), c')"
  shows "ct_busy c \<Longrightarrow> \<not> ok \<and> c' = c" "\<not> ct_busy c \<Longrightarrow> \<not> ct_busy c'"
    "ok \<Longrightarrow> \<not> ct_busy c \<and> (\<exists>c1. body (c\<lparr>ct_busy := True\<rparr>) = Some ((True, msg), c1) \<and> c' = release c1)"
proof -
  have same: "ct_busy c \<Longrightarrow> c\<lparr>ct_busy := True\<rparr> = c" by (cases c) simp
  show "ct_busy c \<Longrightarrow> \<not> ok \<and> c' = c" using assms same by (auto simp: exclusive_def begin_operation_def)
  show "\<not> ct_busy c \<Longrightarrow> \<not> ct_busy c'"
    "ok \<Longrightarrow> \<not> ct_busy c \<and> (\<exists>c1. body (c\<lparr>ct_busy := True\<rparr>) = Some ((True, msg), c1) \<and> c' = release c1)"
    using assms by (auto simp: exclusive_def begin_operation_def guarded_def release_def split: bool.splits)
qed

lemma activation_facts:
  assumes "activate c = Some ((True, msg), c')" and "seen c"
  shows "\<not> ct_busy c \<and> \<not> ct_busy c' \<and>
    (\<exists>k cs1 cs2 s1 s2 r a. ct_published c' =
        ct_published c @ [Command\<lparr>c_command_id := r\<rparr>] @ cs1 @
          [Command\<lparr>c_activate := True, c_mode := activation_mode_byte c, c_command_id := a\<rparr>] @ cs2 \<and>
      r = ct_next_command_id c \<and> a = r + 1 + of_nat (length cs1) \<and>
      (\<forall>s \<in> {s1, s2}. s \<in> set (ct_relayed c') \<and> s_connected s \<and> s_connection_id s = k) \<and>
      reset_done r s1 \<and> activation_done a (activation_mode_byte c) s2)"
proof -
  from exclusive_result [OF assms(1) [unfolded activate_def]]
  obtain c1 where c1: "activate_guarded (c\<lparr>ct_busy := True\<rparr>) = Some ((True, msg), c1)" "c' = release c1"
    and b: "\<not> ct_busy c" "\<not> ct_busy c'" by blast
  have "seen (c\<lparr>ct_busy := True\<rparr>)" using assms(2) by (simp add: seen_def)
  from activate_guarded_trace [OF c1(1) this] b show ?thesis
    by (simp add: activation_trace_def c1(2) release_def activation_mode_byte_def)
qed

text \<open>The first half of \<^verbatim>\<open>activate\<close>, up to the return of its wait for the reset: where it succeeds,
  the status the wait ended on and the node at that moment.\<close>

definition reset_phase :: "controller \<Rightarrow> (status \<times> controller) option" where
  "reset_phase c =
     (case begin_operation c of
        (False, _) \<Rightarrow> None
      | (True, c0) \<Rightarrow>
          (case current_status c0 of
             (Inl _, _) \<Rightarrow> None
           | (Inr status, c1) \<Rightarrow>
               (case publish_command Command c1 of (reset_command_id, c2) \<Rightarrow>
                case service_wait (reset_done reset_command_id) (s_connection_id status) status c2 of
                  Some ((True, _, status1), c3) \<Rightarrow> Some (status1, c3)
                | _ \<Rightarrow> None)))"

text \<open>The second half starts from there: it publishes the activation command and waits for it.\<close>

lemma activation_halves:
  assumes "activate c = Some ((True, msg), c')"
  obtains s1 c1 i c2 m s2 c3 where "reset_phase c = Some (s1, c1)"
    "publish_command (Command\<lparr>c_activate := True, c_mode := activation_mode_byte c1\<rparr>) c1 = (i, c2)"
    "service_wait (activation_done i (activation_mode_byte c2)) (s_connection_id s1) s1 c2 = Some ((True, m, s2), c3)"
    "c' = release c3"
proof -
  obtain c0 c3 where b: "begin_operation c = (True, c0)" "activate_guarded c0 = Some ((True, msg), c3)" "c' = release c3"
    using assms by (auto simp: activate_def exclusive_def guarded_def split: prod.splits bool.splits)
  obtain st d1 where 1: "current_status c0 = (Inr st, d1)"
    using b(2) by (auto simp: activate_guarded_def split: prod.splits sum.splits)
  obtain r d2 where 2: "publish_command Command d1 = (r, d2)" by fastforce
  obtain m s1 c1 where 3: "service_wait (reset_done r) (s_connection_id st) st d2 = Some ((True, m, s1), c1)"
    using b(2) by (auto simp: activate_guarded_def 1 2 split: prod.splits option.splits bool.splits)
  obtain i c2 where 4: "publish_command (Command\<lparr>c_activate := True, c_mode := activation_mode_byte c1\<rparr>) c1 = (i, c2)"
    by fastforce
  have "s_connection_id s1 = s_connection_id st" using service_wait_post(2) [OF 3] unfolding awaited_def by blast
  moreover obtain m' s2 where "service_wait (activation_done i (activation_mode_byte c2)) (s_connection_id st) s1 c2 =
      Some ((True, m', s2), c3)"
    using b(2) by (auto simp: activate_guarded_def 1 2 3 4 split: prod.splits option.splits bool.splits)
  moreover have "reset_phase c = Some (s1, c1)" by (simp add: reset_phase_def b(1) 1 2 3)
  ultimately show thesis using that 4 b(3) by simp
qed

lemma reset_phase_facts:
  assumes "reset_phase c = Some (s1, c1)" "seen c"
  defines "r \<equiv> ct_next_command_id c"
  obtains cs where "ct_published c1 = ct_published c @ [Command\<lparr>c_command_id := r\<rparr>] @ cs"
    "ct_next_command_id c1 = r + 1 + of_nat (length cs)" "kept c c1" "seen c1" "s1 \<in> set (ct_relayed c1)" "s_connected s1" "reset_done r s1"
proof -
  obtain c0 st d1 where 0: "begin_operation c = (True, c0)" and 1: "current_status c0 = (Inr st, d1)"
    using assms(1) by (auto simp: reset_phase_def split: prod.splits bool.splits sum.splits)
  obtain i d2 where 2: "publish_command Command d1 = (i, d2)" by fastforce
  obtain m where 3: "service_wait (reset_done i) (s_connection_id st) st d2 = Some ((True, m, s1), c1)"
    using assms(1) by (auto simp: reset_phase_def 0 1 2 split: prod.splits bool.splits option.splits)
  have c0: "c0 = c\<lparr>ct_busy := True\<rparr>" using 0 by (simp add: begin_operation_def)
  have k0: "kept c c0" unfolding c0 by (rule kept_flags)
  note k1 = current_status_kept [OF 1] and k2 = publish_command_kept [OF 2] and k3 = service_wait_post(1) [OF 3]
  note p1 = current_status_logs [OF 1] and p2 = publish_command_facts [OF 2]
  have k: "kept c c1" using k0 k1 k2 k3 kept_trans by blast
  have s: "seen c1" using kept_seen [OF k assms(2)] .
  have w: "awaited (reset_done i) (s_connection_id st) d2 c1 s1" using service_wait_post(2) [OF 3] by simp
  obtain cs where cs: "ct_published c1 = ct_published d2 @ cs"
    "ct_next_command_id c1 = ct_next_command_id d2 + of_nat (length cs)" using kept_published [OF k3] .
  have i: "i = r" using p1 p2 by (simp add: r_def c0)
  show thesis
  proof (rule that [of cs])
    show "ct_published c1 = ct_published c @ [Command\<lparr>c_command_id := r\<rparr>] @ cs"
      "ct_next_command_id c1 = r + 1 + of_nat (length cs)" using cs p1 p2 i by (simp_all add: c0 r_def)
    show "s1 \<in> set (ct_relayed c1)" using awaited_relayed [OF w s] .
    show "s_connected s1" "reset_done r s1" using w unfolding awaited_def i by blast+
  qed (fact k s)+
qed

lemma activation_after_reset:
  assumes "activate c = Some ((True, msg), c')" "seen c" "reset_phase c = Some (s1, c1)"
  defines "a \<equiv> ct_next_command_id c1" and "mode \<equiv> activation_mode_byte c"
  obtains cs s2 where
    "ct_published c' = ct_published c1 @ [Command\<lparr>c_activate := True, c_mode := mode, c_command_id := a\<rparr>] @ cs"
    "set (ct_relayed c1) \<subseteq> set (ct_relayed c')" "s2 \<in> set (ct_relayed c')" "s_connected s2"
    "s_connection_id s2 = s_connection_id s1" "activation_done a mode s2"
proof -
  obtain cs0 where r: "kept c c1" "seen c1" using reset_phase_facts [OF assms(3,2)] by metis
  obtain i c2 m s2 c3 where
    4: "publish_command (Command\<lparr>c_activate := True, c_mode := activation_mode_byte c1\<rparr>) c1 = (i, c2)" and
    5: "service_wait (activation_done i (activation_mode_byte c2)) (s_connection_id s1) s1 c2 = Some ((True, m, s2), c3)" and
    c': "c' = release c3"
    using activation_halves [OF assms(1)] assms(3) by (metis option.inject prod.inject)
  note k4 = publish_command_kept [OF 4] and k5 = service_wait_post(1) [OF 5] and p4 = publish_command_facts [OF 4]
  have mode: "activation_mode_byte c1 = mode" "activation_mode_byte c2 = mode"
    using r(1) k4 by (simp_all add: mode_def kept_mode_byte)
  have w: "awaited (activation_done i mode) (s_connection_id s1) c2 c3 s2"
    using service_wait_post(2) [OF 5] by (simp add: mode)
  obtain cs where "ct_published c3 = ct_published c2 @ cs" using kept_published [OF k5] by metis
  then have "ct_published c' = ct_published c1 @ [Command\<lparr>c_activate := True, c_mode := mode, c_command_id := a\<rparr>] @ cs"
    by (simp add: c' release_def p4 mode a_def)
  moreover have "set (ct_relayed c1) \<subseteq> set (ct_relayed c')"
    using kept_relayed [OF k4] kept_relayed [OF k5] by (auto simp: c' release_def)
  moreover have "s2 \<in> set (ct_relayed c')"
    using awaited_relayed [OF w] kept_seen [OF k5 kept_seen [OF k4 r(2)]] by (simp add: c' release_def)
  moreover have "s_connected s2" "s_connection_id s2 = s_connection_id s1" "activation_done a mode s2"
    using w unfolding awaited_def p4(1) a_def by blast+
  ultimately show thesis by (rule that)
qed

text \<open>A successful activation really reset the gripper and then activated it: the node was not
  busy, it published the all-default command and later the activation command in the configured
  mode, under fresh identifiers, and it received, from a connected driver on one and the same
  connection, a status that acknowledges the first with the gripper reset and one that acknowledges
  the second with the gripper ready in that mode.\<close>

theorem activation_resets_then_activates:
  assumes "activate c = Some ((True, msg), c')" and "seen c"
  shows "\<not> ct_busy c \<and> \<not> ct_busy c' \<and>
    (\<exists>k cs1 cs2 s1 s2 r a. ct_published c' =
        ct_published c @ [Command\<lparr>c_command_id := r\<rparr>] @ cs1 @
          [Command\<lparr>c_activate := True, c_mode := activation_mode_byte c, c_command_id := a\<rparr>] @ cs2 \<and>
      r = ct_next_command_id c \<and> a = r + 1 + of_nat (length cs1) \<and>
      (\<forall>s \<in> {s1, s2}. s \<in> set (ct_relayed c') \<and> s_connected s \<and> s_connection_id s = k) \<and>
      reset_done r s1 \<and> activation_done a (activation_mode_byte c) s2)"
  by (rule activation_facts [OF assms])

section \<open>One operation at a time\<close>

lemma wait_kept:
  assumes "wait_for_status pr dl k canc prog final c = Some ((ok, reason, st), c')" "only_feedback prog"
  shows "kept c c'"
  using wait_for_status_post [OF assms] by (simp add: wait_post_def)

lemma stop_if_connected_kept: "stop_if_connected st k cmd c = (b, c') \<Longrightarrow> kept c c'"
  using publish_command_kept by (auto simp: stop_if_connected_def split: if_splits) (metis prod.collapse)

lemma is_canceling_kept: "is_canceling c = (b, c') \<Longrightarrow> kept c c'"
  by (auto simp: is_canceling_def)

lemma finish_kept:
  "move_finish fin reason st k cmd c = (q, c') \<Longrightarrow> kept c c'"
  "gripper_finish fin st k cmd c = (q2, c') \<Longrightarrow> kept c c'"
  by (auto simp: move_finish_def gripper_finish_def Let_def split: if_splits prod.splits
      dest!: stop_if_connected_kept is_canceling_kept intro: kept_trans)

lemma activate_guarded_kept: "activate_guarded c = Some (r, c') \<Longrightarrow> kept c c'"
  by (auto simp: activate_guarded_def split: sum.splits prod.splits option.splits bool.splits
      dest!: current_status_kept publish_command_kept service_wait_post(1))
    (blast intro: kept_trans)+

lemma deactivate_guarded_kept: "deactivate_guarded c = Some (r, c') \<Longrightarrow> kept c c'"
  by (auto simp: deactivate_guarded_def split: sum.splits prod.splits option.splits bool.splits
      dest!: current_status_kept publish_command_kept service_wait_post(1))
    (blast intro: kept_trans)+

lemma move_guarded_kept:
  assumes "move_guarded goal c = Some (r, c')" shows "kept c c'"
proof -
  obtain q c1 where 1: "current_status c = (q, c1)" by fastforce
  note k1 = current_status_kept [OF 1]
  show ?thesis
  proof (cases q)
    case (Inl e)
    then show ?thesis using assms 1 k1 by (simp add: move_guarded_def)
  next
    case (Inr st)
    obtain i c2 where 2: "publish_command (move_command goal) c1 = (i, c2)" by fastforce
    obtain t c3 where 3: "steady_now c2 = (t, c3)" by fastforce
    have k3: "kept c c3" using k1 publish_command_kept [OF 2] steady_now_kept [OF 3] kept_trans by blast
    show ?thesis using assms k1 k3
      by (auto simp: move_guarded_def 1 Inr 2 3 split: if_splits option.splits prod.splits
          dest!: wait_kept [OF _ only_feedback_callbacks(2)] finish_kept(1)) (blast intro: kept_trans)
  qed
qed

lemma gripper_guarded_kept:
  assumes "gripper_guarded p e c = Some (r, c')" shows "kept c c'"
proof -
  obtain q c1 where 1: "current_status c = (q, c1)" by fastforce
  note k1 = current_status_kept [OF 1]
  show ?thesis
  proof (cases q)
    case (Inl e)
    then show ?thesis using assms 1 k1 by (simp add: gripper_guarded_def)
  next
    case (Inr st)
    have k3: "kept c c3" if "publish_command cmd c1 = (i, c2)" "steady_now c2 = (t, c3)" for cmd i c2 t c3
      using k1 publish_command_kept [OF that(1)] steady_now_kept [OF that(2)] kept_trans by blast
    show ?thesis using assms k1 k3
      by (auto simp: gripper_guarded_def 1 Inr Let_def split: if_splits option.splits prod.splits
          dest!: wait_kept [OF _ only_feedback_callbacks(3)] finish_kept(2)) (blast intro: kept_trans)
  qed
qed

lemma busy_same: "ct_busy c \<Longrightarrow> c\<lparr>ct_busy := True\<rparr> = c"
  by (cases c) simp

text \<open>One operation at a time: while the node is busy, \<^verbatim>\<open>activate\<close> and \<^verbatim>\<open>deactivate\<close> are
  refused and new goals are rejected, without any effect; what other threads do while an operation
  waits never releases the node; and every operation releases it on every path.\<close>

theorem operations_are_exclusive:
  "(ct_busy c \<longrightarrow>
     activate c = Some ((False, ''another gripper operation is active''), c) \<and>
     deactivate c = Some ((False, ''another gripper operation is active''), c) \<and>
     handle_move_goal goal c = (REJECT, c) \<and> handle_gripper_command_goal position effort c = (REJECT, c) \<and>
     ct_busy (thread_events es c)) \<and>
   (\<not> ct_busy c \<longrightarrow> activate c = Some (r, c') \<or> deactivate c = Some (r, c') \<longrightarrow> \<not> ct_busy c') \<and>
   (execute_move goal c = Some (r1, c') \<or> execute_gripper_command position effort c = Some (r2, c') \<longrightarrow>
     \<not> ct_busy c')"
proof -
  have "ct_busy (thread_events es c)" if "ct_busy c"
    using thread_events_kept [of c es] that by (simp add: kept_def)
  moreover have "\<not> ct_busy c'" if "\<not> ct_busy c" "activate c = Some (r, c') \<or> deactivate c = Some (r, c')"
    using that exclusive_result(2) unfolding activate_def deactivate_def by (cases r) blast
  moreover have "\<not> ct_busy c'" if "guarded body c = Some (q, c')" for body :: "controller \<Rightarrow> ('q \<times> controller) option" and q
    using that by (auto simp: guarded_def release_def)
  ultimately show ?thesis
    by (auto simp: busy_same activate_def deactivate_def exclusive_def begin_operation_def handle_move_goal_def
        handle_gripper_command_goal_def Let_def execute_move_def execute_gripper_command_def guarded_def release_def)
qed

end
