(* ===== verification/Controller_Commands.thy ===== *)
theory Controller_Commands
  imports Controller_Node
begin

text \<open>
  What the 3F controller node publishes: the identifiers of its commands, and that every command
  passes the validation of the driver node. The invariants are kept by every operation and by
  everything other threads do while an operation waits.
\<close>

section \<open>Identifiers and validity of the published commands\<close>

definition ids_inv :: "controller \<Rightarrow> bool" where
  "ids_inv c \<longleftrightarrow> ct_next_command_id c = of_nat (Suc (length (ct_published c))) \<and>
     map c_command_id (ct_published c) = map of_nat [1..<Suc (length (ct_published c))]"

definition safe_command :: "command \<Rightarrow> bool" where
  "safe_command cmd \<longleftrightarrow> c_mode cmd \<le> MODE_SCISSOR \<and> \<not> c_automatic_release cmd"

definition safe_inv :: "controller \<Rightarrow> bool" where
  "safe_inv c \<longleftrightarrow> (\<forall>cmd \<in> set (ct_published c). safe_command cmd) \<and>
     (ct_have_command c \<longrightarrow> safe_command (ct_last_command c)) \<and>
     (ct_have_status c \<longrightarrow> s_mode (ct_current_status c) \<le> MODE_SCISSOR)"

definition published_inv :: "controller \<Rightarrow> bool" where
  "published_inv c \<longleftrightarrow> ids_inv c \<and> safe_inv c"

lemma publish_published_inv:
  assumes "published_inv c" "safe_command cmd" "publish_command cmd c = (i, c')"
  shows "published_inv c'"
  using assms by (auto simp: published_inv_def ids_inv_def safe_inv_def safe_command_def publish_command_def Let_def)

text \<open>Steps that leave the fields of the invariant alone keep it.\<close>

lemma published_inv_cong:
  assumes "published_inv c" "ct_published c' = ct_published c" "ct_next_command_id c' = ct_next_command_id c"
    "ct_have_command c' = ct_have_command c" "ct_last_command c' = ct_last_command c"
    "ct_have_status c' = ct_have_status c" "ct_current_status c' = ct_current_status c"
  shows "published_inv c'"
  using assms by (simp add: published_inv_def ids_inv_def safe_inv_def)

lemma steady_now_published_inv: "published_inv c \<Longrightarrow> steady_now c = (t, c') \<Longrightarrow> published_inv c'"
  by (rule published_inv_cong [of c]) (auto simp: steady_now_def)

lemma current_status_published_inv:
  assumes "published_inv c" "current_status c = (q, c')"
  shows "published_inv c'" "q = Inr st \<Longrightarrow> s_mode st \<le> MODE_SCISSOR"
    "q = Inr st \<Longrightarrow> ct_have_command c' \<Longrightarrow> safe_command (ct_last_command c')"
  using assms steady_now_published_inv [of c]
  by (auto simp: current_status_def published_inv_def safe_inv_def split: if_splits prod.splits)

lemma stop_published_inv:
  assumes "published_inv c" "stop c = (r, c')"
  shows "published_inv c'"
proof -
  obtain q c1 where 1: "current_status c = (q, c1)" by fastforce
  note inv = current_status_published_inv [OF assms(1) 1]
  show ?thesis
  proof (cases q)
    case (Inr st)
    have "safe_command (stop_command st c1)"
      using inv(2,3) [OF Inr] by (auto simp: stop_command_def safe_command_def Command_def)
    then show ?thesis using assms(2) Inr 1 publish_published_inv [OF inv(1)]
      by (auto simp: stop_def split: prod.splits) (metis prod.collapse)
  qed (use assms 1 inv in \<open>auto simp: stop_def\<close>)
qed

text \<open>The statuses that other threads deliver have a mode in range, as the driver's do.\<close>

definition event_ok :: "thread_event \<Rightarrow> bool" where
  "event_ok e \<longleftrightarrow> (\<forall>s. e = Status_received s \<longrightarrow> s_mode s \<le> MODE_SCISSOR)"

definition statuses_ok :: "controller \<Rightarrow> bool" where
  "statuses_ok c \<longleftrightarrow> (\<forall>n. \<forall>e \<in> set (ts_events (ct_threads c !! n)). event_ok e)"

definition ctl_inv :: "controller \<Rightarrow> bool" where
  "ctl_inv c \<longleftrightarrow> published_inv c \<and> statuses_ok c"

lemma unpacked_status_event_ok: "event_ok (Status_received (unpack_status img))"
  by (simp add: event_ok_def MODE_SCISSOR_def)

lemma statuses_ok_stl:
  assumes "statuses_ok c" "ct_threads c' = stl (ct_threads c)"
  shows "statuses_ok c'"
  unfolding statuses_ok_def
proof
  fix n
  show "\<forall>e \<in> set (ts_events (ct_threads c' !! n)). event_ok e"
    using assms(1) [unfolded statuses_ok_def, rule_format, of _ "Suc n"] assms(2) by simp
qed

lemma on_thread_event_published_inv:
  assumes "published_inv c" "event_ok e" shows "published_inv (on_thread_event e c)"
proof (cases e)
  case (Status_received s)
  then show ?thesis using assms
    by (auto simp: receive_status_def steady_now_def published_inv_def ids_inv_def safe_inv_def event_ok_def)
next
  case Stop_called
  then show ?thesis using stop_published_inv [OF assms(1)] by (cases "stop c") simp
qed (use assms in \<open>auto simp: begin_operation_def handle_move_goal_def handle_gripper_command_goal_def Let_def
      intro: published_inv_cong\<close>)

lemma thread_events_published_inv:
  "published_inv c \<Longrightarrow> \<forall>e \<in> set es. event_ok e \<Longrightarrow> published_inv (thread_events es c)"
  unfolding thread_events_def by (induction es arbitrary: c) (auto intro: on_thread_event_published_inv)

lemma status_verdict_published_inv:
  "published_inv c \<Longrightarrow> status_verdict pr k c = (v, c') \<Longrightarrow> published_inv c'"
  using steady_now_published_inv by (auto simp: status_verdict_def split: if_splits prod.splits)

lemma steady_now_threads: "steady_now c = (t, c') \<Longrightarrow> ct_threads c' = ct_threads c"
  by (auto simp: steady_now_def)

lemma current_status_threads: "current_status c = (q, c') \<Longrightarrow> ct_threads c' = ct_threads c"
  using steady_now_threads by (auto simp: current_status_def split: if_splits prod.splits)

lemma publish_command_threads: "publish_command cmd c = (i, c') \<Longrightarrow> ct_threads c' = ct_threads c"
  by (auto simp: publish_command_def Let_def)

lemma on_thread_event_threads [simp]: "ct_threads (on_thread_event e c) = ct_threads c"
proof (cases e)
  case Stop_called
  obtain q c1 where "current_status c = (q, c1)" by fastforce
  then show ?thesis using Stop_called current_status_threads publish_command_threads
    by (cases q) (auto simp: stop_def split: prod.splits, metis prod.collapse)
qed (auto simp: receive_status_def steady_now_def begin_operation_def handle_move_goal_def
       handle_gripper_command_goal_def Let_def)

lemma thread_events_threads [simp]: "ct_threads (thread_events es c) = ct_threads c"
  unfolding thread_events_def by (induction es arbitrary: c) auto

lemma only_feedback_inv:
  assumes "only_feedback prog" "published_inv c"
  shows "published_inv (prog a s c)" "ct_threads (prog a s c) = ct_threads c"
proof -
  obtain fs where "prog a s c = c\<lparr>ct_feedback := ct_feedback c @ fs\<rparr>"
    using assms unfolding only_feedback_def by blast
  then show "published_inv (prog a s c)" "ct_threads (prog a s c) = ct_threads c"
    using assms(2) by (auto intro: published_inv_cong)
qed

lemma wait_pass_ctl_inv:
  assumes "wait_pass pr dl k canc prog final c = ((r, final'), c')" "only_feedback prog" "ctl_inv c"
  shows "ctl_inv c'"
proof -
  let ?s = "shd (ct_threads c)"
  define c1 where "c1 = thread_events (ts_events ?s) (c\<lparr>ct_threads := stl (ct_threads c)\<rparr>)"
  define c2 where "c2 = (if ct_have_status c1 then prog (ts_active ?s) (ct_current_status c1) c1 else c1)"
  obtain v c3 where v: "(if ct_have_status c1 then status_verdict pr k c2 else (Go_on, c2)) = (v, c3)"
    by fastforce
  obtain t c4 where t: "steady_now c3 = (t, c4)" by fastforce
  have ok: "\<forall>e \<in> set (ts_events ?s). event_ok e" "published_inv (c\<lparr>ct_threads := stl (ct_threads c)\<rparr>)"
    using assms(3) by (auto simp: ctl_inv_def statuses_ok_def intro: published_inv_cong dest: spec [of _ 0])
  have p1: "published_inv c1" "ct_threads c1 = stl (ct_threads c)"
    using thread_events_published_inv [OF ok(2,1)] by (simp_all add: c1_def)
  have p2: "published_inv c2" "ct_threads c2 = ct_threads c1"
    using only_feedback_inv [OF assms(2) p1(1)] p1(1) by (simp_all add: c2_def)
  have p3: "published_inv c3" "ct_threads c3 = ct_threads c2"
    using v p2 status_verdict_published_inv steady_now_threads
    by (auto simp: status_verdict_def split: if_splits prod.splits)
  have p4: "published_inv c4" "ct_threads c4 = ct_threads c3"
    using steady_now_published_inv [OF p3(1) t] steady_now_threads [OF t] by simp_all
  have "c' = c1 \<or> c' = c3 \<or> c' = c4"
    using assms(1) [unfolded wait_pass_def Let_def c1_def [symmetric], folded c2_def, unfolded v]
    by (auto simp: t split: if_splits verdict.splits)
  then show ?thesis
    using p1 p2(2) p3 p4 assms(3) statuses_ok_stl unfolding ctl_inv_def by metis
qed

lemma wait_for_status_ctl_inv':
  assumes "wait_for_status pr dl k canc prog final c = Some q"
  shows "only_feedback prog \<longrightarrow> ctl_inv c \<longrightarrow> ctl_inv (snd q)"
proof (rule wait_for_status.raw_induct [where P =
      "\<lambda>pr dl k canc prog final c q. only_feedback prog \<longrightarrow> ctl_inv c \<longrightarrow> ctl_inv (snd q)", OF _ assms])
  fix f :: "(status \<Rightarrow> bool) \<Rightarrow> int \<Rightarrow> u64 \<Rightarrow> bool \<Rightarrow> (bool \<Rightarrow> status \<Rightarrow> controller \<Rightarrow> controller) \<Rightarrow>
      status \<Rightarrow> controller \<Rightarrow> ((bool \<times> string \<times> status) \<times> controller) option"
    and pr dl k canc prog final c q
  assume IH: "\<And>pr dl k canc prog final c q. f pr dl k canc prog final c = Some q \<Longrightarrow>
      only_feedback prog \<longrightarrow> ctl_inv c \<longrightarrow> ctl_inv (snd q)"
    and eq: "(case wait_pass pr dl k canc prog final c of
        ((Some r, _), c') \<Rightarrow> Some (r, c')
      | ((None, final'), c') \<Rightarrow> f pr dl k canc prog final' c') = Some q"
  obtain r final' c' where p: "wait_pass pr dl k canc prog final c = ((r, final'), c')"
    by (metis surj_pair)
  show "only_feedback prog \<longrightarrow> ctl_inv c \<longrightarrow> ctl_inv (snd q)"
    using wait_pass_ctl_inv [OF p] eq IH by (cases r) (auto simp: p)
qed

lemmas wait_for_status_ctl_inv = wait_for_status_ctl_inv' [rule_format]

section \<open>The operations keep the invariant\<close>

lemma ctl_inv_same:
  assumes "ctl_inv c" "published_inv c'" "ct_threads c' = ct_threads c" shows "ctl_inv c'"
  using assms by (simp add: ctl_inv_def statuses_ok_def)

lemma steady_now_ctl_inv: "ctl_inv c \<Longrightarrow> steady_now c = (t, c') \<Longrightarrow> ctl_inv c'"
  using ctl_inv_same steady_now_published_inv steady_now_threads by (metis ctl_inv_def)

lemma current_status_ctl_inv: "ctl_inv c \<Longrightarrow> current_status c = (q, c') \<Longrightarrow> ctl_inv c'"
  using ctl_inv_same current_status_published_inv(1) current_status_threads by (metis ctl_inv_def)

lemma publish_ctl_inv:
  "ctl_inv c \<Longrightarrow> safe_command cmd \<Longrightarrow> publish_command cmd c = (i, c') \<Longrightarrow> ctl_inv c'"
  using ctl_inv_same publish_published_inv publish_command_threads by (metis ctl_inv_def)

lemma service_wait_ctl_inv:
  assumes "ctl_inv c" "service_wait pr k st c = Some (q, c')" shows "ctl_inv c'"
proof -
  obtain t c1 where t: "steady_now c = (t, c1)" by fastforce
  then show ?thesis
    using assms wait_for_status_ctl_inv [where prog = no_progress] steady_now_ctl_inv [OF assms(1) t]
    by (fastforce simp: service_wait_def)
qed

lemma safe_commands [simp]:
  "safe_command Command"
  "safe_command (move_command goal) \<longleftrightarrow> mg_mode goal \<le> MODE_SCISSOR"
  "safe_command (gripper_command p s e)"
  "safe_command (cmd\<lparr>c_go_to := g\<rparr>) = safe_command cmd"
  "safe_command (Command\<lparr>c_activate := True, c_mode := m\<rparr>) \<longleftrightarrow> m \<le> MODE_SCISSOR"
  by (simp_all add: safe_command_def Command_def move_command_def gripper_command_def MODE_SCISSOR_def MODE_PINCH_def)

lemma stop_if_connected_ctl_inv:
  "ctl_inv c \<Longrightarrow> safe_command cmd \<Longrightarrow> stop_if_connected st k cmd c = (b, c') \<Longrightarrow> ctl_inv c'"
  by (auto simp: stop_if_connected_def split: if_splits) (metis publish_ctl_inv prod.collapse safe_commands(4))

lemma is_canceling_ctl_inv: "ctl_inv c \<Longrightarrow> is_canceling c = (b, c') \<Longrightarrow> ctl_inv c'"
  by (auto simp: is_canceling_def ctl_inv_def intro: published_inv_cong statuses_ok_stl)

lemma finish_ctl_inv:
  "ctl_inv c \<Longrightarrow> safe_command cmd \<Longrightarrow> move_finish fin reason st k cmd c = (q, c') \<Longrightarrow> ctl_inv c'"
  "ctl_inv c \<Longrightarrow> safe_command cmd \<Longrightarrow> gripper_finish fin st k cmd c = (q2, c') \<Longrightarrow> ctl_inv c'"
  by (auto simp: move_finish_def gripper_finish_def Let_def split: if_splits prod.splits
      dest: stop_if_connected_ctl_inv is_canceling_ctl_inv)

definition mode_ok :: "controller \<Rightarrow> bool" where
  "mode_ok c \<longleftrightarrow> activation_mode_byte c \<le> MODE_SCISSOR"

lemma activate_guarded_ctl_inv:
  assumes I: "ctl_inv c" and m: "mode_ok c" and a: "activate_guarded c = Some (r, c')"
  shows "ctl_inv c'"
proof -
  obtain q c1 where 1: "current_status c = (q, c1)" by fastforce
  have i1: "ctl_inv c1" using current_status_ctl_inv [OF I 1] .
  show ?thesis
  proof (cases q)
    case (Inl e)
    then show ?thesis using a 1 i1 by (simp add: activate_guarded_def)
  next
    case (Inr st)
    obtain i c2 where 2: "publish_command Command c1 = (i, c2)" by fastforce
    have i2: "ctl_inv c2" using publish_ctl_inv [OF i1 _ 2] by simp
    obtain ok m1 st1 c3 where 3: "service_wait (reset_done i) (s_connection_id st) st c2 = Some ((ok, m1, st1), c3)"
      using a by (auto simp: activate_guarded_def 1 2 Inr split: option.splits)
    have i3: "ctl_inv c3" using service_wait_ctl_inv [OF i2 3] .
    have m3: "mode_ok c3"
      using m kept_mode_byte [OF current_status_kept [OF 1]] kept_mode_byte [OF publish_command_kept [OF 2]]
        kept_mode_byte [OF service_wait_post(1) [OF 3]] by (simp add: mode_ok_def)
    obtain j c4 where 4: "publish_command (Command\<lparr>c_activate := True, c_mode := activation_mode_byte c3\<rparr>) c3 = (j, c4)"
      by fastforce
    have i4: "ctl_inv c4" using publish_ctl_inv [OF i3 _ 4] m3 by (simp add: mode_ok_def)
    show ?thesis using a i3 service_wait_ctl_inv [OF i4]
      by (auto simp: activate_guarded_def 1 2 3 4 Inr split: option.splits bool.splits)
  qed
qed

lemma deactivate_guarded_ctl_inv:
  assumes I: "ctl_inv c" and a: "deactivate_guarded c = Some (r, c')"
  shows "ctl_inv c'"
proof -
  obtain q c1 where 1: "current_status c = (q, c1)" by fastforce
  have i1: "ctl_inv c1" using current_status_ctl_inv [OF I 1] .
  obtain i c2 where 2: "publish_command Command c1 = (i, c2)" by fastforce
  have i2: "ctl_inv c2" using publish_ctl_inv [OF i1 _ 2] by simp
  show ?thesis using a i1 service_wait_ctl_inv [OF i2]
    by (cases q) (auto simp: deactivate_guarded_def 1 2 split: option.splits bool.splits)
qed

lemma move_guarded_ctl_inv:
  assumes I: "ctl_inv c" and g: "mg_mode goal \<le> MODE_SCISSOR" and a: "move_guarded goal c = Some (r, c')"
  shows "ctl_inv c'"
proof -
  obtain q c1 where 1: "current_status c = (q, c1)" by fastforce
  have i1: "ctl_inv c1" using current_status_ctl_inv [OF I 1] .
  obtain i c2 where 2: "publish_command (move_command goal) c1 = (i, c2)" by fastforce
  obtain t c3 where 3: "steady_now c2 = (t, c3)" by fastforce
  have i3: "ctl_inv c3" using publish_ctl_inv [OF i1 _ 2] g steady_now_ctl_inv [OF _ 3] by simp
  have w: "ctl_inv c'" if "wait_for_status pr dl k True move_progress st c3 = Some ((fin, reason, st1), c4)"
    "move_finish fin reason st1 k2 (move_command goal) c4 = (r, c')" for pr dl k st fin reason st1 c4 k2
    using wait_for_status_ctl_inv [OF that(1) _ i3] g by (intro finish_ctl_inv(1) [OF _ _ that(2)]) simp_all
  show ?thesis using a i1 w
    by (cases q) (auto simp: move_guarded_def 1 2 3 split: option.splits if_splits prod.splits)
qed

lemma gripper_guarded_ctl_inv:
  assumes I: "ctl_inv c" and a: "gripper_guarded p e c = Some (r, c')"
  shows "ctl_inv c'"
proof -
  obtain q c1 where 1: "current_status c = (q, c1)" by fastforce
  have i1: "ctl_inv c1" using current_status_ctl_inv [OF I 1] .
  have w: "ctl_inv c'" if "publish_command (gripper_command x s y) c1 = (i, c2)" "steady_now c2 = (t, c3)"
    "wait_for_status pr dl k True gripper_progress st c3 = Some ((fin, reason, st1), c4)"
    "gripper_finish fin st1 k2 (gripper_command x s y) c4 = (r, c')"
    for x s y i c2 t c3 pr dl k st fin reason st1 c4 k2
  proof -
    have "ctl_inv c3" using publish_ctl_inv [OF i1 _ that(1)] steady_now_ctl_inv [OF _ that(2)] by simp
    from wait_for_status_ctl_inv [OF that(3) _ this] show ?thesis
      by (intro finish_ctl_inv(2) [OF _ _ that(4)]) simp_all
  qed
  show ?thesis using a i1 w
    by (cases q) (auto simp: gripper_guarded_def 1 Let_def split: option.splits if_splits prod.splits)
qed

section \<open>Runs of the node\<close>

text \<open>A run: events of other threads, services, and goals, each from its acceptance to its end.\<close>

inductive ctl_reachable :: "controller \<Rightarrow> controller \<Rightarrow> bool" for c0 where
  ctl_start: "ctl_reachable c0 c0"
| ctl_event: "ctl_reachable c0 c \<Longrightarrow> event_ok e \<Longrightarrow> ctl_reachable c0 (on_thread_event e c)"
| ctl_activate: "ctl_reachable c0 c \<Longrightarrow> activate c = Some (r, c') \<Longrightarrow> ctl_reachable c0 c'"
| ctl_deactivate: "ctl_reachable c0 c \<Longrightarrow> deactivate c = Some (r, c') \<Longrightarrow> ctl_reachable c0 c'"
| ctl_move: "ctl_reachable c0 c \<Longrightarrow> handle_move_goal goal c = (ACCEPT_AND_EXECUTE, c1) \<Longrightarrow>
    \<forall>e \<in> set es. event_ok e \<Longrightarrow> execute_move goal (thread_events es c1) = Some (q, c') \<Longrightarrow> ctl_reachable c0 c'"
| ctl_gripper: "ctl_reachable c0 c \<Longrightarrow>
    handle_gripper_command_goal position effort c = (ACCEPT_AND_EXECUTE, c1) \<Longrightarrow>
    \<forall>e \<in> set es. event_ok e \<Longrightarrow>
    execute_gripper_command position effort (thread_events es c1) = Some (g, c') \<Longrightarrow> ctl_reachable c0 c'"

lemma release_ctl_inv [simp]: "ctl_inv (release c) = ctl_inv c" "ctl_inv (c\<lparr>ct_busy := True\<rparr>) = ctl_inv c"
  by (simp_all add: release_def ctl_inv_def published_inv_def ids_inv_def safe_inv_def statuses_ok_def)

lemma exclusive_ctl_inv:
  assumes "exclusive body c = Some (r, c')" "ctl_inv c" "mode_ok c"
    "\<And>c r c'. ctl_inv c \<Longrightarrow> mode_ok c \<Longrightarrow> body c = Some (r, c') \<Longrightarrow> ctl_inv c'"
  shows "ctl_inv c'"
proof (cases "ct_busy c")
  case True
  then show ?thesis using assms exclusive_result(1) by (cases r) blast
next
  case False
  then obtain c1 where "body (c\<lparr>ct_busy := True\<rparr>) = Some (r, c1)" "c' = release c1"
    using assms(1) by (auto simp: exclusive_def begin_operation_def guarded_def)
  then show ?thesis using assms(2,3) assms(4) [of "c\<lparr>ct_busy := True\<rparr>" r c1]
    by (simp add: mode_ok_def activation_mode_byte_def)
qed

lemma thread_events_ctl_inv: "ctl_inv c \<Longrightarrow> \<forall>e \<in> set es. event_ok e \<Longrightarrow> ctl_inv (thread_events es c)"
  using ctl_inv_same thread_events_published_inv by (simp add: ctl_inv_def statuses_ok_def)

lemma exclusive_kept_parameters:
  assumes "exclusive body c = Some (r, c')" "\<And>c r c'. body c = Some (r, c') \<Longrightarrow> kept c c'"
  shows "ct_parameters c' = ct_parameters c"
  using assms by (fastforce simp: exclusive_def begin_operation_def guarded_def release_def kept_def grows_def
      split: bool.splits)

lemma guarded_parameters:
  assumes "guarded body c = Some (r, c')" "\<And>r c'. body c = Some (r, c') \<Longrightarrow> kept c c'"
  shows "ct_parameters c' = ct_parameters c"
  using assms by (fastforce simp: guarded_def release_def kept_def grows_def)

lemma accept_parameters:
  "handle_move_goal goal c = (ACCEPT_AND_EXECUTE, c1) \<Longrightarrow>
     mg_mode goal \<le> MODE_SCISSOR \<and> c1 = c\<lparr>ct_busy := True\<rparr>"
  "handle_gripper_command_goal position effort c = (ACCEPT_AND_EXECUTE, c1) \<Longrightarrow> c1 = c\<lparr>ct_busy := True\<rparr>"
  by (auto simp: handle_move_goal_def handle_gripper_command_goal_def Let_def split: if_splits)

lemma kept_parameters: "kept c c' \<Longrightarrow> ct_parameters c' = ct_parameters c"
  by (simp add: kept_def grows_def)

lemma constructed_controller:
  assumes "Robotiq3FControllerNode p clock threads = Some (Inr c0)"
  shows "ct_parameters c0 = p" "0 \<le> activation_mode p" "activation_mode p \<le> 3" "published_inv c0"
    "ct_threads c0 = threads" "seen c0" "\<not> ct_busy c0" "mode_ok c0"
proof -
  show c0: "ct_parameters c0 = p" "0 \<le> activation_mode p" "activation_mode p \<le> 3" "published_inv c0"
    "ct_threads c0 = threads" "seen c0" "\<not> ct_busy c0"
    using assms by (auto simp: Robotiq3FControllerNode_def published_inv_def ids_inv_def safe_inv_def seen_def
        split: option.splits if_splits)
  have "activation_mode p = 0 \<or> activation_mode p = 1 \<or> activation_mode p = 2 \<or> activation_mode p = 3"
    using c0(2,3) by linarith
  then show "mode_ok c0" by (auto simp: mode_ok_def activation_mode_byte_def c0(1) MODE_SCISSOR_def)
qed

lemma services_ctl_inv:
  assumes "activate c = Some (r, c') \<or> deactivate c = Some (r, c')" "ctl_inv c" "mode_ok c"
  shows "ctl_inv c' \<and> ct_parameters c' = ct_parameters c"
  using assms(1)
proof
  assume a: "activate c = Some (r, c')"
  show ?thesis
    using exclusive_ctl_inv [OF a [unfolded activate_def] assms(2,3)] activate_guarded_ctl_inv
      exclusive_kept_parameters [OF a [unfolded activate_def]] activate_guarded_kept by blast
next
  assume d: "deactivate c = Some (r, c')"
  show ?thesis
    using exclusive_ctl_inv [OF d [unfolded deactivate_def] assms(2,3)] deactivate_guarded_ctl_inv
      exclusive_kept_parameters [OF d [unfolded deactivate_def]] deactivate_guarded_kept by blast
qed

lemma ctl_reachable_inv:
  assumes "ctl_reachable c0 c" "ctl_inv c0" "mode_ok c0"
  shows "ctl_inv c \<and> ct_parameters c = ct_parameters c0"
  using assms(1)
proof (induction rule: ctl_reachable.induct)
  case ctl_start
  then show ?case using assms(2) by simp
next
  case (ctl_event c e)
  then show ?case using thread_events_ctl_inv [of c "[e]"] kept_parameters [OF on_thread_event_kept]
    by (simp add: thread_events_def)
next
  case (ctl_activate c r c')
  then have "mode_ok c" using assms(3) by (simp add: mode_ok_def activation_mode_byte_def)
  then show ?case using ctl_activate services_ctl_inv by metis
next
  case (ctl_deactivate c r c')
  then have "mode_ok c" using assms(3) by (simp add: mode_ok_def activation_mode_byte_def)
  then show ?case using ctl_deactivate services_ctl_inv by metis
next
  case (ctl_move c goal c1 es q c')
  note a = accept_parameters(1) [OF ctl_move.hyps(2)]
  have i: "ctl_inv (thread_events es c1)" using thread_events_ctl_inv a ctl_move by simp
  have "ctl_inv c'" using ctl_move.hyps(4) move_guarded_ctl_inv [OF i conjunct1 [OF a]]
    by (auto simp: execute_move_def guarded_def)
  moreover have "ct_parameters c' = ct_parameters (thread_events es c1)"
    using ctl_move.hyps(4) move_guarded_kept guarded_parameters unfolding execute_move_def by metis
  ultimately show ?case using a ctl_move.IH kept_parameters [OF thread_events_kept] by simp
next
  case (ctl_gripper c position effort c1 es g c')
  note a = accept_parameters(2) [OF ctl_gripper.hyps(2)]
  have i: "ctl_inv (thread_events es c1)" using thread_events_ctl_inv a ctl_gripper by simp
  have "ctl_inv c'" using ctl_gripper.hyps(4) gripper_guarded_ctl_inv [OF i]
    by (auto simp: execute_gripper_command_def guarded_def)
  moreover have "ct_parameters c' = ct_parameters (thread_events es c1)"
    using ctl_gripper.hyps(4) gripper_guarded_kept guarded_parameters unfolding execute_gripper_command_def by metis
  ultimately show ?case using a ctl_gripper.IH kept_parameters [OF thread_events_kept] by simp
qed

text \<open>The current status is always one that was relayed.\<close>

lemma seen_flags [simp]: "seen (c\<lparr>ct_busy := b\<rparr>) = seen c" "seen (release c) = seen c"
  by (simp_all add: seen_def release_def)

lemma guarded_seen:
  assumes "guarded body c = Some (r, c')" "\<And>r c'. body c = Some (r, c') \<Longrightarrow> kept c c'" "seen c"
  shows "seen c'"
  using assms kept_seen by (fastforce simp: guarded_def)

lemma exclusive_seen:
  assumes "exclusive body c = Some (r, c')" "\<And>c r c'. body c = Some (r, c') \<Longrightarrow> kept c c'" "seen c"
  shows "seen c'"
proof (cases "ct_busy c")
  case True
  then show ?thesis using assms(1,3) exclusive_result(1) by (cases r) blast
next
  case False
  then have "guarded body (c\<lparr>ct_busy := True\<rparr>) = Some (r, c')" using assms(1) by (simp add: exclusive_def begin_operation_def)
  from guarded_seen [OF this assms(2)] assms(3) show ?thesis by simp
qed

lemma ctl_reachable_seen:
  assumes "ctl_reachable c0 c" "seen c0" shows "seen c"
  using assms(1)
proof (induction rule: ctl_reachable.induct)
  case (ctl_event c e)
  then show ?case using kept_seen [OF on_thread_event_kept] by blast
next
  case (ctl_activate c r c')
  then show ?case using exclusive_seen activate_guarded_kept unfolding activate_def by blast
next
  case (ctl_deactivate c r c')
  then show ?case using exclusive_seen deactivate_guarded_kept unfolding deactivate_def by blast
next
  case (ctl_move c goal c1 es q c')
  then have "seen (thread_events es c1)" using accept_parameters(1) kept_seen [OF thread_events_kept] by fastforce
  then show ?case using ctl_move.hyps(4) guarded_seen move_guarded_kept unfolding execute_move_def by metis
next
  case (ctl_gripper c position effort c1 es g c')
  then have "seen (thread_events es c1)" using accept_parameters(2) kept_seen [OF thread_events_kept] by fastforce
  then show ?case using ctl_gripper.hyps(4) guarded_seen gripper_guarded_kept unfolding execute_gripper_command_def by metis
qed (rule assms(2))

lemma unat_published_id:
  assumes "ids_inv c" "length (ct_published c) < 2 ^ 64 - 1" "i < length (ct_published c)"
  shows "unat (c_command_id (ct_published c ! i)) = Suc i"
proof -
  have "map c_command_id (ct_published c) ! i = map of_nat [1..<Suc (length (ct_published c))] ! i"
    using assms(1) by (simp add: ids_inv_def del: upt_Suc)
  then have "c_command_id (ct_published c ! i) = of_nat (Suc i)" using assms(3) by (simp del: upt_Suc)
  then show ?thesis using assms(2,3)
    by (simp add: unsigned_of_nat take_bit_nat_eq_self del: of_nat_Suc)
qed

text \<open>The identifiers of the published commands count up from one: until the counter wraps, the
  i-th command published in any run carries the identifier i, so no two commands share one and none
  has the reserved identifier zero.\<close>

theorem command_ids_count_up:
  assumes "Robotiq3FControllerNode p clock threads = Some (Inr c0)" "statuses_ok c0" "ctl_reachable c0 c"
    and "length (ct_published c) < 2 ^ 64 - 1"
  shows "map (unat \<circ> c_command_id) (ct_published c) = [1..<Suc (length (ct_published c))] \<and>
    distinct (map c_command_id (ct_published c)) \<and> 0 \<notin> c_command_id ` set (ct_published c)"
proof -
  note c0 = constructed_controller [OF assms(1)]
  have inv: "ids_inv c"
    using ctl_reachable_inv [OF assms(3)] c0(4,8) assms(2) by (auto simp: ctl_inv_def published_inv_def)
  have ids: "map (unat \<circ> c_command_id) (ct_published c) = [1..<Suc (length (ct_published c))]"
    by (rule nth_equalityI) (simp_all add: unat_published_id [OF inv assms(4)] del: upt_Suc)
  then have "distinct (map unat (map c_command_id (ct_published c)))" by (simp add: del: upt_Suc)
  then have "distinct (map c_command_id (ct_published c))" by (simp only: distinct_map)
  moreover have "0 \<notin> c_command_id ` set (ct_published c)"
  proof
    assume "0 \<in> c_command_id ` set (ct_published c)"
    then have "0 \<in> set (map (unat \<circ> c_command_id) (ct_published c))" by force
    then show False unfolding ids by auto
  qed
  ultimately show ?thesis using ids by blast
qed

text \<open>C16. The two nodes fit: every command the controller publishes in any run passes the validation
  of the driver, whether automatic release is allowed there or not; a driver that is ready accepts
  it.\<close>

theorem driver_accepts_controller_commands:
  assumes "Robotiq3FControllerNode p clock threads = Some (Inr c0)" "statuses_ok c0" "ctl_reachable c0 c"
    and "length (ct_published c) < 2 ^ 64 - 1" "cmd \<in> set (ct_published c)"
    and "dn_ready_for_commands n"
  shows "dn_checked (receive_check cmd n) = Some cmd \<and> (\<exists>img. pack_command cmd = Inr img)"
proof -
  note c0 = constructed_controller [OF assms(1)]
  have inv: "ctl_inv c" using ctl_reachable_inv [OF assms(3)] c0(4,8) assms(2) by (simp add: ctl_inv_def)
  then have safe: "safe_command cmd" using assms(5) by (simp add: ctl_inv_def published_inv_def safe_inv_def)
  obtain i where "i < length (ct_published c)" "ct_published c ! i = cmd"
    using assms(5) by (auto simp: in_set_conv_nth)
  then have "unat (c_command_id cmd) = Suc i"
    using unat_published_id [OF _ assms(4)] inv by (auto simp: ctl_inv_def published_inv_def)
  then have "c_command_id cmd \<noteq> 0" by (metis nat.distinct(1) unsigned_0)
  with safe assms(6) show ?thesis
    by (auto simp: receive_check_def safe_command_def pack_command_def MODE_SCISSOR_def not_less)
qed

end
