(* ===== verification/Controller_Conversions.thy ===== *)
theory Controller_Conversions
  imports Controller_Node
begin

text \<open>
  The conversions of the 3F controller node between SI units and the bytes of the gripper, in
  floating point: they stay in the byte range without wrap-around, map the end points exactly and
  are monotone; and no conversion that the node performs is undefined.
\<close>

section \<open>Scaling a fraction of a range to an integer\<close>

definition scaled_raw :: "int \<Rightarrow> rat \<Rightarrow> rat \<Rightarrow> int" where
  "scaled_raw r u w = rat_lround (rnd (of_int r * rnd (u / w)))"

lemma rat_lround_bounds:
  assumes "0 \<le> g" "g \<le> of_int r" shows "0 \<le> rat_lround g" "rat_lround g \<le> r"
  using assms by (auto simp: rat_lround_def le_floor_iff floor_le_iff)

lemma rat_lround_mono: "0 \<le> g \<Longrightarrow> g \<le> h \<Longrightarrow> rat_lround g \<le> rat_lround h"
  by (auto simp: rat_lround_def intro: floor_mono)

lemma rat_lround_of_int: "0 \<le> n \<Longrightarrow> rat_lround (of_int n) = n"
  by (auto simp: rat_lround_def intro: floor_unique)

lemma is_double_small_int: "0 \<le> r \<Longrightarrow> r \<le> 255 \<Longrightarrow> is_double (Fin (of_int r))"
  by (rule is_double_of_int) simp

lemma rnd_fraction:
  assumes "0 \<le> u" "u \<le> w" "0 < w"
  shows "mk (u / w) = Fin (rnd (u / w))" "0 \<le> rnd (u / w)" "rnd (u / w) \<le> 1"
  using mk_between [of 0 1 "u / w"] is_double_of_int [of 0] is_double_of_int [of 1] assms by auto

lemma scaled_fraction:
  assumes "0 \<le> u" "u \<le> w" "0 < w" "0 \<le> r" "r \<le> 255"
  shows "mk (of_int r * rnd (u / w)) = Fin (rnd (of_int r * rnd (u / w)))"
    "0 \<le> rnd (of_int r * rnd (u / w))" "rnd (of_int r * rnd (u / w)) \<le> of_int r"
  using mk_between [of 0 "of_int r" "of_int r * rnd (u / w)"] is_double_of_int [of 0]
    is_double_small_int [OF assms(4,5)] rnd_fraction(2,3) [OF assms(1-3)] assms(4)
    mult_left_le [of "rnd (u / w)" "of_int r"]
  by auto

lemma scaled_raw_bounds:
  assumes "0 \<le> u" "u \<le> w" "0 < w" "0 \<le> r" "r \<le> 255"
  shows "0 \<le> scaled_raw r u w" "scaled_raw r u w \<le> r"
  using rat_lround_bounds scaled_fraction [OF assms] by (auto simp: scaled_raw_def)

lemma scaled_raw_mono:
  assumes "0 \<le> u" "u \<le> v" "v \<le> w" "0 < w" "0 \<le> r" "r \<le> 255"
  shows "scaled_raw r u w \<le> scaled_raw r v w"
proof -
  have "rnd (u / w) \<le> rnd (v / w)" using assms by (intro rnd_mono divide_right_mono) auto
  then have "of_int r * rnd (u / w) \<le> of_int r * rnd (v / w)"
    using assms by (intro mult_left_mono) auto
  then have "rnd (of_int r * rnd (u / w)) \<le> rnd (of_int r * rnd (v / w))" by (rule rnd_mono)
  then show ?thesis using scaled_fraction(2) [of u w r] assms
    by (auto simp: scaled_raw_def intro: rat_lround_mono)
qed

lemma scaled_raw_ends:
  assumes "0 < w" "0 \<le> r" "r \<le> 255" shows "scaled_raw r 0 w = 0" "scaled_raw r w w = r"
proof -
  have "rnd 1 = 1" by (rule rnd_representable) simp
  moreover have "rnd (of_int r) = of_int r" using assms by (intro rnd_representable representable_of_int) simp
  ultimately show "scaled_raw r 0 w = 0" "scaled_raw r w w = r"
    using assms rat_lround_of_int [of 0] by (simp_all add: scaled_raw_def rat_lround_of_int)
qed

lemma lround_byte_scaled:
  assumes "0 \<le> u" "u \<le> w" "0 < w" "0 \<le> r" "r \<le> 255"
  shows "lround_byte (dmul (of_integer r) (ddiv (Fin u) (Fin w))) = Some (of_int (scaled_raw r u w))"
proof -
  have "of_integer r = Fin (of_int r)" using assms by (intro of_integer_exact) simp
  moreover have "fits_int64 (scaled_raw r u w)"
    using scaled_raw_bounds [OF assms] assms by (simp add: fits_int64_def)
  ultimately show ?thesis using rnd_fraction [OF assms(1-3)] scaled_fraction [OF assms] assms(3)
    by (simp add: lround_byte_def lround_def to_int64_def scaled_raw_def)
qed

section \<open>Differences\<close>

lemma dsub_between:
  assumes "is_double (Fin b)" "0 \<le> a" "a \<le> b"
  shows "dsub (Fin b) (Fin a) = Fin (rnd (b - a))" "0 \<le> rnd (b - a)" "rnd (b - a) \<le> b"
  using mk_between [of 0 b "b - a"] is_double_of_int [of 0] assms by (auto simp: dsub_def)

lemma rnd_diff_positive:
  assumes "is_double (Fin a)" "is_double (Fin b)" "a < b" shows "0 < rnd (b - a)"
  using assms by (intro rnd_diff_pos) (auto simp: is_double_def)

section \<open>Valid parameters\<close>

definition doubles_ok :: "controller_parameters \<Rightarrow> bool" where
  "doubles_ok p \<longleftrightarrow> is_double (gripper_command_closed_position_m p) \<and>
     is_double (gripper_command_max_opening_m p) \<and> is_double (gripper_command_min_effort_n p) \<and>
     is_double (gripper_command_max_effort_n p) \<and> is_double (gripper_command_default_effort_n p)"

lemma finite_double: "isfinite d \<Longrightarrow> \<exists>x. d = Fin x"
  by (cases d) (auto simp: isfinite_def)

lemma compatible_parameters:
  assumes "\<not> bad_compatibility p" "doubles_ok p"
  obtains a b lo hi def where
    "gripper_command_closed_position_m p = Fin a" "gripper_command_max_opening_m p = Fin b" "0 \<le> a" "a < b"
    "gripper_command_min_effort_n p = Fin lo" "gripper_command_max_effort_n p = Fin hi" "0 \<le> lo" "lo < hi"
    "gripper_command_default_effort_n p = Fin def" "lo \<le> def" "def \<le> hi"
    "1 \<le> gripper_command_closed_raw p" "gripper_command_closed_raw p \<le> 255"
    "is_double (Fin a)" "is_double (Fin b)" "is_double (Fin lo)" "is_double (Fin hi)" "is_double (Fin def)"
proof -
  obtain a b lo hi def where f:
    "gripper_command_closed_position_m p = Fin a" "gripper_command_max_opening_m p = Fin b"
    "gripper_command_min_effort_n p = Fin lo" "gripper_command_max_effort_n p = Fin hi"
    "gripper_command_default_effort_n p = Fin def"
    using assms(1) finite_double unfolding bad_compatibility_def by metis
  have "0 \<le> a" "a < b" "0 \<le> lo" "lo < hi" "lo \<le> def" "def \<le> hi"
    "1 \<le> gripper_command_closed_raw p" "gripper_command_closed_raw p \<le> 255"
    using assms(1) by (auto simp: bad_compatibility_def f dle_def deq_def)
  then show thesis using that f assms(2) by (simp add: doubles_ok_def)
qed

section \<open>Positions\<close>

definition position_goal_ok :: "controller_parameters \<Rightarrow> double \<Rightarrow> bool" where
  "position_goal_ok p x \<longleftrightarrow> is_double x \<and> isfinite x \<and> dle (gripper_command_closed_position_m p) x \<and>
     dle x (gripper_command_max_opening_m p)"

lemma position_to_raw_eq:
  assumes "gripper_command_closed_position_m p = Fin a" "gripper_command_max_opening_m p = Fin b"
    "0 \<le> a" "a < b" "is_double (Fin a)" "is_double (Fin b)"
    "1 \<le> gripper_command_closed_raw p" "gripper_command_closed_raw p \<le> 255"
    "a \<le> x" "x \<le> b"
  shows "gripper_command_position_to_raw p (Fin x) =
      Some (of_int (scaled_raw (gripper_command_closed_raw p) (rnd (b - x)) (rnd (b - a))))"
    "0 \<le> rnd (b - x)" "rnd (b - x) \<le> rnd (b - a)" "0 < rnd (b - a)"
proof -
  show r: "0 \<le> rnd (b - x)" "rnd (b - x) \<le> rnd (b - a)" "0 < rnd (b - a)"
    using dsub_between [OF assms(6), of x] rnd_mono [of "b - x" "b - a"] rnd_diff_positive [OF assms(5,6,4)] assms
    by auto
  show "gripper_command_position_to_raw p (Fin x) =
      Some (of_int (scaled_raw (gripper_command_closed_raw p) (rnd (b - x)) (rnd (b - a))))"
    using lround_byte_scaled [OF r, of "gripper_command_closed_raw p"] assms
      dsub_between [OF assms(6), of x] dsub_between [OF assms(6), of a]
    by (simp add: gripper_command_position_to_raw_def)
qed

lemma position_raw_defined:
  assumes "\<not> bad_compatibility p" "doubles_ok p" "position_goal_ok p x"
  shows "\<exists>n. gripper_command_position_to_raw p x = Some n"
proof -
  obtain a b where p: "gripper_command_closed_position_m p = Fin a" "gripper_command_max_opening_m p = Fin b"
    "0 \<le> a" "a < b" "is_double (Fin a)" "is_double (Fin b)"
    "1 \<le> gripper_command_closed_raw p" "gripper_command_closed_raw p \<le> 255"
    using compatible_parameters [OF assms(1,2)] by metis
  obtain u where "x = Fin u" "a \<le> u" "u \<le> b"
    using assms(3) finite_double [of x] p(1,2) by (auto simp: position_goal_ok_def dle_def deq_def)
  then show ?thesis using position_to_raw_eq(1) [OF p] by blast
qed

text \<open>C20. The conversion of a requested gap is safe in floating point: for valid parameters and every
  gap that the goal handler lets through, it is defined and yields a byte between 0 and the
  configured closed value, with no wrap-around; fully open is exactly 0, fully closed exactly the
  closed value, and a larger gap never gives a larger byte.\<close>

theorem position_conversion:
  assumes "\<not> bad_compatibility p" "doubles_ok p" "position_goal_ok p x" "position_goal_ok p y"
  shows "\<exists>n m. gripper_command_position_to_raw p x = Some (of_int n) \<and>
      gripper_command_position_to_raw p y = Some (of_int m) \<and>
      0 \<le> n \<and> n \<le> gripper_command_closed_raw p \<and> gripper_command_closed_raw p \<le> 255 \<and>
      (dle x y \<longrightarrow> m \<le> n) \<and>
      (x = gripper_command_max_opening_m p \<longrightarrow> n = 0) \<and>
      (x = gripper_command_closed_position_m p \<longrightarrow> n = gripper_command_closed_raw p)"
proof -
  obtain a b where p: "gripper_command_closed_position_m p = Fin a" "gripper_command_max_opening_m p = Fin b"
    "0 \<le> a" "a < b" "is_double (Fin a)" "is_double (Fin b)"
    "1 \<le> gripper_command_closed_raw p" "gripper_command_closed_raw p \<le> 255"
    using compatible_parameters [OF assms(1,2)] by metis
  obtain u v where xy: "x = Fin u" "y = Fin v" "a \<le> u" "u \<le> b" "a \<le> v" "v \<le> b"
    using assms(3,4) finite_double [of x] finite_double [of y] p(1,2)
    by (auto simp: position_goal_ok_def dle_def deq_def)
  let ?r = "gripper_command_closed_raw p" and ?w = "rnd (b - a)"
  note ux = position_to_raw_eq [OF p xy(3,4)] and vy = position_to_raw_eq [OF p xy(5,6)]
  have r0: "0 \<le> ?r" using p(7) by simp
  have "0 \<le> scaled_raw ?r (rnd (b - u)) ?w" "scaled_raw ?r (rnd (b - u)) ?w \<le> ?r"
    using scaled_raw_bounds [OF ux(2-4) r0 p(8)] by auto
  moreover have "scaled_raw ?r (rnd (b - v)) ?w \<le> scaled_raw ?r (rnd (b - u)) ?w" if "dle x y"
    using that xy scaled_raw_mono [OF vy(2) _ ux(3,4) r0 p(8)] rnd_mono [of "b - v" "b - u"]
    by (auto simp: dle_def deq_def)
  moreover have "scaled_raw ?r (rnd (b - u)) ?w = 0" if "x = gripper_command_max_opening_m p"
    using that xy p scaled_raw_ends(1) [OF ux(4) r0 p(8)] by simp
  moreover have "scaled_raw ?r (rnd (b - u)) ?w = ?r" if "x = gripper_command_closed_position_m p"
    using that xy p scaled_raw_ends(2) [OF ux(4) r0 p(8)] by simp
  ultimately show ?thesis using ux(1) vy(1) xy(1,2) p(8) by blast
qed

section \<open>Efforts\<close>

definition effort_goal_ok :: "controller_parameters \<Rightarrow> double \<Rightarrow> bool" where
  "effort_goal_ok p e \<longleftrightarrow> is_double e \<and> isfinite e \<and> (e = Fin 0 \<or>
     dle (gripper_command_min_effort_n p) e \<and> dle e (gripper_command_max_effort_n p))"

lemma effort_conversion:
  assumes "\<not> bad_compatibility p" "doubles_ok p" "effort_goal_ok p e"
  shows "\<exists>n. gripper_command_effort_to_raw p e = Some (of_int n) \<and> 0 \<le> n \<and> n \<le> 255"
proof -
  obtain a b lo hi def where p: "gripper_command_min_effort_n p = Fin lo" "gripper_command_max_effort_n p = Fin hi"
    "0 \<le> lo" "lo < hi" "gripper_command_default_effort_n p = Fin def" "lo \<le> def" "def \<le> hi"
    "is_double (Fin lo)" "is_double (Fin hi)" "is_double (Fin def)"
    using compatible_parameters [OF assms(1,2)] by metis
  obtain u where u: "(if deq e (Fin 0) then gripper_command_default_effort_n p else e) = Fin u"
    "lo \<le> u" "u \<le> hi" "is_double (Fin u)"
  proof (cases "deq e (Fin 0)")
    case True
    then show thesis using that [of def] p by simp
  next
    case False
    obtain v where "e = Fin v" using assms(3) finite_double by (auto simp: effort_goal_ok_def)
    then show thesis using False that [of v] assms(3) p
      by (auto simp: effort_goal_ok_def dle_def deq_def)
  qed
  have d: "dsub (Fin u) (Fin lo) = Fin (rnd (u - lo))" "0 \<le> rnd (u - lo)"
    using dsub_between [OF u(4) p(3) u(2)] by auto
  have w: "dsub (Fin hi) (Fin lo) = Fin (rnd (hi - lo))" "0 < rnd (hi - lo)"
    using dsub_between [OF p(9,3)] rnd_diff_positive [OF p(8,9,4)] p(4) by auto
  have le: "rnd (u - lo) \<le> rnd (hi - lo)" using u(3) by (intro rnd_mono) simp
  have r255: "of_integer 255 = Fin 255" using of_integer_exact [of 255] by simp
  show ?thesis
    using lround_byte_scaled [OF d(2) le w(2), of 255] scaled_raw_bounds [OF d(2) le w(2), of 255]
    unfolding gripper_command_effort_to_raw_def Let_def u(1) p(1,2) d(1) w(1) r255 by auto
qed

section \<open>Reported positions\<close>

lemma dmin_of_int: "dmin (Fin (of_int x)) (Fin (of_int y)) = Fin (of_int (min x y))"
  by (simp add: dmin_def min_def)

text \<open>\<open>w\<close> is the width of the range, \<open>q\<close> the part of it that is closed, as an exact fraction.\<close>

definition gap_of :: "rat \<Rightarrow> rat \<Rightarrow> rat \<Rightarrow> rat" where
  "gap_of b w q = rnd (b - rnd (rnd q * w))"

lemma raw_to_position_eq:
  fixes raw :: u8
  assumes "gripper_command_closed_position_m p = Fin a" "gripper_command_max_opening_m p = Fin b"
    "0 \<le> a" "a < b" "is_double (Fin a)" "is_double (Fin b)"
    "1 \<le> gripper_command_closed_raw p" "gripper_command_closed_raw p \<le> 255"
  defines "r \<equiv> gripper_command_closed_raw p"
  defines "x \<equiv> gap_of b (rnd (b - a)) (of_int (min (uint raw) r) / of_int r)"
  shows "gripper_command_raw_to_position p raw = Fin x" "0 \<le> x" "x \<le> b"
proof -
  have raw: "0 \<le> uint raw" "uint raw \<le> 255" using uint_lt2p [of raw] by simp_all
  define m where "m = min (uint raw) r"
  have m: "0 \<le> m" "m \<le> r" using raw assms(7) by (auto simp: m_def r_def)
  have i: "of_integer (uint raw) = Fin (of_int (uint raw))" "of_integer r = Fin (of_int r)"
    by (rule of_integer_exact, use raw assms(7,8) in \<open>simp add: r_def\<close>)+
  have W: "dsub (Fin b) (Fin a) = Fin (rnd (b - a))" "0 \<le> rnd (b - a)" "rnd (b - a) \<le> b"
    using dsub_between [OF assms(6,3)] assms(4) by auto
  let ?f = "rnd (of_int m / of_int r)"
  have f: "ddiv (Fin (of_int m)) (Fin (of_int r)) = Fin ?f" "0 \<le> ?f" "?f \<le> 1"
    using rnd_fraction [of "of_int m" "of_int r"] m assms(7) by (auto simp: r_def)
  have "?f * rnd (b - a) \<le> b" using mult_right_mono [OF f(3) W(2)] W(3) by simp
  then have g: "mk (?f * rnd (b - a)) = Fin (rnd (?f * rnd (b - a)))" "0 \<le> rnd (?f * rnd (b - a))" "rnd (?f * rnd (b - a)) \<le> b"
    using mk_between [of 0 b "?f * rnd (b - a)"] f(2) W(2) assms(6) is_double_of_int [of 0] by auto
  have "gripper_command_raw_to_position p raw = Fin (gap_of b (rnd (b - a)) (of_int m / of_int r))"
    unfolding gripper_command_raw_to_position_def Let_def assms(1,2) r_def [symmetric] i dmin_of_int m_def [symmetric]
    by (simp only: f(1) W(1) dmul.simps g(1) dsub_between(1) [OF assms(6) g(2,3)] gap_of_def)
  then show "gripper_command_raw_to_position p raw = Fin x" by (simp only: x_def m_def)
  show "0 \<le> x" "x \<le> b" using dsub_between(2,3) [OF assms(6) g(2,3)] unfolding x_def gap_of_def m_def by simp_all
qed

text \<open>The reported gap stays between zero and the configured opening, is exactly the opening for the
  raw value 0, and is the same for every raw value at or beyond the closed one.\<close>

lemma reported_position:
  assumes "\<not> bad_compatibility p" "doubles_ok p" "gripper_command_max_opening_m p = Fin b"
  shows "\<exists>x. gripper_command_raw_to_position p raw = Fin x \<and> 0 \<le> x \<and> x \<le> b"
    "gripper_command_raw_to_position p 0 = Fin b"
proof -
  obtain a where p: "gripper_command_closed_position_m p = Fin a" "0 \<le> a" "a < b" "is_double (Fin a)" "is_double (Fin b)"
    "1 \<le> gripper_command_closed_raw p" "gripper_command_closed_raw p \<le> 255"
    using compatible_parameters [OF assms(1,2)] assms(3) by (metis double.inject)
  note eq = raw_to_position_eq [OF p(1) assms(3) p(2-7)]
  show "\<exists>x. gripper_command_raw_to_position p raw = Fin x \<and> 0 \<le> x \<and> x \<le> b" using eq by blast
  have "rnd b = b" using p(5) by (intro rnd_representable) (simp add: is_double_def)
  then show "gripper_command_raw_to_position p 0 = Fin b"
    using eq(1) [of 0] p(6) by (simp add: gap_of_def min_def split: if_splits)
qed

section \<open>Timeouts\<close>

lemma is_double_int_power: "is_double (Fin (2 ^ 61))"
proof -
  have "representable (2 ^ 61)" unfolding representable_def
    by (rule exI [of _ "2 ^ 50"], rule exI [of _ 11]) (simp add: power_int_def)
  moreover have "(2 :: rat) ^ 61 \<le> DBL_MAX"
  proof -
    have "(2 :: rat) powi 61 \<le> 2 powi 971" by (rule powi2_mono) simp
    then have "1 * (2 :: rat) powi 61 \<le> DBL_MAX" unfolding DBL_MAX_def by (intro mult_mono) simp_all
    then show ?thesis by (simp add: power_int_def)
  qed
  ultimately show ?thesis by (simp add: is_double_def)
qed

text \<open>The timeout of a goal is always defined: no field of the message overflows the conversion.\<close>

lemma move_timeout_defined: "move_timeout goal c \<noteq> None"
proof -
  define sec nsec where "sec = sint (mg_timeout_sec goal)" and "nsec = uint (mg_timeout_nanosec goal)"
  have s: "- (2 ^ 31) \<le> sec" "sec < 2 ^ 31"
    using sint_greater_eq [of "mg_timeout_sec goal"] sint_less [of "mg_timeout_sec goal"]
    by (simp_all add: sec_def)
  have n: "0 \<le> nsec" "nsec < 2 ^ 32"
    using unsigned_less [of "mg_timeout_nanosec goal", where 'a = int] by (simp_all add: nsec_def)
  have i: "of_integer sec = Fin (of_int sec)" "of_integer nsec = Fin (of_int nsec)"
    using s n by (intro of_integer_exact; simp)+
  have "(of_int nsec :: rat) \<le> of_int (2 ^ 32)" using n by (simp only: of_int_le_iff)
  then have "0 \<le> (of_int nsec :: rat) / 1000000000" "(of_int nsec :: rat) / 1000000000 \<le> 5" using n by simp_all
  then have q: "mk (of_int nsec / 1000000000) = Fin (rnd (of_int nsec / 1000000000))"
    "0 \<le> rnd (of_int nsec / 1000000000)" "rnd (of_int nsec / 1000000000) \<le> 5"
    using mk_between [of 0 5 "of_int nsec / 1000000000"] is_double_of_int [of 0] is_double_of_int [of 5] by auto
  let ?x = "of_int sec + rnd (of_int nsec / 1000000000)"
  have "(- of_int (2 ^ 31) :: rat) \<le> of_int sec" "(of_int sec :: rat) \<le> of_int (2 ^ 31)"
    using s by (metis of_int_le_iff of_int_minus, metis less_imp_le of_int_le_iff)
  then have "- of_int (2 ^ 31) \<le> ?x" "?x \<le> of_int (2 ^ 31 + 5)" using q(2,3) by simp_all
  then have x: "mk ?x = Fin (rnd ?x)" "rnd ?x \<le> of_int (2 ^ 31 + 5)"
    using mk_between [of "of_int (- (2 ^ 31))" "of_int (2 ^ 31 + 5)" ?x]
      is_double_of_int [of "- (2 ^ 31)"] is_double_of_int [of "2 ^ 31 + 5"] by auto
  have requested: "dadd (of_integer sec) (ddiv (of_integer nsec) (Fin 1000000000)) = Fin (rnd ?x)"
    using q(1) x(1) by (simp add: i)
  have "seconds_to_ns (Fin (rnd ?x)) \<noteq> None" if "0 < rnd ?x"
  proof -
    have "0 \<le> rnd ?x * 1000000000" "rnd ?x * 1000000000 \<le> 2 ^ 61" using that x(2) by simp_all
    then have y: "mk (rnd ?x * 1000000000) = Fin (rnd (rnd ?x * 1000000000))"
      "0 \<le> rnd (rnd ?x * 1000000000)" "rnd (rnd ?x * 1000000000) \<le> 2 ^ 61"
      using mk_between [OF _ is_double_int_power, of 0] is_double_of_int [of 0] by auto
    have "\<lfloor>rnd (rnd ?x * 1000000000)\<rfloor> \<le> 2 ^ 61" "0 \<le> \<lfloor>rnd (rnd ?x * 1000000000)\<rfloor>"
      using y(2,3) by (simp_all add: floor_le_iff)
    then show ?thesis using y
      by (simp add: seconds_to_ns_def trunc_int64_def to_int64_def rat_trunc_def fits_int64_def)
  qed
  then show ?thesis unfolding move_timeout_def Let_def sec_def [symmetric] nsec_def [symmetric] requested by simp
qed

end
