(* ===== verification/Controller_Moves.thy ===== *)
theory Controller_Moves
  imports Controller_Commands Controller_Conversions
begin

text \<open>
  How the goals of the 3F controller node end: what a successful move has observed, that a move that
  fails stops the gripper where it still can, and that every operation returns. The last section
  holds concrete runs.
\<close>

section \<open>How a move ends\<close>

lemma current_status_is_current: "current_status c = (Inr st, c1) \<Longrightarrow> st = ct_current_status c"
  by (auto simp: current_status_def split: if_splits prod.splits)

lemma stop_if_connected_facts:
  assumes "stop_if_connected st k cmd c = (b, c1)"
  shows "b \<longleftrightarrow> s_connected st \<and> s_connection_id st = k"
    "b \<Longrightarrow> ct_published c1 = ct_published c @ [cmd\<lparr>c_go_to := False, c_command_id := ct_next_command_id c\<rparr>]"
    "\<not> b \<Longrightarrow> c1 = c"
  using assms by (auto simp: stop_if_connected_def publish_command_def Let_def split: if_splits)

lemma move_finish_facts:
  assumes "move_finish fin reason st k cmd c = ((outcome, result), c1)"
  shows "final_status result = st" "fault_status result = s_fault_status st"
    "outcome = Succeeded \<Longrightarrow> fin \<and> s_fault_status st < 9 \<and> c1 = c \<and>
      (reached_requested_position result \<longleftrightarrow> s_motion_status st = MOTION_REACHED) \<and>
      (stopped_due_to_contact result \<longleftrightarrow>
        s_motion_status st = MOTION_PARTIAL_CONTACT \<or> s_motion_status st = MOTION_ALL_CONTACT)"
    "outcome \<noteq> Succeeded \<Longrightarrow> fin \<Longrightarrow> 9 \<le> s_fault_status st"
    "\<not> fin \<Longrightarrow> s_connected st \<Longrightarrow> s_connection_id st = k \<Longrightarrow>
      ct_published c1 = ct_published c @ [cmd\<lparr>c_go_to := False, c_command_id := ct_next_command_id c\<rparr>]"
  using assms
  by (auto simp: move_finish_def Let_def not_le is_canceling_def stop_if_connected_def publish_command_def
      split: if_splits prod.splits)

text \<open>A move that finds the gripper ready publishes its command and waits for it.\<close>

lemma move_guarded_started:
  assumes g: "move_guarded goal c = Some ((outcome, result), c5)" and 1: "current_status c = (Inr st, c1)"
    and ready: "s_activated st" "s_initialization_status st = INITIALIZATION_READY" and "seen c"
  defines "k \<equiv> s_connection_id (ct_current_status c)" and "i \<equiv> ct_next_command_id c"
  obtains fin reason st1 c3 c4 cs where
    "move_finish fin reason st1 k (move_command goal) c4 = ((outcome, result), c5)"
    "ct_published c4 = ct_published c @ [(move_command goal)\<lparr>c_command_id := i\<rparr>] @ cs" "seen c4"
    "fin \<Longrightarrow> awaited (move_done goal i) k c3 c4 st1"
proof -
  note logs = current_status_logs [OF 1]
  have k: "s_connection_id st = k" using current_status_is_current [of c st c1] 1 by (simp add: k_def)
  obtain j c2 where 2: "publish_command (move_command goal) c1 = (j, c2)" by fastforce
  note p2 = publish_command_facts [OF 2]
  have j: "j = i" using p2(1) logs by (simp add: i_def)
  obtain t c3 where 3: "steady_now c2 = (t, c3)" by fastforce
  obtain dl fin reason st1 c4 where
    w: "wait_for_status (move_done goal j) dl (s_connection_id st) True move_progress st c3 = Some ((fin, reason, st1), c4)" and
    f: "move_finish fin reason st1 (s_connection_id st) (move_command goal) c4 = ((outcome, result), c5)"
    using g by (auto simp: move_guarded_def 1 ready 2 3 split: option.splits)
  note post = wait_for_status_post [OF w only_feedback_callbacks(2), unfolded wait_post_def prod.case]
  have k5: "kept c c4" using current_status_kept [OF 1] publish_command_kept [OF 2] steady_now_kept [OF 3] post kept_trans by blast
  obtain cs where "ct_published c4 = ct_published c2 @ cs"
    using kept_published [OF kept_trans [OF steady_now_kept [OF 3] conjunct1 [OF post]]] by metis
  then have "ct_published c4 = ct_published c @ [(move_command goal)\<lparr>c_command_id := i\<rparr>] @ cs"
    using p2(3) logs j p2(1) by simp
  then show ?thesis using that [of fin reason st1 c4 cs c3] f post kept_seen [OF k5 assms(5)] j k by simp
qed

lemma move_outcome_facts:
  assumes "execute_move goal c = Some ((outcome, result), c')" "seen c"
  defines "k \<equiv> s_connection_id (ct_current_status c)" and "i \<equiv> ct_next_command_id c"
  shows "(outcome = Succeeded \<longrightarrow>
      (\<exists>cs. ct_published c' = ct_published c @ [(move_command goal)\<lparr>c_command_id := i\<rparr>] @ cs) \<and>
      move_done goal i (final_status result) \<and> s_connected (final_status result) \<and>
      s_connection_id (final_status result) = k \<and> final_status result \<in> set (ct_relayed c') \<and>
      s_fault_status (final_status result) < 9 \<and>
      (reached_requested_position result \<longleftrightarrow> s_motion_status (final_status result) = MOTION_REACHED) \<and>
      (stopped_due_to_contact result \<longleftrightarrow> s_motion_status (final_status result) = MOTION_PARTIAL_CONTACT \<or>
        s_motion_status (final_status result) = MOTION_ALL_CONTACT)) \<and>
    (outcome \<noteq> Succeeded \<and> ct_published c' \<noteq> ct_published c \<longrightarrow>
      move_done goal i (final_status result) \<and> 9 \<le> fault_status result \<or>
      (\<exists>j. last (ct_published c') = (move_command goal)\<lparr>c_go_to := False, c_command_id := j\<rparr>) \<or>
      \<not> s_connected (final_status result) \<or> s_connection_id (final_status result) \<noteq> k)"
proof -
  obtain c5 where g: "move_guarded goal c = Some ((outcome, result), c5)" "c' = release c5"
    using assms(1) by (auto simp: execute_move_def guarded_def)
  obtain q c1 where 1: "current_status c = (q, c1)" by fastforce
  note logs = current_status_logs [OF 1]
  show ?thesis
  proof (cases "\<exists>st. q = Inr st \<and> s_activated st \<and> s_initialization_status st = INITIALIZATION_READY")
    case False
    then have "outcome = Aborted" "c5 = c1"
      using g(1) by (cases q; auto simp: move_guarded_def 1 split: if_splits)+
    then show ?thesis using g(2) logs by (simp add: release_def)
  next
    case True
    then obtain st where st: "q = Inr st" "s_activated st" "s_initialization_status st = INITIALIZATION_READY"
      by blast
    have "current_status c = (Inr st, c1)" using 1 st(1) by simp
    from move_guarded_started [OF g(1) this st(2,3) assms(2)] obtain fin reason st1 c3 c4 cs where
      f: "move_finish fin reason st1 k (move_command goal) c4 = ((outcome, result), c5)"
      and pub: "ct_published c4 = ct_published c @ [(move_command goal)\<lparr>c_command_id := i\<rparr>] @ cs" and c4: "seen c4"
      and acked: "fin \<Longrightarrow> awaited (move_done goal i) k c3 c4 st1" unfolding k_def i_def by metis
    note ff = move_finish_facts [OF f]
    show ?thesis
    proof ((rule conjI; rule impI), goal_cases)
      case 1
      have s: "fin" "c5 = c4" using ff(3) [OF 1] by auto
      have a: "awaited (move_done goal i) k c3 c4 (final_status result)" using acked s(1) ff(1) by simp
      have rel: "ct_relayed c' = ct_relayed c4" "ct_published c' = ct_published c4" using g(2) s(2) by (simp_all add: release_def)
      show ?case using ff(1,3) 1 a awaited_relayed [OF a c4] pub unfolding rel awaited_def by auto
    next
      case 2
      show ?case
      proof (cases fin)
        case True
        then show ?thesis using acked ff(1,2,4) 2 unfolding awaited_def by auto
      next
        case False
        show ?thesis
        proof (cases "s_connected st1 \<and> s_connection_id st1 = k")
          case True
          then have "last (ct_published c') = (move_command goal)\<lparr>c_go_to := False, c_command_id := ct_next_command_id c4\<rparr>"
            using ff(5) False g(2) by (simp add: release_def)
          then show ?thesis by (intro disjI2 disjI1 exI)
        qed (use ff(1) in auto)
      qed
    qed
  qed
qed

text \<open>C15. How a move ends. A success means that the move command was published and that a received
  status of a connected driver on the starting connection acknowledges exactly that command, shows
  the requested position and no fault, and classifies the result. A move that published its command
  and did not succeed ended with a fault reported for that command, or with the stop command as the
  last one published, or with the connection gone.\<close>

theorem move_outcome:
  assumes "execute_move goal c = Some ((outcome, result), c')" "seen c"
  defines "k \<equiv> s_connection_id (ct_current_status c)" and "i \<equiv> ct_next_command_id c"
  shows "(outcome = Succeeded \<longrightarrow>
      (\<exists>cs. ct_published c' = ct_published c @ [(move_command goal)\<lparr>c_command_id := i\<rparr>] @ cs) \<and>
      move_done goal i (final_status result) \<and> s_connected (final_status result) \<and>
      s_connection_id (final_status result) = k \<and> final_status result \<in> set (ct_relayed c') \<and>
      s_fault_status (final_status result) < 9 \<and>
      (reached_requested_position result \<longleftrightarrow> s_motion_status (final_status result) = MOTION_REACHED) \<and>
      (stopped_due_to_contact result \<longleftrightarrow> s_motion_status (final_status result) = MOTION_PARTIAL_CONTACT \<or>
        s_motion_status (final_status result) = MOTION_ALL_CONTACT)) \<and>
    (outcome \<noteq> Succeeded \<and> ct_published c' \<noteq> ct_published c \<longrightarrow>
      move_done goal i (final_status result) \<and> 9 \<le> fault_status result \<or>
      (\<exists>j. last (ct_published c') = (move_command goal)\<lparr>c_go_to := False, c_command_id := j\<rparr>) \<or>
      \<not> s_connected (final_status result) \<or> s_connection_id (final_status result) \<noteq> k)"
  unfolding k_def i_def by (rule move_outcome_facts [OF assms(1,2)])

section \<open>Every operation returns\<close>

lemma guarded_returns: "\<exists>q. body c = Some q \<Longrightarrow> \<exists>q. guarded body c = Some q"
  by (auto simp: guarded_def)

lemma activate_guarded_returns:
  assumes "steady_runs c" shows "\<exists>q. activate_guarded c = Some q"
proof -
  obtain q c1 where 1: "current_status c = (q, c1)" by fastforce
  obtain i c2 where 2: "publish_command Command c1 = (i, c2)" by fastforce
  have r2: "steady_runs c2"
    using steady_runs_kept [OF steady_runs_kept [OF assms current_status_kept [OF 1]] publish_command_kept [OF 2]] .
  have w: "\<exists>ok reason st' c3. service_wait pr k st c2 = Some ((ok, reason, st'), c3) \<and> steady_runs c3" for pr k st
    using service_wait_returns [OF r2, of pr k st] steady_runs_kept [OF r2] service_wait_post(1) by (metis prod.collapse)
  show ?thesis
  proof (cases q)
    case (Inr st)
    obtain ok reason st' c3 where 3: "service_wait (reset_done i) (s_connection_id st) st c2 = Some ((ok, reason, st'), c3)"
      "steady_runs c3" using w by blast
    obtain j c4 where 4: "publish_command (Command\<lparr>c_activate := True, c_mode := activation_mode_byte c3\<rparr>) c3 = (j, c4)"
      by fastforce
    have "steady_runs c4" using steady_runs_kept [OF 3(2) publish_command_kept [OF 4]] .
    from service_wait_returns [OF this, of "activation_done j (activation_mode_byte c4)" "s_connection_id st" st']
    show ?thesis by (auto simp: activate_guarded_def 1 Inr 2 3(1) 4 split: bool.split)
  qed (auto simp: activate_guarded_def 1)
qed

lemma deactivate_guarded_returns:
  assumes "steady_runs c" shows "\<exists>q. deactivate_guarded c = Some q"
proof -
  obtain q c1 where 1: "current_status c = (q, c1)" by fastforce
  obtain i c2 where 2: "publish_command Command c1 = (i, c2)" by fastforce
  have r: "steady_runs c2"
    using steady_runs_kept [OF steady_runs_kept [OF assms current_status_kept [OF 1]] publish_command_kept [OF 2]] .
  show ?thesis
  proof (cases q)
    case (Inr st)
    obtain ok reason st' c3 where "service_wait (deactivation_done i) (s_connection_id st) st c2 = Some ((ok, reason, st'), c3)"
      using service_wait_returns [OF r, of "deactivation_done i" "s_connection_id st" st] by (metis prod.collapse)
    then show ?thesis by (auto simp: deactivate_guarded_def 1 Inr 2 split: bool.split)
  qed (auto simp: deactivate_guarded_def 1)
qed

lemma move_guarded_returns:
  assumes "steady_runs c" shows "\<exists>q. move_guarded goal c = Some q"
proof -
  obtain q c1 where 1: "current_status c = (q, c1)" by fastforce
  obtain i c2 where 2: "publish_command (move_command goal) c1 = (i, c2)" by fastforce
  obtain t c3 where 3: "steady_now c2 = (t, c3)" by fastforce
  obtain timeout where t: "move_timeout goal c2 = Some timeout" using move_timeout_defined by blast
  have "steady_runs c3" using steady_runs_kept [OF assms kept_trans [OF current_status_kept [OF 1]
        kept_trans [OF publish_command_kept [OF 2] steady_now_kept [OF 3]]]] .
  note w = wait_for_status_returns [OF this only_feedback_callbacks(2)]
  show ?thesis
  proof (cases q)
    case (Inr st)
    obtain ok reason st' c4 where "wait_for_status (move_done goal i) (t + timeout) (s_connection_id st) True
        move_progress st c3 = Some ((ok, reason, st'), c4)" using w by metis
    then show ?thesis by (auto simp: move_guarded_def 1 Inr 2 3 t) (metis surj_pair)
  qed (auto simp: move_guarded_def 1)
qed

lemma acceptance_ok:
  assumes "handle_gripper_command_goal position effort c = (ACCEPT_AND_EXECUTE, c1)"
    "\<not> bad_compatibility (ct_parameters c)" "doubles_ok (ct_parameters c)" "is_double position" "is_double effort"
  shows "position_goal_ok (ct_parameters c) position" "effort_goal_ok (ct_parameters c) effort"
proof -
  obtain x y where f: "position = Fin x" "effort = Fin y"
    using assms(1) finite_double [of position] finite_double [of effort]
    by (auto simp: handle_gripper_command_goal_def Let_def split: if_splits)
  obtain a b lo hi def where p: "gripper_command_closed_position_m (ct_parameters c) = Fin a"
    "gripper_command_max_opening_m (ct_parameters c) = Fin b"
    "gripper_command_min_effort_n (ct_parameters c) = Fin lo" "gripper_command_max_effort_n (ct_parameters c) = Fin hi"
    using compatible_parameters [OF assms(2,3)] by metis
  show "position_goal_ok (ct_parameters c) position" "effort_goal_ok (ct_parameters c) effort"
    using assms(1,4,5) by (auto simp: handle_gripper_command_goal_def Let_def f p position_goal_ok_def
        effort_goal_ok_def isfinite_def dle_def deq_def split: if_splits)
qed

lemma gripper_guarded_returns:
  assumes "steady_runs c" "\<not> bad_compatibility (ct_parameters c)" "doubles_ok (ct_parameters c)"
    "position_goal_ok (ct_parameters c) position" "effort_goal_ok (ct_parameters c) effort"
  shows "\<exists>q. gripper_guarded position effort c = Some q"
proof -
  obtain q c1 where 1: "current_status c = (q, c1)" by fastforce
  have same: "ct_parameters c1 = ct_parameters c" using kept_parameters [OF current_status_kept [OF 1]] .
  obtain n m where conv: "gripper_command_position_to_raw (ct_parameters c) position = Some n"
    "gripper_command_effort_to_raw (ct_parameters c) effort = Some m"
    using position_raw_defined [OF assms(2,3,4)] effort_conversion [OF assms(2,3,5)] by blast
  let ?cmd = "gripper_command n (of_int (gripper_command_speed (ct_parameters c))) m"
  obtain i c2 where 2: "publish_command ?cmd c1 = (i, c2)" by fastforce
  obtain t c3 where 3: "steady_now c2 = (t, c3)" by fastforce
  have "steady_runs c3" using steady_runs_kept [OF assms(1) kept_trans [OF current_status_kept [OF 1]
        kept_trans [OF publish_command_kept [OF 2] steady_now_kept [OF 3]]]] .
  note w = wait_for_status_returns [OF this only_feedback_callbacks(3)]
  show ?thesis
  proof (cases q)
    case (Inr st)
    obtain ok reason st' c4 where "wait_for_status (gripper_done n i) (t + ct_default_move_timeout c3)
        (s_connection_id st) True gripper_progress st c3 = Some ((ok, reason, st'), c4)" using w by metis
    then show ?thesis by (auto simp: gripper_guarded_def 1 Inr 2 3 same conv Let_def) (metis surj_pair)
  qed (auto simp: gripper_guarded_def 1)
qed

text \<open>Every operation returns: on a clock that passes every instant, the services and the move
  action end with a result, and so does the standard gripper action for every goal its handler
  accepts with valid parameters; no conversion of theirs overflows.\<close>

theorem operations_return:
  assumes "steady_runs c"
  shows "activate c \<noteq> None \<and> deactivate c \<noteq> None \<and> execute_move goal c \<noteq> None \<and>
    (\<not> bad_compatibility (ct_parameters c) \<and> doubles_ok (ct_parameters c) \<and> is_double position \<and>
     is_double effort \<and> handle_gripper_command_goal position effort c = (ACCEPT_AND_EXECUTE, c') \<longrightarrow>
     execute_gripper_command position effort (thread_events es c') \<noteq> None)"
proof -
  have r: "steady_runs (c\<lparr>ct_busy := True\<rparr>)" using steady_runs_kept [OF assms kept_flags(1)] .
  have "execute_gripper_command position effort (thread_events es c') \<noteq> None"
    if g: "\<not> bad_compatibility (ct_parameters c)" "doubles_ok (ct_parameters c)" "is_double position" "is_double effort"
      "handle_gripper_command_goal position effort c = (ACCEPT_AND_EXECUTE, c')"
  proof -
    have "c' = c\<lparr>ct_busy := True\<rparr>" using g(5) by (auto simp: handle_gripper_command_goal_def Let_def split: if_splits)
    then have k: "kept c (thread_events es c')" using kept_trans [OF kept_flags(1) thread_events_kept] by simp
    show ?thesis
      using gripper_guarded_returns [OF steady_runs_kept [OF assms k], of position effort]
        acceptance_ok [OF g(5,1,2,3,4)] g kept_parameters [OF k]
      by (auto simp: execute_gripper_command_def guarded_def)
  qed
  then show ?thesis
    using activate_guarded_returns [OF r] deactivate_guarded_returns [OF r] move_guarded_returns [OF assms, of goal]
    by (auto simp: activate_def deactivate_def exclusive_def begin_operation_def execute_move_def guarded_def
        split: bool.split)
qed

section \<open>Concrete runs\<close>

definition demo_parameters :: controller_parameters where
  "demo_parameters = \<lparr>activation_timeout_s = Fin 30, default_move_timeout_s = Fin 15, status_timeout_s = Fin 1,
     activation_mode = 0, gripper_command_closed_position_m = Fin 0, gripper_command_max_opening_m = Fin 2,
     gripper_command_closed_raw = 240, gripper_command_min_effort_n = Fin 15,
     gripper_command_max_effort_n = Fin 60, gripper_command_default_effort_n = Fin 30,
     gripper_command_speed = 255\<rparr>"

definition demo_step :: "thread_event list \<Rightarrow> thread_step" where
  "demo_step es = \<lparr>ts_events = es, ts_canceling = False, ts_active = True\<rparr>"

text \<open>The statuses a driver publishes for the images of a gripper that is reset, ready, and at its goal.\<close>

definition demo_status :: "u8 \<Rightarrow> u64 \<Rightarrow> status" where
  "demo_status b i = (unpack_status (b # replicate 15 0))\<lparr>s_stamp := 0, s_connected := True, s_connection_id := 1,
     s_last_command_id := i, s_diagnostic := ''connected''\<rparr>"

definition demo_reset :: status where "demo_reset = demo_status 0 1"
definition demo_ready :: status where "demo_ready = demo_status 0x31 2"
definition demo_moved :: status where "demo_moved = demo_status 0xF9 3"

definition demo_controller :: "int stream \<Rightarrow> controller" where
  "demo_controller clock =
     \<lparr>ct_parameters = demo_parameters, ct_activation_timeout = 30000000000,
      ct_default_move_timeout = 15000000000, ct_status_timeout = 1000000000,
      ct_current_status = Status, ct_last_status_time = 0, ct_have_status = False,
      ct_last_command = Command, ct_have_command = False, ct_busy = False, ct_shutting_down = False,
      ct_next_command_id = 1, ct_clock = clock,
      ct_threads = demo_step [Status_received demo_reset] ## demo_step [Status_received demo_ready] ##
        demo_step [Status_received demo_moved] ## sconst (demo_step []),
      ct_published = [], ct_relayed = [], ct_feedback = []\<rparr>"

definition demo_goal :: move_goal where
  "demo_goal = \<lparr>mg_mode = 0, mg_individual_finger_control = False, mg_individual_scissor_control = False,
     mg_position_a = 0, mg_speed_a = 0, mg_force_a = 0, mg_position_b = 0, mg_speed_b = 0, mg_force_b = 0,
     mg_position_c = 0, mg_speed_c = 0, mg_force_c = 0, mg_position_scissor = 0, mg_speed_scissor = 0,
     mg_force_scissor = 0, mg_timeout_sec = 0, mg_timeout_nanosec = 0\<rparr>"

lemma demo_constructed:
  "Robotiq3FControllerNode demo_parameters clock (ct_threads (demo_controller clock)) = Some (Inr (demo_controller clock))"
proof -
  have i: "is_double (Fin 30000000000)" "is_double (Fin 15000000000)" "is_double (Fin 1000000000)"
    using is_double_of_int [of 30000000000] is_double_of_int [of 15000000000] is_double_of_int [of 1000000000] by simp_all
  have f: "\<lfloor>30000000000 :: rat\<rfloor> = 30000000000" "\<lfloor>15000000000 :: rat\<rfloor> = 15000000000"
    "\<lfloor>1000000000 :: rat\<rfloor> = 1000000000" by (simp_all del: floor_numeral add: floor_eq_iff)
  have "seconds_to_ns (Fin 30) = Some 30000000000" "seconds_to_ns (Fin 15) = Some 15000000000"
    "seconds_to_ns (Fin 1) = Some 1000000000"
    using mk_double [OF i(1)] mk_double [OF i(2)] mk_double [OF i(3)]
    by (simp_all add: seconds_to_ns_def trunc_int64_def to_int64_def rat_trunc_def fits_int64_def f)
  moreover have "\<not> bad_compatibility demo_parameters"
    by (simp add: bad_compatibility_def demo_parameters_def dle_def deq_def isfinite_def)
  ultimately show ?thesis
    by (simp add: Robotiq3FControllerNode_def demo_controller_def demo_parameters_def)
qed

definition heard :: "status \<Rightarrow> controller \<Rightarrow> controller" where
  "heard s c = c\<lparr>ct_threads := stl (ct_threads c), ct_current_status := s, ct_last_status_time := 0,
     ct_have_status := True, ct_relayed := ct_relayed c @ [s]\<rparr>"

lemma heard_fields [simp]:
  "ct_threads (heard s c) = stl (ct_threads c)" "ct_parameters (heard s c) = ct_parameters c"
  "ct_clock (heard s c) = ct_clock c" "ct_published (heard s c) = ct_published c"
  "ct_next_command_id (heard s c) = ct_next_command_id c" "ct_shutting_down (heard s c) = ct_shutting_down c"
  "ct_status_timeout (heard s c) = ct_status_timeout c" "ct_current_status (heard s c) = s"
  "ct_have_status (heard s c)" "ct_last_status_time (heard s c) = 0" "ct_busy (heard s c) = ct_busy c"
  "ct_relayed (heard s c) = ct_relayed c @ [s]" "ct_activation_timeout (heard s c) = ct_activation_timeout c"
  "ct_default_move_timeout (heard s c) = ct_default_move_timeout c"
  by (simp_all add: heard_def)

lemma only_feedback_no_feedback: "only_feedback prog \<Longrightarrow> \<exists>fs. prog a s c = c\<lparr>ct_feedback := fs\<rparr>"
  unfolding only_feedback_def by blast

lemma wait_hears:
  assumes "shd (ct_threads c) = demo_step [Status_received s]" "ct_clock c = sconst 0" "\<not> ct_shutting_down c"
    "s_connected s" "s_connection_id s = k" "pr s" "0 \<le> ct_status_timeout c" "only_feedback prog"
  shows "wait_for_status pr dl k canc prog final c = Some ((True, '''', s), prog True s (heard s c))"
proof -
  obtain fs where "prog True s (heard s c) = (heard s c)\<lparr>ct_feedback := fs\<rparr>"
    using only_feedback_no_feedback [OF assms(8)] by blast
  moreover have "thread_events [Status_received s] (c\<lparr>ct_threads := stl (ct_threads c)\<rparr>) = heard s c"
    using assms(2) by (simp add: thread_events_def receive_status_def steady_now_def heard_def)
  ultimately show ?thesis using assms
    by (subst wait_for_status.simps)
      (simp add: wait_pass_def Let_def demo_step_def status_verdict_def steady_now_def)
qed

lemma same_clock: "ct_clock c = sconst 0 \<Longrightarrow> c\<lparr>ct_clock := sconst 0\<rparr> = c"
  by (cases c) simp

lemma service_wait_hears:
  assumes "shd (ct_threads c) = demo_step [Status_received s]" "ct_clock c = sconst 0" "\<not> ct_shutting_down c"
    "s_connected s" "s_connection_id s = k" "pr s" "0 \<le> ct_status_timeout c"
  shows "service_wait pr k st c = Some ((True, '''', s), heard s c)"
  using assms by (simp add: service_wait_def steady_now_def no_progress_def same_clock
      wait_hears [where prog = no_progress and pr = pr and s = s and c = c])

lemma demo_statuses [simp]:
  "s_connected demo_reset" "s_connected demo_ready" "s_connected demo_moved"
  "s_connection_id demo_reset = 1" "s_connection_id demo_ready = 1" "s_connection_id demo_moved = 1"
  "reset_done 1 demo_reset" "activation_done 2 0 demo_ready" "move_done demo_goal 3 demo_moved"
  "s_activated demo_ready" "s_initialization_status demo_ready = INITIALIZATION_READY"
  "s_fault_status demo_moved = 0" "s_motion_status demo_moved = MOTION_REACHED"
  "s_mode demo_reset = 0" "s_mode demo_ready = 0" "s_mode demo_moved = 0"
  by (simp_all add: demo_reset_def demo_ready_def demo_moved_def demo_status_def unpack_status_def Status_def reset_done_def
      activation_done_def move_done_def demo_goal_def INITIALIZATION_RESET_def INITIALIZATION_READY_def
      MOTION_REACHED_def MOTION_MOVING_def)

definition demo_active :: controller where
  "demo_active = receive_status demo_reset (demo_controller (sconst 0))"

definition demo_ready_controller :: controller where
  "demo_ready_controller =
     release (heard demo_ready (snd (publish_command (Command\<lparr>c_activate := True, c_mode := 0\<rparr>)
       (heard demo_reset (snd (publish_command Command (demo_active\<lparr>ct_busy := True\<rparr>)))))))"

lemma demo_active_fields [simp]:
  "ct_have_status demo_active" "ct_current_status demo_active = demo_reset" "ct_clock demo_active = sconst 0"
  "ct_last_status_time demo_active = 0" "ct_status_timeout demo_active = 1000000000" "\<not> ct_busy demo_active"
  "\<not> ct_shutting_down demo_active" "ct_next_command_id demo_active = 1" "ct_published demo_active = []"
  "ct_threads demo_active = ct_threads (demo_controller (sconst 0))" "activation_mode (ct_parameters demo_active) = 0"
  "ct_relayed demo_active = [demo_reset]"
  by (simp_all add: demo_active_def demo_controller_def receive_status_def steady_now_def demo_parameters_def)

lemma demo_threads [simp]:
  "ct_threads (demo_controller clock) = demo_step [Status_received demo_reset] ##
     demo_step [Status_received demo_ready] ## demo_step [Status_received demo_moved] ## sconst (demo_step [])"
  by (simp add: demo_controller_def)

lemma demo_activation:
  "activate demo_active = Some ((True, ''gripper activated and ready''), demo_ready_controller)"
  by (simp add: activate_def exclusive_def activate_guarded_def begin_operation_def guarded_def current_status_def
      steady_now_def same_clock publish_command_def Let_def service_wait_hears activation_mode_byte_def
      demo_ready_controller_def)

lemma demo_ready_fields [simp]:
  "ct_have_status demo_ready_controller" "ct_current_status demo_ready_controller = demo_ready"
  "ct_clock demo_ready_controller = sconst 0" "ct_last_status_time demo_ready_controller = 0"
  "ct_status_timeout demo_ready_controller = 1000000000" "\<not> ct_shutting_down demo_ready_controller"
  "ct_next_command_id demo_ready_controller = 3" "\<not> ct_busy demo_ready_controller"
  "ct_threads demo_ready_controller = demo_step [Status_received demo_moved] ## sconst (demo_step [])"
  "ct_published demo_ready_controller = [Command\<lparr>c_command_id := 1\<rparr>, Command\<lparr>c_command_id := 2, c_activate := True\<rparr>]"
  "ct_relayed demo_ready_controller = [demo_reset, demo_reset, demo_ready]"
  by (simp_all add: demo_ready_controller_def release_def publish_command_def Let_def Command_def)

lemma demo_move:
  assumes "r = demo_ready_controller \<or> r = demo_ready_controller\<lparr>ct_busy := True\<rparr>"
  shows "\<exists>c. execute_move demo_goal r = Some ((Succeeded, Move_result
    \<lparr>reached_requested_position := True, message := ''requested position reached'', final_status := demo_moved\<rparr>), c) \<and>
    ct_published c = ct_published demo_ready_controller @ [(move_command demo_goal)\<lparr>c_command_id := 3\<rparr>] \<and>
    ct_relayed c = ct_relayed demo_ready_controller @ [demo_moved]"
proof -
  have t: "move_timeout demo_goal c = Some (ct_default_move_timeout c)" for c
    using of_integer_exact [of 0]
    by (simp add: move_timeout_def Let_def demo_goal_def mk_double [OF is_double_of_int [of 0, simplified]])
  show ?thesis using assms
    by (elim disjE) (simp_all add: execute_move_def move_guarded_def guarded_def t current_status_def steady_now_def same_clock
        publish_command_def Let_def wait_hears [where prog = move_progress] move_finish_def Move_result_def MOTION_REACHED_def
        MOTION_PARTIAL_CONTACT_def MOTION_ALL_CONTACT_def release_def move_progress_def)
qed

lemma demo_seen: "seen demo_active" "seen demo_ready_controller"
  by (simp_all add: seen_def)

theorem wait_for_status_sound_witness:
  "\<exists>c'. wait_for_status (reset_done 1) 5 1 False no_progress Status demo_active = Some ((True, '''', demo_reset), c') \<and>
     kept demo_active c' \<and> reset_done 1 demo_reset"
proof -
  let ?c = "no_progress True demo_reset (heard demo_reset demo_active)"
  have w: "wait_for_status (reset_done 1) 5 1 False no_progress Status demo_active = Some ((True, '''', demo_reset), ?c)"
    by (rule wait_hears) simp_all
  from wait_for_status_sound [OF w] show ?thesis using w by auto
qed

theorem activation_resets_then_activates_witness:
  "activate demo_active = Some ((True, ''gripper activated and ready''), demo_ready_controller) \<and>
   (\<exists>s1 s2 r a. reset_done r s1 \<and> activation_done a (activation_mode_byte demo_active) s2)"
  using activation_resets_then_activates [OF demo_activation demo_seen(1)] demo_activation by blast

theorem operations_are_exclusive_witness:
  "activate (demo_active\<lparr>ct_busy := True\<rparr>) =
     Some ((False, ''another gripper operation is active''), demo_active\<lparr>ct_busy := True\<rparr>) \<and>
   activate demo_active = Some ((True, ''gripper activated and ready''), demo_ready_controller) \<and>
   \<not> ct_busy demo_ready_controller"
  using operations_are_exclusive [of "demo_active\<lparr>ct_busy := True\<rparr>"]
    operations_are_exclusive [of demo_active _ _ _ _ "(True, ''gripper activated and ready'')" demo_ready_controller]
    demo_activation by simp

lemma demo_run:
  "ctl_reachable (demo_controller (sconst 0)) demo_ready_controller" "statuses_ok (demo_controller (sconst 0))"
proof -
  have m: "0 \<le> MODE_SCISSOR" by (simp add: MODE_SCISSOR_def)
  then have "ctl_reachable (demo_controller (sconst 0)) demo_active" unfolding demo_active_def
    using ctl_event [OF ctl_start, of "Status_received demo_reset"] by (simp add: event_ok_def)
  from ctl_activate [OF this demo_activation] show "ctl_reachable (demo_controller (sconst 0)) demo_ready_controller" .
  have "event_ok e" if "e \<in> set (ts_events (ct_threads (demo_controller (sconst 0)) !! n))" for n e
    using that m by (cases n; cases "n - 1"; cases "n - 2") (auto simp: demo_step_def event_ok_def)
  then show "statuses_ok (demo_controller (sconst 0))" by (simp add: statuses_ok_def del: demo_threads)
qed

theorem command_ids_count_up_witness:
  "map (unat \<circ> c_command_id) (ct_published demo_ready_controller) = [1, 2]"
  using command_ids_count_up [OF demo_constructed demo_run(2,1)] by (simp add: upt_rec)

theorem driver_accepts_controller_commands_witness:
  "dn_checked (receive_check (Command\<lparr>c_command_id := 1\<rparr>) ((demo_node demo_reads)\<lparr>dn_ready_for_commands := True\<rparr>)) =
     Some (Command\<lparr>c_command_id := 1\<rparr>)"
  using driver_accepts_controller_commands [OF demo_constructed demo_run(2,1)] by simp

lemma demo_compatible:
  "\<not> bad_compatibility demo_parameters" "doubles_ok demo_parameters" "is_double (Fin 0)" "is_double (Fin 1)"
  "position_goal_ok demo_parameters (Fin 1)" "position_goal_ok demo_parameters (Fin 2)"
proof -
  show d: "is_double (Fin 0)" "is_double (Fin 1)" using is_double_of_int [of 0] is_double_of_int [of 1] by simp_all
  have "is_double (Fin 2)" "is_double (Fin 15)" "is_double (Fin 30)" "is_double (Fin 60)"
    using is_double_of_int [of 2] is_double_of_int [of 15] is_double_of_int [of 30] is_double_of_int [of 60] by simp_all
  with d show "\<not> bad_compatibility demo_parameters" "doubles_ok demo_parameters"
    "position_goal_ok demo_parameters (Fin 1)" "position_goal_ok demo_parameters (Fin 2)"
    by (simp_all add: bad_compatibility_def doubles_ok_def position_goal_ok_def demo_parameters_def
        dle_def deq_def isfinite_def)
qed

theorem position_conversion_witness:
  "\<exists>n m. gripper_command_position_to_raw demo_parameters (Fin 1) = Some (of_int n) \<and>
     gripper_command_position_to_raw demo_parameters (Fin 2) = Some (of_int m) \<and> m \<le> n \<and> n \<le> 240"
  using position_conversion [OF demo_compatible(1,2,5,6)] by (auto simp: demo_parameters_def dle_def)

theorem move_outcome_witness:
  "\<exists>c result. execute_move demo_goal demo_ready_controller = Some ((Succeeded, result), c) \<and>
     move_done demo_goal 3 (final_status result)"
  using demo_move [OF disjI1 [OF refl]] move_outcome [OF _ demo_seen(2), of demo_goal Succeeded] by fastforce

lemma siterate_steady: "steady_runs (demo_controller (siterate (\<lambda>t. t + 1) 0))"
proof -
  have nth: "((\<lambda>t. t + 1) ^^ m) (0 :: int) = int m" for m by (induction m) simp_all
  have "\<forall>m \<ge> nat t. t \<le> siterate (\<lambda>t. t + 1) (0 :: int) !! m" for t by (auto simp: nth)
  then show ?thesis unfolding steady_runs_def demo_controller_def by auto
qed

theorem operations_return_witness:
  "activate (demo_controller (siterate (\<lambda>t. t + 1) 0)) \<noteq> None \<and>
   (\<exists>c. handle_gripper_command_goal (Fin 1) (Fin 0) (demo_controller (siterate (\<lambda>t. t + 1) 0)) =
      (ACCEPT_AND_EXECUTE, c) \<and> execute_gripper_command (Fin 1) (Fin 0) (thread_events [] c) \<noteq> None)"
proof -
  let ?c = "demo_controller (siterate (\<lambda>t. t + 1) 0)"
  have a: "handle_gripper_command_goal (Fin 1) (Fin 0) ?c = (ACCEPT_AND_EXECUTE, ?c\<lparr>ct_busy := True\<rparr>)"
    by (simp add: handle_gripper_command_goal_def demo_controller_def demo_parameters_def isfinite_def Let_def)
  have "ct_parameters ?c = demo_parameters" by (simp add: demo_controller_def)
  then show ?thesis using operations_return [OF siterate_steady] demo_compatible a by metis
qed

end
