(* ===== verification/Driver_Wire.thy ===== *)
theory Driver_Wire
  imports Driver_Node
begin

text \<open>
  What the 3F driver node has exchanged with the gripper when it reports something: every command
  logged as written went out packed and was acknowledged, and every connected status it publishes
  unpacks sixteen bytes that came from the gripper, read after the acknowledgement of the command it
  names.
\<close>

section \<open>Frames in the logs\<close>

text \<open>The request that writes an image, its acknowledgement, and the response that carries a status.\<close>

definition write_frame :: "u16 \<Rightarrow> u8 \<Rightarrow> u8 list \<Rightarrow> u8 list" where
  "write_frame tid unit img = request_frame tid unit ([0x10, 0x00, 0x00, 0x00, 0x08, 0x10] @ img)"

definition ack_frame :: "u16 \<Rightarrow> u8 \<Rightarrow> u8 list" where
  "ack_frame tid unit = request_frame tid unit [0x10, 0x00, 0x00, 0x00, 0x08]"

definition status_frame :: "u16 \<Rightarrow> u8 \<Rightarrow> u8 list \<Rightarrow> u8 list" where
  "status_frame tid unit img = request_frame tid unit (0x04 # 0x10 # img)"

text \<open>The command went out and was acknowledged within what had been received by then.\<close>

definition acknowledged :: "command \<Rightarrow> u8 \<Rightarrow> u8 list \<Rightarrow> u8 list \<Rightarrow> bool" where
  "acknowledged cmd unit sent received \<longleftrightarrow>
     (\<exists>img tid. pack_command cmd = Inr img \<and> sublist (write_frame tid unit img) sent \<and>
        sublist (ack_frame tid unit) received)"

text \<open>The status unpacks an image in the log of received bytes; the command it names was written on its
  connection and acknowledged before.\<close>

definition observed :: "status \<Rightarrow> (nat \<times> command) list \<Rightarrow> u8 \<Rightarrow> u8 list \<Rightarrow> u8 list \<Rightarrow> bool" where
  "observed s ws unit sent received \<longleftrightarrow>
     (\<exists>img tid before after. length img = 16 \<and> received = before @ status_frame tid unit img @ after \<and>
        s = (unpack_status img)\<lparr>s_stamp := s_stamp s, s_connected := True, s_connection_id := s_connection_id s,
               s_last_command_id := s_last_command_id s, s_diagnostic := ''connected''\<rparr> \<and>
        (s_last_command_id s \<noteq> 0 \<longrightarrow>
           (\<exists>k cmd. (k, cmd) \<in> set ws \<and> s_connection_id s = of_nat k \<and> c_command_id cmd = s_last_command_id s \<and>
              acknowledged cmd unit sent before)))"

lemma acknowledged_mono:
  assumes "acknowledged cmd unit sent received" "prefix sent sent'" "prefix received received'"
  shows "acknowledged cmd unit sent' received'"
  using assms unfolding acknowledged_def by (meson prefix_imp_sublist sublist_order.order.trans)

lemma observed_mono:
  assumes "observed s ws unit sent received" "prefix sent sent'" "prefix received received'" "set ws \<subseteq> set ws'"
  shows "observed s ws' unit sent' received'"
proof -
  obtain img tid before after where o: "length img = 16" "received = before @ status_frame tid unit img @ after"
    "s = (unpack_status img)\<lparr>s_stamp := s_stamp s, s_connected := True, s_connection_id := s_connection_id s,
       s_last_command_id := s_last_command_id s, s_diagnostic := ''connected''\<rparr>"
    and named: "s_last_command_id s \<noteq> 0 \<Longrightarrow> \<exists>k cmd. (k, cmd) \<in> set ws \<and> s_connection_id s = of_nat k \<and>
      c_command_id cmd = s_last_command_id s \<and> acknowledged cmd unit sent before"
    using assms(1) unfolding observed_def by (elim exE conjE) blast
  obtain more' where "received' = received @ more'" using assms(3) by (auto simp: prefix_def)
  then have r: "received' = before @ status_frame tid unit img @ after @ more'" using o(2) by simp
  have "\<exists>k cmd. (k, cmd) \<in> set ws' \<and> s_connection_id s = of_nat k \<and> c_command_id cmd = s_last_command_id s \<and>
      acknowledged cmd unit sent' before" if "s_last_command_id s \<noteq> 0"
    using named [OF that] assms(4) acknowledged_mono [OF _ assms(2) prefix_order.refl] by blast
  then show ?thesis unfolding observed_def using o(1,3) r by metis
qed

section \<open>The invariant of the node\<close>

definition wire_inv :: "driver_node \<Rightarrow> bool" where
  "wire_inv n \<longleftrightarrow> (let c = dn_client n in
     (\<forall>(k, cmd) \<in> set (dn_written n). acknowledged cmd (mc_unit_id c) (mc_sent c) (mc_received c)) \<and>
     (\<forall>s \<in> set (dn_published n). s_connected s \<longrightarrow> observed s (dn_written n) (mc_unit_id c) (mc_sent c) (mc_received c)))"

text \<open>A step that appends to the logs, to the commands written and to the statuses published keeps it if
  the new entries are right.\<close>

lemma wire_inv_step:
  assumes "wire_inv n" "grows_logs (dn_client n) (dn_client n')"
    and "dn_written n' = dn_written n @ ws" "dn_published n' = dn_published n @ ss"
    and "\<And>k cmd. (k, cmd) \<in> set ws \<Longrightarrow>
      acknowledged cmd (mc_unit_id (dn_client n)) (mc_sent (dn_client n')) (mc_received (dn_client n'))"
    and "\<And>s. s \<in> set ss \<Longrightarrow> s_connected s \<Longrightarrow>
      observed s (dn_written n') (mc_unit_id (dn_client n)) (mc_sent (dn_client n')) (mc_received (dn_client n'))"
  shows "wire_inv n'"
proof -
  have g: "mc_unit_id (dn_client n') = mc_unit_id (dn_client n)" "prefix (mc_sent (dn_client n)) (mc_sent (dn_client n'))"
    "prefix (mc_received (dn_client n)) (mc_received (dn_client n'))" using assms(2) by (simp_all add: grows_logs_def)
  have "acknowledged cmd (mc_unit_id (dn_client n)) (mc_sent (dn_client n')) (mc_received (dn_client n'))"
    if "(k, cmd) \<in> set (dn_written n')" for k cmd
    using that assms(1,5) acknowledged_mono [OF _ g(2,3)] by (auto simp: wire_inv_def Let_def assms(3))
  moreover have "observed s (dn_written n') (mc_unit_id (dn_client n)) (mc_sent (dn_client n')) (mc_received (dn_client n'))"
    if "s \<in> set (dn_published n')" "s_connected s" for s
  proof (cases "s \<in> set ss")
    case False
    then have "observed s (dn_written n) (mc_unit_id (dn_client n)) (mc_sent (dn_client n)) (mc_received (dn_client n))"
      using that assms(1) by (auto simp: wire_inv_def Let_def assms(4))
    then show ?thesis by (rule observed_mono [OF _ g(2,3)]) (simp add: assms(3))
  qed (rule assms(6) [OF _ that(2)])
  ultimately show ?thesis by (auto simp: wire_inv_def Let_def g(1))
qed

lemma last_on_written:
  assumes "last_on k ws \<noteq> 0" obtains cmd where "(k, cmd) \<in> set ws" "c_command_id cmd = last_on k ws"
proof -
  define vs where "vs = filter (\<lambda>(j, _). j = k) ws"
  have "vs \<noteq> []" using assms by (auto simp: last_on_def vs_def)
  then have "last vs \<in> set vs" "last_on k ws = c_command_id (snd (last vs))"
    by (simp_all add: last_on_def vs_def [symmetric] split: list.split)
  moreover obtain j cmd where "last vs = (j, cmd)" by fastforce
  ultimately show thesis using that [of cmd] by (auto simp: vs_def)
qed

lemma worker_write_wire:
  assumes "wire_inv n" "worker_write (Some cmd) n = Some n'"
  shows "wire_inv n'"
proof (cases "pack_command cmd")
  case (Inr img)
  then obtain u client where w: "write_command img (dn_client n) = Some (u, client)"
    using assms(2) by (auto simp: worker_write_def split: option.splits)
  note g = exchanges_grow_logs(2) [OF w]
  show ?thesis
  proof (cases u)
    case (Inl e)
    then show ?thesis using assms w g Inr
      by (intro wire_inv_step [OF assms(1), of n' "[]" "[]"]) (auto simp: worker_write_def)
  next
    case (Inr v)
    note f = write_command_ok_facts [of img "dn_client n" client]
    have "acknowledged cmd (mc_unit_id (dn_client n)) (mc_sent client) (mc_received client)"
      unfolding acknowledged_def write_frame_def ack_frame_def
      using f w Inr \<open>pack_command cmd = Inr img\<close> by (auto intro!: exI [of _ "mc_transaction_id (dn_client n) + 1"])
    then show ?thesis using assms w g Inr \<open>pack_command cmd = Inr img\<close>
      by (intro wire_inv_step [OF assms(1), of n' "[(dn_connections n, cmd)]" "[]"]) (auto simp: worker_write_def)
  qed
qed (use assms in \<open>auto simp: worker_write_def wire_inv_def\<close>)

lemma worker_read_wire:
  assumes "wire_inv n" "last_id_inv n" "link_inv n" "dn_pc n = At_read" "worker_read n = Some n'"
  shows "wire_inv n'"
proof -
  obtain r client where rd: "read_status (dn_client n) = Some (r, client)"
    using assms(5) by (auto simp: worker_read_def split: option.splits)
  note g = exchanges_grow_logs(1) [OF rd]
  show ?thesis
  proof (cases r)
    case (Inl e)
    then show ?thesis using assms(5) rd g
      by (intro wire_inv_step [OF assms(1), of n' "[]" "[]"]) (auto simp: worker_read_def)
  next
    case (Inr img)
    define s where "s = (unpack_status img)\<lparr>s_stamp := shd (dn_stamps n), s_connected := True,
      s_connection_id := dn_connection_id n, s_last_command_id := dn_last_command_id n, s_diagnostic := ''connected''\<rparr>"
    have n': "dn_client n' = client" "dn_written n' = dn_written n" "dn_published n' = dn_published n @ [s]"
      using assms(5) rd Inr by (auto simp: worker_read_def publish_status_def s_def)
    note f = read_status_sound [of "dn_client n" img client]
    let ?u = "mc_unit_id (dn_client n)"
    have sl: "s_last_command_id s = dn_last_command_id n" "s_connection_id s = dn_connection_id n"
      "s = (unpack_status img)\<lparr>s_stamp := s_stamp s, s_connected := True, s_connection_id := s_connection_id s,
         s_last_command_id := s_last_command_id s, s_diagnostic := ''connected''\<rparr>" by (simp_all add: s_def)
    have k: "dn_last_command_id n = last_on (dn_connections n) (dn_written n)" "dn_connection_id n = of_nat (dn_connections n)"
      using assms(2-4) by (auto simp: last_id_inv_def link_inv_def)
    have named: "\<exists>k cmd. (k, cmd) \<in> set (dn_written n) \<and> s_connection_id s = of_nat k \<and>
        c_command_id cmd = s_last_command_id s \<and> acknowledged cmd ?u (mc_sent client) (mc_received (dn_client n))"
      if nz: "s_last_command_id s \<noteq> 0"
    proof -
      obtain cmd where cmd: "(dn_connections n, cmd) \<in> set (dn_written n)" "c_command_id cmd = s_last_command_id s"
        using last_on_written nz sl(1) k(1) by metis
      then have "acknowledged cmd ?u (mc_sent (dn_client n)) (mc_received (dn_client n))"
        using assms(1) by (auto simp: wire_inv_def Let_def)
      then have "acknowledged cmd ?u (mc_sent client) (mc_received (dn_client n))"
        using g acknowledged_mono by (auto simp: grows_logs_def)
      then show ?thesis using cmd sl(2) k(2) by metis
    qed
    have "length img = 16" "\<exists>tid. mc_received client = mc_received (dn_client n) @ status_frame tid ?u img @ []"
      using f rd Inr by (auto simp: status_frame_def kProcessImageSize_def)
    then have "observed s (dn_written n) ?u (mc_sent client) (mc_received client)"
      unfolding observed_def using named sl(3) by metis
    then show ?thesis using g n' by (intro wire_inv_step [OF assms(1), of n' "[]" "[s]"]) auto
  qed
qed

lemma handle_wire_inv:
  assumes I: "wire_inv n" "last_id_inv n" "link_inv n" and h: "handle e n = Some n'"
  shows "wire_inv n'"
proof (cases "e = Worker")
  case True
  then have "worker_step n = Some n'" using h by simp
  then show ?thesis
  proof (cases rule: worker_step_cases)
    case connect
    then show ?thesis
      by (intro wire_inv_step [OF I(1), of n' "[]" "drop (length (dn_published n)) (dn_published n')"])
        (auto simp: node_defs connect_grows_logs split: node_splits)
  next
    case (wrt cmd)
    then show ?thesis using worker_write_wire [OF I(1)] by simp
  next
    case rd
    then show ?thesis using worker_read_wire [OF I] by simp
  qed (rule wire_inv_step [OF I(1), of n' "[]" "drop (length (dn_published n)) (dn_published n')"];
    use I in \<open>auto simp: node_defs\<close>)+
next
  case False
  then show ?thesis using h
    by (cases e; intro wire_inv_step [OF I(1), of n' "[]" "[]"])
      (auto simp: receive_check_def receive_store_def split: if_splits option.splits)
qed

lemma reachable_wire_inv:
  assumes "Robotiq3FDriverNode p os stamps = Some (Inr n0)" "reachable n0 n"
  shows "wire_inv n"
  using assms(2)
proof (induction rule: reachable.induct)
  case start
  then show ?case using constructed [OF assms(1)] by (simp add: wire_inv_def)
next
  case (step n e n')
  then show ?case using handle_wire_inv reachable_node_inv [OF assms(1) step.hyps(1)] by blast
qed

text \<open>C5. What the driver reports comes from the gripper: whatever the interleaving, a connected status unpacks
  sixteen bytes received in a checked response, and if it names a command, then that command went out
  packed, on the connection the status names, and its acknowledgement was received before the image.\<close>

theorem status_comes_from_gripper:
  assumes "Robotiq3FDriverNode p os stamps = Some (Inr n0)" "reachable n0 n" "s \<in> set (dn_published n)" "s_connected s"
  defines "c \<equiv> dn_client n"
  shows "\<exists>img tid before after. length img = 16 \<and>
    mc_received c = before @ request_frame tid (mc_unit_id c) (0x04 # 0x10 # img) @ after \<and>
    s = (unpack_status img)\<lparr>s_stamp := s_stamp s, s_connected := True, s_connection_id := s_connection_id s,
      s_last_command_id := s_last_command_id s, s_diagnostic := ''connected''\<rparr> \<and>
    (s_last_command_id s \<noteq> 0 \<longrightarrow>
      (\<exists>k cmd out tid'. (k, cmd) \<in> set (dn_written n) \<and> s_connection_id s = of_nat k \<and>
        c_command_id cmd = s_last_command_id s \<and> pack_command cmd = Inr out \<and>
        sublist (request_frame tid' (mc_unit_id c) ([0x10, 0x00, 0x00, 0x00, 0x08, 0x10] @ out)) (mc_sent c) \<and>
        sublist (request_frame tid' (mc_unit_id c) [0x10, 0x00, 0x00, 0x00, 0x08]) before))"
proof -
  have "observed s (dn_written n) (mc_unit_id c) (mc_sent c) (mc_received c)"
    using reachable_wire_inv [OF assms(1,2)] assms(3,4) by (auto simp: wire_inv_def Let_def c_def)
  then show ?thesis unfolding observed_def acknowledged_def write_frame_def ack_frame_def status_frame_def by metis
qed

lemma demo_unit: "mc_unit_id (demo_client tid sock out inp s) = 9"
  by (simp add: demo_client_def ready_client_def)

theorem status_comes_from_gripper_witness:
  "\<exists>(n :: driver_node) s. s \<in> set (dn_published n) \<and> s_connected s \<and>
     (\<exists>img tid before after. mc_received (dn_client n) = before @ request_frame tid 9 (0x04 # 0x10 # img) @ after)"
proof -
  let ?s = "hears 1 (4 # 16 # demo_image) (sconst Get_again)"
  obtain os where os: "Robotiq3FDriverNode demo_parameters os (sconst 0) = Some (Inr (demo_node ?s))"
    using demo_node_constructed by blast
  obtain n where n: "run (replicate 6 Worker) (demo_node ?s) = Some n" "s_connected (hd (dn_published n))"
    "length (dn_published n) = 1" "mc_unit_id (dn_client n) = 9"
    by atomize_elim (simp add: replicate_numerals demo_node_def demo_simps demo_unit)
  have h: "hd (dn_published n) \<in> set (dn_published n)" using n(3) by (cases "dn_published n") auto
  from status_comes_from_gripper [OF os reachable_run [OF reachable.start n(1)] h n(2), unfolded n(4)]
  have "\<exists>img tid before after. mc_received (dn_client n) = before @ request_frame tid 9 (0x04 # 0x10 # img) @ after" by blast
  with h n(2) show ?thesis by blast
qed

end
