(* ===== verification/Fp_Error.thy ===== *)
theory Fp_Error
  imports Fp
begin

text \<open>
  The rounding error of the operations on doubles: a rounded result differs from the exact one by at
  most half a unit in the last place, so by a relative error of \<open>2 ^ -53\<close>, or by half of the least
  positive double. Conversions that pass through several operations compose these bounds.
\<close>

section \<open>One rounding\<close>

lemma round_even_error: "\<bar>of_int (round_even x) - x\<bar> \<le> 1 / 2"
proof -
  have "0 \<le> x - of_int \<lfloor>x\<rfloor>" "x - of_int \<lfloor>x\<rfloor> < 1" by linarith+
  then show ?thesis by (auto simp: round_even_def Let_def abs_le_iff)
qed

lemma rnd_error_ulp: "\<bar>rnd x - x\<bar> \<le> 2 powi ulp_expo x / 2"
proof (cases "x = 0")
  case False
  let ?u = "2 powi ulp_expo x :: rat"
  have "rnd x - x = (of_int (round_even (x / ?u)) - x / ?u) * ?u"
    using False by (simp add: rnd_def left_diff_distrib)
  then have "\<bar>rnd x - x\<bar> = \<bar>of_int (round_even (x / ?u)) - x / ?u\<bar> * ?u" by (simp add: abs_mult)
  also have "\<dots> \<le> 1 / 2 * ?u" by (intro mult_right_mono round_even_error) simp
  finally show ?thesis by simp
qed simp

definition tiny :: rat where "tiny = 1 / 2 ^ 1075"

lemma tiny_bounds: "0 < tiny" "tiny \<le> 1 / 2 ^ 1075"
  by (simp_all add: tiny_def)

lemma rnd_error_normal:
  assumes "x \<noteq> 0" "- 1074 \<le> expo \<bar>x\<bar> - 52" shows "\<bar>rnd x - x\<bar> \<le> \<bar>x\<bar> / 2 ^ 53"
proof -
  have "2 powi ulp_expo x / 2 = 2 powi expo \<bar>x\<bar> / (2 ^ 53 :: rat)"
    using assms(2) by (simp add: ulp_expo_def power_int_diff)
  also have "\<dots> \<le> \<bar>x\<bar> / 2 ^ 53" using expo_bounds(1) [of "\<bar>x\<bar>"] assms(1) by (intro divide_right_mono) simp_all
  finally show ?thesis using rnd_error_ulp [of x] by linarith
qed

lemma rnd_error: "\<bar>rnd x - x\<bar> \<le> \<bar>x\<bar> / 2 ^ 53 + tiny"
proof (cases "x = 0 \<or> - 1074 \<le> expo \<bar>x\<bar> - 52")
  case True
  then show ?thesis using tiny_bounds(1) rnd_error_normal [of x] by (cases "x = 0") auto
next
  case False
  then have "ulp_expo x = - 1074" by (simp add: ulp_expo_def)
  moreover have "(2 :: rat) powi - 1074 = 1 / 2 ^ 1074"
    by (simp only: power_int_minus power_int_numeral divide_inverse mult_1)
  ultimately have "2 powi ulp_expo x / 2 = tiny" by (simp add: tiny_def)
  then have "\<bar>rnd x - x\<bar> \<le> tiny" using rnd_error_ulp [of x] by simp
  then show ?thesis by (rule order_trans) simp
qed

text \<open>The difference of two doubles has a relative error only: it is a multiple of the least positive
  double.\<close>

lemma rnd_diff_error:
  assumes "representable x" "representable y" shows "\<bar>rnd (x - y) - (x - y)\<bar> \<le> \<bar>x - y\<bar> / 2 ^ 53"
proof (cases "x - y = 0 \<or> - 1074 \<le> expo \<bar>x - y\<bar> - 52")
  case True
  then show ?thesis using rnd_error_normal [of "x - y"] by (cases "x - y = 0") auto
next
  case False
  let ?t = "2 powi (- 1074) :: rat"
  obtain i j where x: "x = of_int i * ?t" and y: "y = of_int j * ?t"
    using assms powi2_multiple unfolding representable_def by meson
  have d: "x - y = of_int (i - j) * ?t" by (simp only: x y of_int_diff left_diff_distrib)
  have u: "ulp_expo (x - y) = - 1074" using False by (simp add: ulp_expo_def)
  have "?t \<noteq> 0" by (rule less_imp_neq [THEN not_sym, OF powi2_pos])
  then have "(x - y) / ?t = of_int (i - j)" unfolding d by (rule nonzero_mult_div_cancel_right)
  then have "rnd (x - y) = x - y" using False unfolding rnd_def u by (simp only: round_even_of_int if_False de_Morgan_disj) (simp only: d)
  then show ?thesis by simp
qed

text \<open>The rounded value of something that is known up to an error, relative to a scale.\<close>

lemma rnd_close:
  assumes "\<bar>x - y\<bar> \<le> e" "\<bar>y\<bar> \<le> b" "tiny \<le> b / 2 ^ 53" "e \<le> b"
  shows "\<bar>rnd x - y\<bar> \<le> e + b / 2 ^ 51"
proof -
  have "\<bar>x\<bar> \<le> 2 * b" using assms by linarith
  then have "\<bar>x\<bar> / 2 ^ 53 \<le> 2 * b / 2 ^ 53" by (intro divide_right_mono) simp_all
  then have "\<bar>rnd x - x\<bar> \<le> 3 * b / 2 ^ 53" using rnd_error [of x] assms(3) by simp
  moreover have "0 \<le> b" using assms(2) by linarith
  then have "3 * b / 2 ^ 53 \<le> b / 2 ^ 51" by simp
  ultimately show ?thesis using assms(1) by linarith
qed

lemma close_scaled:
  fixes x y e k :: rat
  assumes "\<bar>x - y\<bar> \<le> e" "0 < k"
  shows "\<bar>x * k - y * k\<bar> \<le> e * k" "\<bar>x / k - y / k\<bar> \<le> e / k"
proof -
  have "\<bar>x * k - y * k\<bar> = \<bar>x - y\<bar> * k" using assms(2) by (simp add: abs_mult flip: left_diff_distrib)
  then show "\<bar>x * k - y * k\<bar> \<le> e * k" using assms by (simp add: mult_right_mono)
  have "\<bar>x / k - y / k\<bar> = \<bar>x - y\<bar> / k" using assms(2) by (simp flip: diff_divide_distrib)
  then show "\<bar>x / k - y / k\<bar> \<le> e / k" using assms by (simp add: divide_right_mono)
qed

lemma close_bounded:
  fixes x y e b :: rat
  shows "\<bar>x - y\<bar> \<le> e \<Longrightarrow> \<bar>y\<bar> \<le> b \<Longrightarrow> e \<le> b \<Longrightarrow> \<bar>x\<bar> \<le> 2 * b"
  by linarith

text \<open>Concrete values: the 53 digits of the result, read off the scaled value.\<close>

lemma round_even_near: "\<bar>x - of_int n\<bar> < 1 / 2 \<Longrightarrow> round_even x = n"
proof -
  assume x: "\<bar>x - of_int n\<bar> < 1 / 2"
  then have "\<bar>of_int (round_even x) - of_int n\<bar> < (1 :: rat)" using round_even_error [of x] by linarith
  then have "of_int \<bar>round_even x - n\<bar> < (of_int 1 :: rat)" by simp
  then show ?thesis by (simp only: of_int_less_iff)
qed

lemma rnd_digits:
  assumes "2 ^ 52 \<le> x * 2 ^ k" "x * 2 ^ k < 2 ^ 53" "\<bar>x * 2 ^ k - of_int n\<bar> < 1 / 2" "k \<le> 1074"
  shows "rnd x = of_int n / 2 ^ k"
proof -
  have k: "(2 :: rat) powi - int k = 1 / 2 ^ k"
    by (simp only: power_int_minus power_int_of_nat divide_inverse mult_1)
  have "0 < x * 2 ^ k" using assms(1) by (rule less_le_trans [rotated]) simp
  then have pos: "0 < x" by (simp add: zero_less_mult_iff)
  have "(2 :: rat) powi (52 - int k) = 2 ^ 52 / 2 ^ k" "(2 :: rat) powi (52 - int k + 1) = 2 ^ 53 / 2 ^ k"
    using k by (simp_all add: power_int_diff power_int_add)
  then have "2 powi (52 - int k) \<le> x" "x < 2 powi (52 - int k + 1)"
    using assms(1,2) by (simp_all add: divide_le_eq less_divide_eq)
  then have "expo x = 52 - int k" using pos by (intro expo_unique)
  then have u: "ulp_expo x = - int k" using pos assms(4) by (simp add: ulp_expo_def)
  have "round_even (x * 2 ^ k) = n" using assms(3) by (rule round_even_near)
  then show ?thesis using pos by (simp add: rnd_def u k)
qed

section \<open>Operations that do not overflow\<close>

lemma mk_finite: "\<bar>x\<bar> \<le> 2 ^ 1020 \<Longrightarrow> mk x = Fin (rnd x)"
proof -
  have "(2 :: rat) powi 1020 \<le> of_int (2 ^ 53 - 1) * 2 powi 971"
  proof -
    have "(2 :: rat) powi 1020 = 2 ^ 49 * 2 powi 971" by (simp add: power_int_def)
    also have "\<dots> \<le> of_int (2 ^ 53 - 1) * 2 powi 971" by (intro mult_right_mono) simp_all
    finally show ?thesis .
  qed
  moreover assume "\<bar>x\<bar> \<le> 2 ^ 1020"
  moreover have "representable (2 ^ 1020)"
    unfolding representable_def by (intro exI [of _ 1] exI [of _ 1020]) (simp add: power_int_def)
  then have "representable (- (2 ^ 1020))"
    unfolding representable_def by (intro exI [of _ "- 1"] exI [of _ 1020]) (simp add: power_int_def)
  ultimately show ?thesis
    using mk_between [of "- (2 ^ 1020)" "2 ^ 1020" x] \<open>representable (2 ^ 1020)\<close>
    by (simp add: is_double_def DBL_MAX_def power_int_def abs_le_iff)
qed

lemma mk_small: "\<bar>x\<bar> \<le> 4096 \<Longrightarrow> mk x = Fin (rnd x)"
  by (rule mk_finite, erule order_trans) simp

end
