(* ===== verification/Joint_Mapping.thy ===== *)
theory Joint_Mapping
  imports Protocol_3f Fp_Error "HOL-Library.Monad_Syntax"
begin

text \<open>
  \<^verbatim>\<open>robotiq_3f_state_publisher\<close>: \<^verbatim>\<open>joint_mapping.cpp\<close>, the interpolation tables that turn
  register positions into joint angles, and \<^verbatim>\<open>joint_state_publisher_node.cpp\<close>, the node that turns
  statuses of the driver into joint states. Angles are the doubles of \<^verbatim>\<open>Fp\<close>; an exception is
  \<^verbatim>\<open>Inl\<close> its text, an access outside a table is \<open>None\<close>.
\<close>

section \<open>Piecewise linear maps\<close>

record piecewise_map =
  pm_inputs :: "double list"
  pm_outputs :: "double list"

text \<open>The loop of the constructor; \<open>previous\<close> is the input before.\<close>

fun check_table :: "double option \<Rightarrow> double list \<Rightarrow> double list \<Rightarrow> string option" where
  "check_table previous (x # xs) (y # ys) =
     (if \<not> isfinite x \<or> \<not> isfinite y then Some ''mapping values must be finite''
      else if (case previous of None \<Rightarrow> False | Some p \<Rightarrow> dle x p) then Some ''mapping inputs must be strictly increasing''
      else check_table (Some x) xs ys)"
| "check_table previous _ _ = None"

definition PiecewiseLinearMap :: "double list \<Rightarrow> double list \<Rightarrow> string + piecewise_map" where
  "PiecewiseLinearMap inputs outputs =
     (if length inputs < 2 \<or> length inputs \<noteq> length outputs
      then Inl ''mapping inputs and outputs must have the same size of at least two''
      else (case check_table None inputs outputs of
              Some e \<Rightarrow> Inl e
            | None \<Rightarrow> Inr \<lparr>pm_inputs = inputs, pm_outputs = outputs\<rparr>))"

text \<open>\<^verbatim>\<open>std::upper_bound\<close> on a sorted table: the index of the first element above the value.\<close>

definition upper_bound :: "double list \<Rightarrow> double \<Rightarrow> nat" where
  "upper_bound xs v = length (takeWhile (\<lambda>x. \<not> dlt v x) xs)"

definition evaluate :: "piecewise_map \<Rightarrow> double \<Rightarrow> double option" where
  "evaluate m input =
     (if dle input (hd (pm_inputs m)) then Some (hd (pm_outputs m))
      else if dle (last (pm_inputs m)) input then Some (last (pm_outputs m))
      else
        (let upper_index = upper_bound (pm_inputs m) input; lower_index = upper_index - 1 in
         if upper_index = 0 \<or> length (pm_inputs m) \<le> upper_index then None
         else
           (let fraction = ddiv (dsub input (pm_inputs m ! lower_index))
                  (dsub (pm_inputs m ! upper_index) (pm_inputs m ! lower_index)) in
            Some (dadd (pm_outputs m ! lower_index)
              (dmul fraction (dsub (pm_outputs m ! upper_index) (pm_outputs m ! lower_index)))))))"

section \<open>The mapper\<close>

record finger_maps =
  proximal :: piecewise_map
  middle :: piecewise_map
  distal :: piecewise_map

record joint_mapper =
  gm_finger_maps :: finger_maps
  gm_pinch_finger_maps :: finger_maps
  gm_scissor_map :: piecewise_map

text \<open>The constructor without a pinch curve uses the same curve for it.\<close>

definition GripperJointMapper :: "finger_maps \<Rightarrow> piecewise_map \<Rightarrow> joint_mapper" where
  "GripperJointMapper fingers scissor =
     \<lparr>gm_finger_maps = fingers, gm_pinch_finger_maps = fingers, gm_scissor_map = scissor\<rparr>"

definition byte_to_double :: "u8 \<Rightarrow> double" where "byte_to_double b = of_integer (uint b)"

definition map_finger :: "finger_maps \<Rightarrow> u8 \<Rightarrow> double list option" where
  "map_finger maps position =
     do { p \<leftarrow> evaluate (proximal maps) (byte_to_double position);
          m \<leftarrow> evaluate (middle maps) (byte_to_double position);
          d \<leftarrow> evaluate (distal maps) (byte_to_double position);
          Some [p, m, d] }"

definition map_joints :: "joint_mapper \<Rightarrow> u8 \<Rightarrow> u8 \<Rightarrow> u8 \<Rightarrow> u8 \<Rightarrow> u8 \<Rightarrow> double list option" where
  "map_joints gm mode position_a position_b position_c position_scissor =
     (let maps = (if mode = 1 then gm_pinch_finger_maps gm else gm_finger_maps gm) in
      do { a \<leftarrow> map_finger maps position_a;
           b \<leftarrow> map_finger maps position_b;
           c \<leftarrow> map_finger maps position_c;
           scissor \<leftarrow> evaluate (gm_scissor_map gm) (byte_to_double position_scissor);
           Some (a @ [scissor] @ b @ [dneg scissor] @ c) })"

definition map_joints_basic :: "joint_mapper \<Rightarrow> u8 \<Rightarrow> u8 \<Rightarrow> u8 \<Rightarrow> u8 \<Rightarrow> double list option" where
  "map_joints_basic gm = map_joints gm 0"

definition joint_names :: "string \<Rightarrow> string list" where
  "joint_names prefix =
     [prefix @ ''robotiq_3f_finger_a_proximal_joint'', prefix @ ''robotiq_3f_finger_a_middle_joint'',
      prefix @ ''robotiq_3f_finger_a_distal_joint'', prefix @ ''robotiq_3f_finger_b_scissor_joint'',
      prefix @ ''robotiq_3f_finger_b_proximal_joint'', prefix @ ''robotiq_3f_finger_b_middle_joint'',
      prefix @ ''robotiq_3f_finger_b_distal_joint'', prefix @ ''robotiq_3f_finger_c_scissor_joint'',
      prefix @ ''robotiq_3f_finger_c_proximal_joint'', prefix @ ''robotiq_3f_finger_c_middle_joint'',
      prefix @ ''robotiq_3f_finger_c_distal_joint'']"

section \<open>The node\<close>

record joint_parameters =
  jp_finger_breakpoints :: "int list"
  jp_proximal :: "double list"
  jp_middle :: "double list"
  jp_distal :: "double list"
  jp_pinch_breakpoints :: "int list"
  jp_pinch_proximal :: "double list"
  jp_pinch_middle :: "double list"
  jp_pinch_distal :: "double list"
  jp_scissor_breakpoints :: "int list"
  jp_scissor_angle :: "double list"
  jp_tf_prefix :: string
  jp_publish_reference_without_status :: bool
  jp_require_activated_status :: bool
  jp_status_topic :: string
  jp_joint_states_topic :: string
  jp_publish_rate_hz :: double

text \<open>A decimal literal with the given number of places, and the default values of the parameters.\<close>

definition lit :: "int \<Rightarrow> nat \<Rightarrow> double" where "lit n k = mk (of_int n / 10 ^ k)"

definition default_joint_parameters :: joint_parameters where
  "default_joint_parameters =
     \<lparr>jp_finger_breakpoints = [0, 6, 32, 60, 96, 128, 148, 164, 192, 225, 240, 255],
      jp_proximal = [Fin 0, Fin 0, lit 20943951023931956 17, lit 4886921905584123 16, lit 7853981633974483 16,
        lit 10777408131064985 16, lit 10777408131064985 16, lit 10777408131064985 16,
        lit 10777408131064985 16, lit 10777408131064985 16, lit 10777408131064985 16,
        lit 10777408131064985 16],
      jp_middle = [Fin 0, Fin 0, Fin 0, Fin 0, Fin 0, Fin 0, lit 8726646259971647 17, lit 4363323129985824 16,
        lit 9337511498169663 16, lit 13089969389957472 16, lit 1509709802975095 15,
        lit 1509709802975095 15],
      jp_distal = [Fin 0, Fin 0, lit (-2792526803190927) 16, lit (-5148721293383273) 16,
        lit (-7853981633974483) 16, lit (-10777408131064985) 16, lit (-6894050545377601) 16,
        lit (-6894050545377601) 16, lit (-6894050545377601) 16, lit (-6894050545377601) 16,
        lit (-6894050545377601) 16, lit (-6894050545377601) 16],
      jp_pinch_breakpoints = [0, 6, 32, 60, 96, 112, 113, 255],
      jp_pinch_proximal = [Fin 0, Fin 0, lit 20943951023931956 17, lit 4886921905584123 16, lit 7853981633974483 16,
        lit 8552113334772214 16, lit 8552113334772214 16, lit 8552113334772214 16],
      jp_pinch_middle = [Fin 0, Fin 0, Fin 0, Fin 0, Fin 0, Fin 0, Fin 0, Fin 0],
      jp_pinch_distal = [Fin 0, Fin 0, lit (-2792526803190927) 16, lit (-5148721293383273) 16,
        lit (-7853981633974483) 16, lit (-8552113334772214) 16, lit (-8552113334772214) 16,
        lit (-8552113334772214) 16],
      jp_scissor_breakpoints = [0, 15, 24, 32, 60, 92, 128, 137, 164, 192, 220, 225, 233, 255],
      jp_scissor_angle = [lit 2399827721492203 16, lit 2399827721492203 16, lit 22252947962927702 17,
        lit 20943951023931956 17, lit 14835298641951802 17, lit 8726646259971647 17,
        lit 17453292519943295 18, Fin 0, lit (-5235987755982989) 17, lit (-10471975511965978) 17,
        lit (-16406094968746698) 17, lit (-1684242728174528) 16, lit (-17016960206944712) 17,
        lit (-17016960206944712) 17],
      jp_tf_prefix = '''', jp_publish_reference_without_status = True, jp_require_activated_status = True,
      jp_status_topic = ''/robotiq_3f/status'', jp_joint_states_topic = ''/joint_states'', jp_publish_rate_hz = Fin 20\<rparr>"

record joint_state =
  js_stamp :: int
  js_name :: "string list"
  js_position :: "double list"

record joint_node =
  jn_mapper :: joint_mapper
  jn_joint_state :: joint_state
  jn_publish_reference_without_status :: bool
  jn_require_activated_status :: bool
  jn_have_valid_status :: bool
  jn_status_topic :: string
  jn_joint_states_topic :: string
  jn_period :: double

definition finger_tables :: "int list \<Rightarrow> double list \<Rightarrow> double list \<Rightarrow> double list \<Rightarrow> string + finger_maps" where
  "finger_tables breakpoints p m d =
     (let xs = map of_integer breakpoints in
      case PiecewiseLinearMap xs p of Inl e \<Rightarrow> Inl e | Inr pm \<Rightarrow>
      (case PiecewiseLinearMap xs m of Inl e \<Rightarrow> Inl e | Inr mm \<Rightarrow>
      (case PiecewiseLinearMap xs d of Inl e \<Rightarrow> Inl e | Inr dm \<Rightarrow>
        Inr \<lparr>proximal = pm, middle = mm, distal = dm\<rparr>)))"

definition make_mapper :: "joint_parameters \<Rightarrow> string + joint_mapper" where
  "make_mapper ps =
     (case finger_tables (jp_finger_breakpoints ps) (jp_proximal ps) (jp_middle ps) (jp_distal ps) of Inl e \<Rightarrow> Inl e
      | Inr fingers \<Rightarrow>
      (case finger_tables (jp_pinch_breakpoints ps) (jp_pinch_proximal ps) (jp_pinch_middle ps) (jp_pinch_distal ps) of
         Inl e \<Rightarrow> Inl e
       | Inr pinch \<Rightarrow>
         (case PiecewiseLinearMap (map of_integer (jp_scissor_breakpoints ps)) (jp_scissor_angle ps) of
            Inl e \<Rightarrow> Inl e
          | Inr scissor \<Rightarrow>
              Inr \<lparr>gm_finger_maps = fingers, gm_pinch_finger_maps = pinch, gm_scissor_map = scissor\<rparr>)))"

text \<open>The constructor of the node. \<open>jn_period\<close> is the period it hands to \<^verbatim>\<open>create_wall_timer\<close>. What the
  library does with a period it cannot represent (a rate so small, or NaN, that the conversion to
  nanoseconds fails) is not modelled: such a node is constructed here, so the properties below hold of
  more nodes than can be started.\<close>

definition JointStatePublisherNode :: "joint_parameters \<Rightarrow> (string + joint_node) option" where
  "JointStatePublisherNode ps =
     (case make_mapper ps of
        Inl e \<Rightarrow> Some (Inl e)
      | Inr gm \<Rightarrow>
          (case map_joints gm 0 6 6 6 137 of
             None \<Rightarrow> None
           | Some reference \<Rightarrow>
               (if dle (jp_publish_rate_hz ps) (Fin 0) then Some (Inl ''publish_rate_hz must be greater than zero'')
                else Some (Inr
                  \<lparr>jn_mapper = gm,
                   jn_joint_state = \<lparr>js_stamp = 0, js_name = joint_names (jp_tf_prefix ps), js_position = reference\<rparr>,
                   jn_publish_reference_without_status = jp_publish_reference_without_status ps,
                   jn_require_activated_status = jp_require_activated_status ps, jn_have_valid_status = False,
                   jn_status_topic = jp_status_topic ps, jn_joint_states_topic = jp_joint_states_topic ps,
                   jn_period = ddiv (Fin 1) (jp_publish_rate_hz ps)\<rparr>))))"

text \<open>The exit code of \<^verbatim>\<open>main\<close>: what the constructor throws is reported and ends the process.\<close>

definition joint_publisher_main :: "joint_parameters \<Rightarrow> int option" where
  "joint_publisher_main ps = map_option (\<lambda>r. case r of Inl _ \<Rightarrow> 1 | Inr _ \<Rightarrow> 0) (JointStatePublisherNode ps)"

definition joint_status_callback :: "status \<Rightarrow> joint_node \<Rightarrow> joint_node option" where
  "joint_status_callback st n =
     (if \<not> s_connected st \<or> jn_require_activated_status n \<and> \<not> s_activated st then Some n
      else
        (case map_joints (jn_mapper n) (s_mode st) (s_actual_position_a st) (s_actual_position_b st)
            (s_actual_position_c st) (s_actual_position_scissor st) of
           None \<Rightarrow> None
         | Some positions \<Rightarrow>
             Some (n\<lparr>jn_joint_state := (jn_joint_state n)\<lparr>js_position := positions\<rparr>, jn_have_valid_status := True\<rparr>)))"

definition publish_joints :: "int \<Rightarrow> joint_node \<Rightarrow> joint_state list \<times> joint_node" where
  "publish_joints now n =
     (if \<not> jn_have_valid_status n \<and> \<not> jn_publish_reference_without_status n then ([], n)
      else (let js = (jn_joint_state n)\<lparr>js_stamp := now\<rparr> in ([js], n\<lparr>jn_joint_state := js\<rparr>)))"

text \<open>What the executor runs: the subscription and the timer, in any order.\<close>

datatype joint_event = Status_received status | Timer_tick int

fun joint_run :: "joint_event list \<Rightarrow> joint_node \<Rightarrow> (joint_state list \<times> joint_node) option" where
  "joint_run [] n = Some ([], n)"
| "joint_run (Status_received st # es) n =
     (case joint_status_callback st n of None \<Rightarrow> None | Some n1 \<Rightarrow> joint_run es n1)"
| "joint_run (Timer_tick now # es) n =
     (case publish_joints now n of (out, n1) \<Rightarrow> map_option (\<lambda>(out', n2). (out @ out', n2)) (joint_run es n1))"

section \<open>Well-formed tables\<close>

text \<open>A table the constructor accepts: finite values, strictly increasing inputs.\<close>

definition valid_table :: "double list \<Rightarrow> double list \<Rightarrow> bool" where
  "valid_table inputs outputs \<longleftrightarrow> 2 \<le> length inputs \<and> length inputs = length outputs \<and>
     (\<forall>v \<in> set (inputs @ outputs). isfinite v) \<and> sorted_wrt dlt inputs"

lemma isfinite_iff: "isfinite a \<longleftrightarrow> (\<exists>r. a = Fin r)"
  by (cases a) (simp_all add: isfinite_def)

lemma dle_Fin [simp]: "dle (Fin x) (Fin y) \<longleftrightarrow> x \<le> y"
  by (auto simp: dle_def deq_def)

lemma ends_nth: "i < length xs \<Longrightarrow> hd xs = xs ! 0 \<and> last xs = xs ! (length xs - 1)"
  by (cases xs) (auto simp: last_conv_nth)

lemma dlt_Fin_iff: "isfinite x \<Longrightarrow> isfinite y \<Longrightarrow> dle x y \<longleftrightarrow> \<not> dlt y x"
  by (auto simp: isfinite_iff dle_def deq_def)

lemma dlt_trans: "isfinite y \<Longrightarrow> dlt x y \<Longrightarrow> dlt y z \<Longrightarrow> dlt x z"
  by (cases x; cases z) (auto simp: isfinite_iff)

lemma check_table_None:
  "length xs = length ys \<Longrightarrow> (\<forall>p. previous = Some p \<longrightarrow> isfinite p) \<Longrightarrow>
   check_table previous xs ys = None \<longleftrightarrow>
     (\<forall>v \<in> set (xs @ ys). isfinite v) \<and> sorted_wrt dlt (case previous of None \<Rightarrow> xs | Some p \<Rightarrow> p # xs)"
proof (induction previous xs ys rule: check_table.induct)
  case (1 previous x xs y ys)
  show ?case
  proof (cases "isfinite x \<and> isfinite y")
    case True
    then have "isfinite x" by simp
    then show ?thesis using 1 True by (cases previous) (auto simp: dlt_Fin_iff intro: dlt_trans)
  qed auto
qed (auto split: option.split)

lemma PiecewiseLinearMap_accepts:
  "PiecewiseLinearMap inputs outputs = Inr m \<longleftrightarrow>
   valid_table inputs outputs \<and> m = \<lparr>pm_inputs = inputs, pm_outputs = outputs\<rparr>"
  using check_table_None [of inputs outputs None]
  by (auto simp: PiecewiseLinearMap_def valid_table_def split: option.splits)

lemma dlt_transp: "transp dlt"
proof (rule transpI)
  fix x y z show "dlt x y \<Longrightarrow> dlt y z \<Longrightarrow> dlt x z" by (cases x; cases y; cases z) simp_all
qed

lemma PiecewiseLinearMap_accepts_iff:
  "(\<exists>m. PiecewiseLinearMap inputs outputs = Inr m) \<longleftrightarrow> 2 \<le> length inputs \<and> length inputs = length outputs \<and>
     (\<forall>v \<in> set (inputs @ outputs). isfinite v) \<and> (\<forall>i. Suc i < length inputs \<longrightarrow> dlt (inputs ! i) (inputs ! Suc i))"
  unfolding PiecewiseLinearMap_accepts
  by (auto simp: valid_table_def sorted_wrt_iff_nth_Suc_transp [OF dlt_transp])

section \<open>Evaluation\<close>

text \<open>A double far from the largest one, so that differences of two do not overflow.\<close>

definition moderate :: "double \<Rightarrow> bool" where
  "moderate v = (case v of Fin r \<Rightarrow> is_double v \<and> \<bar>r\<bar> \<le> 2 ^ 51 | _ \<Rightarrow> False)"

lemma moderate_iff: "moderate v \<longleftrightarrow> (\<exists>r. v = Fin r \<and> is_double v \<and> \<bar>r\<bar> \<le> 2 ^ 51)"
  by (cases v) (simp_all add: moderate_def)

lemma mk_moderate:
  assumes "\<bar>x\<bar> \<le> 2 ^ 53" shows "mk x = Fin (rnd x)" "\<bar>x\<bar> \<le> of_int n \<Longrightarrow> \<bar>n\<bar> \<le> 2 ^ 53 \<Longrightarrow> \<bar>rnd x\<bar> \<le> of_int n"
proof -
  show "mk x = Fin (rnd x)"
    using mk_between [of "of_int (- (2 ^ 53))" "of_int (2 ^ 53)" x] is_double_of_int [of "- (2 ^ 53)"]
      is_double_of_int [of "2 ^ 53"] assms by simp
  show "\<bar>rnd x\<bar> \<le> of_int n" if "\<bar>x\<bar> \<le> of_int n" "\<bar>n\<bar> \<le> 2 ^ 53"
    using mk_between [of "of_int (- n)" "of_int n" x] is_double_of_int [of "- n"] is_double_of_int [of n] that
    by (simp add: abs_le_iff)
qed

text \<open>The rounded interpolation between two samples.\<close>

definition segment :: "rat \<Rightarrow> rat \<Rightarrow> rat \<Rightarrow> rat \<Rightarrow> rat \<Rightarrow> rat" where
  "segment a b o1 o2 x = rnd (o1 + rnd (rnd (rnd (x - a) / rnd (b - a)) * rnd (o2 - o1)))"

lemma segment_evaluates:
  assumes "is_double (Fin a)" "is_double (Fin b)" "is_double (Fin o1)" "\<bar>a\<bar> \<le> 2 ^ 51" "\<bar>b\<bar> \<le> 2 ^ 51" "\<bar>o1\<bar> \<le> 2 ^ 51" "\<bar>o2\<bar> \<le> 2 ^ 51"
    and "a \<le> x" "x < b"
  shows "dadd (Fin o1) (dmul (ddiv (dsub (Fin x) (Fin a)) (dsub (Fin b) (Fin a))) (dsub (Fin o2) (Fin o1))) =
    Fin (segment a b o1 o2 x)"
proof -
  have ints: "(2 :: rat) ^ 52 = of_int (2 ^ 52)" by simp
  have "\<bar>x - a\<bar> \<le> 2 ^ 53" "\<bar>b - a\<bar> \<le> 2 ^ 53" "\<bar>o2 - o1\<bar> \<le> of_int (2 ^ 52)" "\<bar>o2 - o1\<bar> \<le> 2 ^ 53" using assms by auto
  note 1 = mk_moderate(1) [OF this(1)] mk_moderate(1) [OF this(2)] mk_moderate(1) [OF this(4)] mk_moderate(2) [OF this(4,3)]
  have pos: "0 < rnd (b - a)" using rnd_diff_pos [of b a] assms by (auto simp: is_double_def)
  have "0 \<le> rnd (x - a)" "rnd (x - a) \<le> rnd (b - a)" using rnd_sign(1) rnd_mono assms by auto
  then have q: "0 \<le> rnd (x - a) / rnd (b - a)" "rnd (x - a) / rnd (b - a) \<le> 1" using pos by auto
  define f where "f = rnd (rnd (x - a) / rnd (b - a))"
  have f: "mk (rnd (x - a) / rnd (b - a)) = Fin f" "0 \<le> f" "f \<le> 1"
    using mk_between [of 0 1 "rnd (x - a) / rnd (b - a)"] q is_double_of_int [of 0] is_double_of_int [of 1] by (simp_all add: f_def)
  define d where "d = rnd (o2 - o1)"
  have d: "\<bar>d\<bar> \<le> of_int (2 ^ 52)" using 1(4) by (simp add: d_def)
  have "\<bar>f * d\<bar> \<le> \<bar>d\<bar>" using f(2,3) by (simp add: abs_mult mult_left_le_one_le)
  then have fd: "\<bar>f * d\<bar> \<le> of_int (2 ^ 52)" "\<bar>f * d\<bar> \<le> 2 ^ 53" using d by auto
  note 2 = mk_moderate(1) [OF fd(2)] mk_moderate(2) [OF fd(2,1)]
  then have "\<bar>o1 + rnd (f * d)\<bar> \<le> 2 ^ 53" using assms(6) by auto
  note 3 = mk_moderate(1) [OF this]
  show ?thesis using 1 2 3 pos f(1) by (simp add: dsub_def segment_def d_def f_def)
qed

lemma segment_mono:
  assumes "a \<le> x" "x \<le> x'" "x' < b" "representable a" "representable b"
  shows "o1 \<le> o2 \<Longrightarrow> segment a b o1 o2 x \<le> segment a b o1 o2 x'" "o2 \<le> o1 \<Longrightarrow> segment a b o1 o2 x' \<le> segment a b o1 o2 x"
proof -
  have "0 < rnd (b - a)" using rnd_diff_pos [of b a] assms by auto
  then have f: "rnd (rnd (x - a) / rnd (b - a)) \<le> rnd (rnd (x' - a) / rnd (b - a))"
    using rnd_mono [of "x - a" "x' - a"] assms(2) by (intro rnd_mono divide_right_mono) auto
  show "segment a b o1 o2 x \<le> segment a b o1 o2 x'" if "o1 \<le> o2"
    unfolding segment_def using that by (intro rnd_mono [OF add_left_mono] rnd_mono [OF mult_right_mono [OF f]] rnd_sign(1)) auto
  show "segment a b o1 o2 x' \<le> segment a b o1 o2 x" if "o2 \<le> o1"
    unfolding segment_def using that by (intro rnd_mono [OF add_left_mono] rnd_mono [OF mult_right_mono_neg [OF f]] rnd_sign(2)) auto
qed

lemma segment_start:
  assumes "representable o1" shows "segment a b o1 o2 a = o1"
  using assms by (simp add: segment_def rnd_representable)

text \<open>How far the rounded interpolation is from the straight line through the two samples.\<close>

definition straight_line :: "rat \<Rightarrow> rat \<Rightarrow> rat \<Rightarrow> rat \<Rightarrow> rat \<Rightarrow> rat" where
  "straight_line a b o1 o2 x = o1 + (x - a) / (b - a) * (o2 - o1)"

lemma quotient_error:
  fixes n d n' d' u :: rat
  assumes "0 \<le> n" "n \<le> d" "0 < d" "\<bar>n' - n\<bar> \<le> n * u" "\<bar>d' - d\<bar> \<le> d * u" "0 < u" "u \<le> 1 / 4"
  shows "\<bar>n' / d' - n / d\<bar> \<le> 3 * u"
proof -
  have "d * u \<le> d * (1 / 4)" using assms(3,7) by (intro mult_left_mono) simp_all
  then have d': "d * (3 / 4) \<le> d'" using assms(5) by linarith
  then have pos: "0 < d'" using assms(3) by (auto intro: less_le_trans [rotated])
  have "\<bar>(n' - n) * d - n * (d' - d)\<bar> \<le> \<bar>(n' - n) * d\<bar> + \<bar>n * (d' - d)\<bar>" by (rule abs_triangle_ineq4)
  also have "\<dots> \<le> n * u * d + n * (d * u)"
    using assms(1,3,4,5) by (intro add_mono) (simp_all add: abs_mult mult_left_mono mult_right_mono)
  also have "\<dots> = 2 * u * (n * d)" by simp
  also have "\<dots> \<le> 2 * u * (d * d)" using assms(2,3,6) by (intro mult_left_mono mult_right_mono) simp_all
  also have "\<dots> \<le> 3 * u * (d * (3 / 4) * d)" using assms(3,6) by simp
  also have "\<dots> \<le> 3 * u * (d' * d)" using d' assms(3,6) by (intro mult_left_mono mult_right_mono) simp_all
  finally have m: "\<bar>(n' - n) * d - n * (d' - d)\<bar> \<le> 3 * u * (d' * d)" .
  have "n' / d' - n / d = ((n' - n) * d - n * (d' - d)) / (d' * d)"
    using assms(3) pos by (simp add: field_simps)
  then have "\<bar>n' / d' - n / d\<bar> = \<bar>(n' - n) * d - n * (d' - d)\<bar> / (d' * d)" using assms(3) pos by (simp add: abs_mult)
  also have "\<dots> \<le> 3 * u" using m assms(3) pos by (simp add: pos_divide_le_eq)
  finally show ?thesis .
qed

lemma segment_error:
  assumes r: "representable a" "representable b" "representable o1" "representable o2" "representable x"
    and x: "a \<le> x" "x < b"
  shows "\<bar>segment a b o1 o2 x - straight_line a b o1 o2 x\<bar> \<le> (\<bar>o1\<bar> + \<bar>o2\<bar>) / 2 ^ 48 + 1 / 2 ^ 1073"
proof -
  define u :: rat where "u = 1 / 2 ^ 53"
  define w where "w = o2 - o1"
  define w' where "w' = rnd w"
  define t where "t = (x - a) / (b - a)"
  define q where "q = rnd (x - a) / rnd (b - a)"
  define f where "f = rnd q"
  define p where "p = rnd (f * w')"
  have u: "0 < u" "u \<le> 1 / 100" "0 < tiny" "tiny \<le> u" by (simp_all add: u_def tiny_def)
  have err: "\<bar>rnd v - v\<bar> \<le> \<bar>v\<bar> * u + tiny" for v using rnd_error [of v] by (simp add: u_def)
  have diff: "\<bar>rnd (v - v') - (v - v')\<bar> \<le> \<bar>v - v'\<bar> * u" if "representable v" "representable v'" for v v'
    using rnd_diff_error [OF that] by (simp add: u_def)
  have small: "v * u \<le> v / 100" if "0 \<le> v" for v using mult_left_mono [OF u(2) that] by simp
  have ba: "0 < b - a" and xa: "0 \<le> x - a" "x - a \<le> b - a" using x by auto
  have "\<bar>rnd (x - a) - (x - a)\<bar> \<le> (x - a) * u" "\<bar>rnd (b - a) - (b - a)\<bar> \<le> (b - a) * u"
    using diff [OF r(5,1)] diff [OF r(2,1)] xa ba by simp_all
  then have q: "\<bar>q - t\<bar> \<le> 3 * u" unfolding q_def t_def by (rule quotient_error [OF xa ba]) (use u in simp_all)
  have t: "0 \<le> t" "t \<le> 1" using xa ba by (simp_all add: t_def)
  have "\<bar>q\<bar> \<le> 2" using q t u by linarith
  then have "\<bar>q\<bar> * u \<le> 2 * u" using u(1) by (intro mult_right_mono) simp_all
  then have f: "\<bar>f - t\<bar> \<le> 6 * u" using err [of q] q u(4) unfolding f_def by linarith
  have w': "\<bar>w' - w\<bar> \<le> \<bar>w\<bar> * u" using diff [OF r(4,3)] by (simp add: w'_def w_def)
  then have w2: "\<bar>w'\<bar> \<le> 2 * \<bar>w\<bar>" using small [of "\<bar>w\<bar>"] abs_ge_zero [of w] by linarith
  have "f * w' - t * w = (f - t) * w' + t * (w' - w)" by (simp add: algebra_simps)
  then have "\<bar>f * w' - t * w\<bar> \<le> \<bar>f - t\<bar> * \<bar>w'\<bar> + t * \<bar>w' - w\<bar>"
    using t abs_triangle_ineq [of "(f - t) * w'" "t * (w' - w)"] by (simp add: abs_mult)
  also have "\<dots> \<le> 6 * u * (2 * \<bar>w\<bar>) + 1 * (\<bar>w\<bar> * u)" using f w2 w' t u by (intro add_mono mult_mono) simp_all
  finally have fw: "\<bar>f * w' - t * w\<bar> \<le> 13 * (\<bar>w\<bar> * u)" by (simp add: mult.commute)
  have tw: "\<bar>t * w\<bar> \<le> \<bar>w\<bar>" using t by (simp add: abs_mult mult_left_le_one_le)
  have "\<bar>f * w'\<bar> \<le> 2 * \<bar>w\<bar>" using fw tw small [of "\<bar>w\<bar>"] by linarith
  then have "\<bar>f * w'\<bar> * u \<le> 2 * (\<bar>w\<bar> * u)" using mult_right_mono [of "\<bar>f * w'\<bar>" "2 * \<bar>w\<bar>" u] u(1) by simp
  then have p: "\<bar>p - t * w\<bar> \<le> 15 * (\<bar>w\<bar> * u) + tiny" using err [of "f * w'"] fw unfolding p_def by linarith
  then have "\<bar>o1 + p\<bar> \<le> \<bar>o1\<bar> + 2 * \<bar>w\<bar> + tiny" using tw small [of "\<bar>w\<bar>"] by linarith
  then have "\<bar>o1 + p\<bar> * u \<le> (\<bar>o1\<bar> + 2 * \<bar>w\<bar> + tiny) * u" using u(1) by (intro mult_right_mono) simp_all
  also have "\<dots> = \<bar>o1\<bar> * u + 2 * (\<bar>w\<bar> * u) + tiny * u" by (simp add: algebra_simps)
  finally have "\<bar>rnd (o1 + p) - (o1 + t * w)\<bar> \<le> \<bar>o1\<bar> * u + 17 * (\<bar>w\<bar> * u) + 3 * tiny"
    using err [of "o1 + p"] p small [of tiny] u(3) by linarith
  moreover have "\<bar>w\<bar> * u \<le> (\<bar>o1\<bar> + \<bar>o2\<bar>) * u" using u(1) by (intro mult_right_mono) (simp_all add: w_def)
  ultimately have "\<bar>rnd (o1 + p) - (o1 + t * w)\<bar> \<le> 18 * \<bar>o1\<bar> * u + 17 * \<bar>o2\<bar> * u + 3 * tiny" by (simp add: algebra_simps)
  also have "\<dots> \<le> (\<bar>o1\<bar> + \<bar>o2\<bar>) / 2 ^ 48 + 1 / 2 ^ 1073" by (intro add_mono) (simp_all add: u_def tiny_def)
  finally show ?thesis unfolding segment_def straight_line_def w_def w'_def t_def q_def f_def p_def .
qed

lemma upper_bound_segment:
  assumes "sorted_wrt dlt xs" "\<forall>v \<in> set xs. isfinite v" "Suc i < length xs" "dle (xs ! i) (Fin x)" "dlt (Fin x) (xs ! Suc i)"
  shows "upper_bound xs (Fin x) = Suc i"
proof -
  have "\<not> dlt (Fin x) (xs ! j)" if "j < Suc i" for j
  proof (cases "j = i")
    case False
    then have "dlt (xs ! j) (xs ! i)" using sorted_wrt_nth_less [OF assms(1), of j i] that assms(3) by auto
    moreover have "isfinite (xs ! i)" "isfinite (xs ! j)" using assms(2,3) that by auto
    ultimately show ?thesis using assms(4) by (auto simp: isfinite_iff dle_def deq_def)
  qed (use assms(2-4) dlt_Fin_iff [of "xs ! i" "Fin x"] in \<open>auto simp: isfinite_def\<close>)
  then have "takeWhile (\<lambda>v. \<not> dlt (Fin x) v) xs = take (Suc i) xs"
    using assms(5) by (intro takeWhile_eq_take_P_nth) auto
  then show ?thesis using assms(3) by (simp add: upper_bound_def)
qed

text \<open>Where a value between two neighbouring samples lies in the table.\<close>

lemma inside_table:
  assumes "sorted_wrt dlt xs" "\<forall>v \<in> set xs. isfinite v" "Suc i < length xs" "dle (xs ! i) (Fin x)" "dlt (Fin x) (xs ! Suc i)"
  shows "dle (hd xs) (Fin x)" "\<not> dle (last xs) (Fin x)" "dle (Fin x) (hd xs) \<Longrightarrow> i = 0"
proof -
  have less: "dlt (xs ! j) (xs ! k)" if "j < k" "k < length xs" for j k
    using sorted_wrt_nth_less [OF assms(1)] that by auto
  have fin: "isfinite (xs ! j)" if "j < length xs" for j using assms(2) that by auto
  note ends = ends_nth [OF assms(3)]
  have "0 < length xs" using assms(3) by linarith
  then obtain r where r: "xs ! 0 = Fin r" using fin isfinite_iff by blast
  have "i = 0 \<or> r < x"
    using less [of 0 i] fin [of i] assms(3,4) r by (cases "i = 0") (auto simp: isfinite_iff)
  then show "dle (hd xs) (Fin x)" "dle (Fin x) (hd xs) \<Longrightarrow> i = 0" using assms(4) ends r by auto
  have "Suc i = length xs - 1 \<or> dlt (xs ! Suc i) (last xs)" using less [of "Suc i" "length xs - 1"] assms(3) ends by force
  then have "dlt (Fin x) (last xs)" using assms(5) fin [OF assms(3)] ends by (auto intro: dlt_trans)
  then show "\<not> dle (last xs) (Fin x)" by (cases "last xs") (auto simp: dle_def deq_def)
qed

lemma evaluate_in_segment:
  assumes t: "valid_table inputs outputs" and mod: "\<forall>v \<in> set (inputs @ outputs). moderate v"
    and i: "Suc i < length inputs" and x: "dle (inputs ! i) (Fin x)" "dlt (Fin x) (inputs ! Suc i)"
    and v: "inputs ! i = Fin a" "inputs ! Suc i = Fin b" "outputs ! i = Fin o1" "outputs ! Suc i = Fin o2"
  shows "evaluate \<lparr>pm_inputs = inputs, pm_outputs = outputs\<rparr> (Fin x) = Some (Fin (segment a b o1 o2 x))"
proof -
  have sorted: "sorted_wrt dlt inputs" and fin: "\<forall>v \<in> set inputs. isfinite v" and len: "length outputs = length inputs"
    using t by (auto simp: valid_table_def)
  have in_range: "moderate (Fin a)" "moderate (Fin b)" "moderate (Fin o1)" "moderate (Fin o2)"
    using mod i len v nth_mem [of i inputs] nth_mem [of "Suc i" inputs] nth_mem [of i outputs] nth_mem [of "Suc i" outputs]
    by auto
  have ax: "a \<le> x" "x < b" using x v by (auto simp: dle_def deq_def)
  note inside = inside_table [OF sorted fin i x]
  have "hd outputs = Fin (segment a b o1 o2 x)" if h: "dle (Fin x) (hd inputs)"
  proof -
    have "i = 0" by (rule inside(3) [OF h])
    then have "hd inputs = Fin a" "hd outputs = Fin o1" using v i len by (cases inputs; cases outputs; auto)+
    then show ?thesis using h ax segment_start [of o1 a b o2] in_range(3)
      by (auto simp: dle_def deq_def moderate_def is_double_def)
  qed
  then show ?thesis
    using inside(2) upper_bound_segment [OF sorted fin i x] segment_evaluates [OF _ _ _ _ _ _ _ ax, of o1 o2] in_range i v
    by (auto simp: evaluate_def moderate_def)
qed

lemma evaluate_ends:
  assumes "valid_table inputs outputs"
  shows "dle v (hd inputs) \<Longrightarrow> evaluate \<lparr>pm_inputs = inputs, pm_outputs = outputs\<rparr> v = Some (hd outputs)"
    "dle (last inputs) v \<Longrightarrow> evaluate \<lparr>pm_inputs = inputs, pm_outputs = outputs\<rparr> v = Some (last outputs)"
proof -
  have t: "sorted_wrt dlt inputs" "2 \<le> length inputs" "\<forall>v \<in> set inputs. isfinite v" using assms by (auto simp: valid_table_def)
  then have "inputs \<noteq> []" by auto
  then have "dlt (hd inputs) (last inputs)" "isfinite (hd inputs)" "isfinite (last inputs)"
    using t sorted_wrt_nth_less [OF t(1), of 0 "length inputs - 1"] by (auto simp: hd_conv_nth last_conv_nth)
  then show "dle v (hd inputs) \<Longrightarrow> evaluate \<lparr>pm_inputs = inputs, pm_outputs = outputs\<rparr> v = Some (hd outputs)"
    "dle (last inputs) v \<Longrightarrow> evaluate \<lparr>pm_inputs = inputs, pm_outputs = outputs\<rparr> v = Some (last outputs)"
    by (cases v; auto simp: evaluate_def isfinite_iff dle_def deq_def)+
qed

lemma evaluate_sample:
  assumes t: "valid_table inputs outputs" and mod: "\<forall>v \<in> set (inputs @ outputs). moderate v" and i: "i < length inputs"
  shows "evaluate \<lparr>pm_inputs = inputs, pm_outputs = outputs\<rparr> (inputs ! i) = Some (outputs ! i)"
proof -
  have fin: "isfinite (inputs ! j)" "isfinite (outputs ! j)" if "j < length inputs" for j
    using t that nth_mem [of j outputs] by (auto simp: valid_table_def)
  have len: "length outputs = length inputs" using t by (simp add: valid_table_def)
  show ?thesis
  proof (cases "Suc i < length inputs")
    case True
    then obtain a b o1 o2 where v: "inputs ! i = Fin a" "inputs ! Suc i = Fin b" "outputs ! i = Fin o1" "outputs ! Suc i = Fin o2"
      using fin [of i] fin [of "Suc i"] by (auto simp: isfinite_iff)
    have "dlt (inputs ! i) (inputs ! Suc i)" using t True by (auto simp: valid_table_def sorted_wrt_nth_less)
    moreover have "moderate (outputs ! i)" using mod i len by auto
    then have "representable o1" using v(3) by (simp add: moderate_def is_double_def)
    ultimately show ?thesis
      using evaluate_in_segment [OF t mod True _ _ v, of a] v segment_start by (simp add: dle_def deq_def)
  next
    case False
    then have e: "i = length inputs - 1" using i by simp
    have "dle (last inputs) (inputs ! i)" using ends_nth [OF i] e fin [OF i] by (auto simp: isfinite_iff)
    moreover have "last outputs = outputs ! i" using ends_nth [of i outputs] i len e by auto
    ultimately show ?thesis using evaluate_ends(2) [OF t, of "inputs ! i"] by simp
  qed
qed

lemma evaluate_monotone:
  assumes t: "valid_table inputs outputs" and mod: "\<forall>v \<in> set (inputs @ outputs). moderate v"
    and i: "Suc i < length inputs" and x: "dle (inputs ! i) (Fin x)" "x \<le> x'" "dlt (Fin x') (inputs ! Suc i)"
  shows "\<exists>y y'. evaluate \<lparr>pm_inputs = inputs, pm_outputs = outputs\<rparr> (Fin x) = Some (Fin y) \<and>
    evaluate \<lparr>pm_inputs = inputs, pm_outputs = outputs\<rparr> (Fin x') = Some (Fin y') \<and>
    (dle (outputs ! i) (outputs ! Suc i) \<longrightarrow> dle (outputs ! i) (Fin y) \<and> y \<le> y') \<and>
    (dle (outputs ! Suc i) (outputs ! i) \<longrightarrow> dle (Fin y) (outputs ! i) \<and> y' \<le> y)"
proof -
  have len: "length outputs = length inputs" using t by (simp add: valid_table_def)
  have m: "moderate (inputs ! i)" "moderate (inputs ! Suc i)" "moderate (outputs ! i)" "moderate (outputs ! Suc i)"
    using mod i len by (auto intro: nth_mem)
  then obtain a b o1 o2 where v: "inputs ! i = Fin a" "inputs ! Suc i = Fin b" "outputs ! i = Fin o1" "outputs ! Suc i = Fin o2"
    by (auto simp: moderate_iff)
  have r: "representable a" "representable b" "representable o1" using m v by (auto simp: moderate_def is_double_def)
  have ax: "a \<le> x" "x' < b" using x v by (auto simp: dle_def deq_def)
  have "dlt (Fin x) (inputs ! Suc i)" "dle (inputs ! i) (Fin x')" using ax x(2) v by (auto simp: dle_def deq_def)
  note e = evaluate_in_segment [OF t mod i x(1) this(1) v] evaluate_in_segment [OF t mod i this(2) x(3) v]
  have xb: "x < b" using ax x(2) by simp
  note s = segment_mono [OF ax(1) x(2) ax(2) r(1,2), where ?o1.0 = o1 and ?o2.0 = o2]
    segment_mono [OF order_refl ax(1) xb r(1,2), where ?o1.0 = o1 and ?o2.0 = o2, unfolded segment_start [OF r(3)]]
  show ?thesis using e s v by auto
qed

lemma evaluate_inside:
  assumes t: "valid_table inputs outputs" and mod: "\<forall>v \<in> set (inputs @ outputs). moderate v"
    and i: "Suc i < length inputs" and v: "inputs ! i = Fin a" "inputs ! Suc i = Fin b" "outputs ! i = Fin o1" "outputs ! Suc i = Fin o2"
    and x: "a \<le> x" "x < b"
  shows "\<exists>y. evaluate \<lparr>pm_inputs = inputs, pm_outputs = outputs\<rparr> (Fin x) = Some (Fin y) \<and>
    y = rnd (o1 + rnd (rnd (rnd (x - a) / rnd (b - a)) * rnd (o2 - o1))) \<and>
    (is_double (Fin x) \<longrightarrow>
      \<bar>y - (o1 + (x - a) / (b - a) * (o2 - o1))\<bar> \<le> (\<bar>o1\<bar> + \<bar>o2\<bar>) / 2 ^ 48 + 1 / 2 ^ 1073)"
proof -
  have len: "length outputs = length inputs" using t by (simp add: valid_table_def)
  have "moderate (inputs ! i)" "moderate (inputs ! Suc i)" "moderate (outputs ! i)" "moderate (outputs ! Suc i)"
    using mod i len by (auto intro: nth_mem)
  then have r: "representable a" "representable b" "representable o1" "representable o2"
    unfolding v by (simp_all add: moderate_def is_double_def)
  have "dle (inputs ! i) (Fin x)" "dlt (Fin x) (inputs ! Suc i)" using x v by simp_all
  note e = evaluate_in_segment [OF t mod i this v]
  have "\<bar>segment a b o1 o2 x - straight_line a b o1 o2 x\<bar> \<le> (\<bar>o1\<bar> + \<bar>o2\<bar>) / 2 ^ 48 + 1 / 2 ^ 1073" if "is_double (Fin x)"
    using segment_error [OF r _ x] that by (simp add: is_double_def)
  then show ?thesis using e unfolding segment_def straight_line_def by blast
qed

text \<open>C39. The constructor accepts exactly the tables of at least two finite samples with strictly increasing
  inputs, and a table it accepts is interpolated. The samples are reproduced exactly, and values outside
  are held at the first and the last sample. Between two samples the result is the rounded interpolation
  of the two, operation by operation; for a double it differs from the straight line through them by a
  relative error of \<open>2 ^ -48\<close> of their size at most (or by the least positive doubles); and it follows the
  direction of the two, rounding included.\<close>

theorem table_is_interpolated:
  assumes m: "PiecewiseLinearMap inputs outputs = Inr m" and mod: "\<forall>v \<in> set (inputs @ outputs). moderate v"
  shows "(\<forall>is os. (\<exists>m'. PiecewiseLinearMap is os = Inr m') \<longleftrightarrow> 2 \<le> length is \<and> length is = length os \<and>
       (\<forall>v \<in> set (is @ os). isfinite v) \<and> (\<forall>i. Suc i < length is \<longrightarrow> dlt (is ! i) (is ! Suc i))) \<and>
    valid_table inputs outputs \<and>
    (\<forall>i < length inputs. evaluate m (inputs ! i) = Some (outputs ! i)) \<and>
    (\<forall>v. dle v (hd inputs) \<longrightarrow> evaluate m v = Some (hd outputs)) \<and>
    (\<forall>v. dle (last inputs) v \<longrightarrow> evaluate m v = Some (last outputs)) \<and>
    (\<forall>i a b o1 o2 x. Suc i < length inputs \<and> inputs ! i = Fin a \<and> inputs ! Suc i = Fin b \<and>
       outputs ! i = Fin o1 \<and> outputs ! Suc i = Fin o2 \<and> a \<le> x \<and> x < b \<longrightarrow>
      (\<exists>y. evaluate m (Fin x) = Some (Fin y) \<and>
        y = rnd (o1 + rnd (rnd (rnd (x - a) / rnd (b - a)) * rnd (o2 - o1))) \<and>
        (is_double (Fin x) \<longrightarrow>
          \<bar>y - (o1 + (x - a) / (b - a) * (o2 - o1))\<bar> \<le> (\<bar>o1\<bar> + \<bar>o2\<bar>) / 2 ^ 48 + 1 / 2 ^ 1073))) \<and>
    (\<forall>i x x'. Suc i < length inputs \<and> dle (inputs ! i) (Fin x) \<and> x \<le> x' \<and> dlt (Fin x') (inputs ! Suc i) \<longrightarrow>
      (\<exists>y y'. evaluate m (Fin x) = Some (Fin y) \<and> evaluate m (Fin x') = Some (Fin y') \<and>
        (dle (outputs ! i) (outputs ! Suc i) \<longrightarrow> dle (outputs ! i) (Fin y) \<and> y \<le> y') \<and>
        (dle (outputs ! Suc i) (outputs ! i) \<longrightarrow> dle (Fin y) (outputs ! i) \<and> y' \<le> y)))"
proof -
  have t: "valid_table inputs outputs" and m: "m = \<lparr>pm_inputs = inputs, pm_outputs = outputs\<rparr>"
    using m PiecewiseLinearMap_accepts by auto
  show ?thesis unfolding m
  proof (intro conjI allI, goal_cases)
    case (1 xs ys) then show ?case by (rule PiecewiseLinearMap_accepts_iff)
  next
    case 2 show ?case by (rule t)
  next
    case (3 i) show ?case using evaluate_sample [OF t mod] by simp
  next
    case (4 v) show ?case using evaluate_ends(1) [OF t] by simp
  next
    case (5 v) show ?case using evaluate_ends(2) [OF t] by simp
  next
    case (6 i a b o1 o2 x) show ?case using evaluate_inside [OF t mod, of i a b o1 o2 x] by simp
  next
    case (7 i x x') show ?case using evaluate_monotone [OF t mod, of i x x'] by simp
  qed
qed

section \<open>The published joint states\<close>

lemma segment_exists:
  "\<forall>v \<in> set xs. isfinite v \<Longrightarrow> xs \<noteq> [] \<Longrightarrow> dle (hd xs) (Fin x) \<Longrightarrow> \<not> dle (last xs) (Fin x) \<Longrightarrow>
   \<exists>i. Suc i < length xs \<and> dle (xs ! i) (Fin x) \<and> dlt (Fin x) (xs ! Suc i)"
proof (induction xs rule: induct_list012)
  case (3 a b r)
  show ?case
  proof (cases "dlt (Fin x) b")
    case True
    then show ?thesis using "3.prems" by (intro exI [of _ 0]) simp
  next
    case False
    then have "dle (hd (b # r)) (Fin x)" using "3.prems"(1) dlt_Fin_iff [of b "Fin x"] by (simp add: isfinite_def)
    then obtain i where "Suc i < length (b # r)" "dle ((b # r) ! i) (Fin x)" "dlt (Fin x) ((b # r) ! Suc i)"
      using "3.IH"(2) "3.prems" by auto
    then show ?thesis by (intro exI [of _ "Suc i"]) simp
  qed
qed auto

definition moderate_table :: "piecewise_map \<Rightarrow> bool" where
  "moderate_table m \<longleftrightarrow> valid_table (pm_inputs m) (pm_outputs m) \<and> (\<forall>v \<in> set (pm_inputs m @ pm_outputs m). moderate v)"

lemma evaluate_finite:
  assumes "moderate_table m" shows "\<exists>y. evaluate m (Fin x) = Some (Fin y)"
proof -
  obtain xs ys where m: "m = \<lparr>pm_inputs = xs, pm_outputs = ys\<rparr>" by (cases m)
  have t: "valid_table xs ys" and mod: "\<forall>v \<in> set (xs @ ys). moderate v" using assms by (simp_all add: moderate_table_def m)
  have fin: "\<forall>v \<in> set (xs @ ys). isfinite v" and ne: "xs \<noteq> []" "ys \<noteq> []" using t by (auto simp: valid_table_def)
  have ends: "isfinite (hd xs)" "isfinite (hd ys)" "isfinite (last ys)" using fin ne by auto
  consider "dle (Fin x) (hd xs)" | "dle (last xs) (Fin x)" | "dle (hd xs) (Fin x)" "\<not> dle (last xs) (Fin x)"
    using dlt_Fin_iff [of "Fin x" "hd xs"] ends(1) by (auto simp: dle_def isfinite_def)
  then show ?thesis
  proof cases
    case 3
    obtain i where i: "Suc i < length xs" "dle (xs ! i) (Fin x)" "dlt (Fin x) (xs ! Suc i)"
      using segment_exists [of xs x] fin ne(1) 3 by auto
    show ?thesis using evaluate_monotone [OF t mod i(1,2) order_refl i(3)] m by auto
  qed (use evaluate_ends [OF t] ends m in \<open>auto simp: isfinite_iff\<close>)
qed

definition moderate_mapper :: "joint_mapper \<Rightarrow> bool" where
  "moderate_mapper gm \<longleftrightarrow> moderate_table (gm_scissor_map gm) \<and>
     (\<forall>maps \<in> {gm_finger_maps gm, gm_pinch_finger_maps gm}.
        moderate_table (proximal maps) \<and> moderate_table (middle maps) \<and> moderate_table (distal maps))"

text \<open>Eleven finite angles, the scissor joints of the outer fingers opposite.\<close>

definition well_formed_pose :: "double list \<Rightarrow> bool" where
  "well_formed_pose p \<longleftrightarrow> length p = 11 \<and> (\<forall>v \<in> set p. isfinite v) \<and> p ! 7 = dneg (p ! 3)"

lemma byte_to_double_eq: "byte_to_double b = Fin (of_int (uint b))"
  using unsigned_less [of b, where 'a = int] by (simp add: byte_to_double_def of_integer_exact)

lemma map_joints_pose:
  assumes "moderate_mapper gm"
  shows "\<exists>p. map_joints gm mode a b c s = Some p \<and> well_formed_pose p"
proof -
  define maps where "maps = (if mode = 1 then gm_pinch_finger_maps gm else gm_finger_maps gm)"
  have "moderate_table (proximal maps)" "moderate_table (middle maps)" "moderate_table (distal maps)"
    using assms by (auto simp: moderate_mapper_def maps_def)
  then obtain f g h where "\<And>x. evaluate (proximal maps) (Fin x) = Some (Fin (f x))"
    "\<And>x. evaluate (middle maps) (Fin x) = Some (Fin (g x))" "\<And>x. evaluate (distal maps) (Fin x) = Some (Fin (h x))"
    by (metis evaluate_finite)
  then have finger: "\<exists>x y z. map_finger maps pos = Some [Fin x, Fin y, Fin z]" for pos
    by (simp add: map_finger_def byte_to_double_eq)
  obtain x where x: "evaluate (gm_scissor_map gm) (byte_to_double s) = Some (Fin x)"
    using assms evaluate_finite by (auto simp: byte_to_double_eq moderate_mapper_def)
  obtain x1 y1 z1 x2 y2 z2 x3 y3 z3 where "map_finger maps a = Some [Fin x1, Fin y1, Fin z1]"
    "map_finger maps b = Some [Fin x2, Fin y2, Fin z2]" "map_finger maps c = Some [Fin x3, Fin y3, Fin z3]"
    using finger [of a] finger [of b] finger [of c] by blast
  then have "map_joints gm mode a b c s =
      Some [Fin x1, Fin y1, Fin z1, Fin x, Fin x2, Fin y2, Fin z2, Fin (- x), Fin x3, Fin y3, Fin z3]"
    using x by (simp add: map_joints_def maps_def [symmetric] Let_def)
  then show ?thesis by (simp add: well_formed_pose_def isfinite_def)
qed

text \<open>What should be published: the pose of the last status that counts, or what is shown before.\<close>

definition pose_of_status :: "joint_mapper \<Rightarrow> status \<Rightarrow> double list option" where
  "pose_of_status gm st = map_joints gm (s_mode st) (s_actual_position_a st) (s_actual_position_b st)
     (s_actual_position_c st) (s_actual_position_scissor st)"

fun expected_states :: "joint_mapper \<Rightarrow> bool \<Rightarrow> string list \<Rightarrow> double list option \<Rightarrow> joint_event list \<Rightarrow> joint_state list" where
  "expected_states gm req names shown [] = []"
| "expected_states gm req names shown (Status_received st # es) =
     expected_states gm req names (if s_connected st \<and> (req \<longrightarrow> s_activated st) then pose_of_status gm st else shown) es"
| "expected_states gm req names shown (Timer_tick now # es) =
     (case shown of None \<Rightarrow> [] | Some p \<Rightarrow> [\<lparr>js_stamp = now, js_name = names, js_position = p\<rparr>]) @
     expected_states gm req names shown es"

definition shown_by :: "joint_node \<Rightarrow> double list option" where
  "shown_by n = (if jn_have_valid_status n \<or> jn_publish_reference_without_status n
     then Some (js_position (jn_joint_state n)) else None)"

lemma joint_run_expected:
  assumes "moderate_mapper (jn_mapper n)"
  shows "\<exists>n'. joint_run es n = Some (expected_states (jn_mapper n) (jn_require_activated_status n) (js_name (jn_joint_state n))
    (shown_by n) es, n')"
  using assms
proof (induction es arbitrary: n)
  case (Cons e es)
  show ?case
  proof (cases e)
    case (Status_received st)
    obtain p where p: "pose_of_status (jn_mapper n) st = Some p"
      using map_joints_pose [OF Cons.prems] unfolding pose_of_status_def by blast
    show ?thesis
      using Cons.IH [of n] Cons.IH [of "n\<lparr>jn_joint_state := (jn_joint_state n)\<lparr>js_position := p\<rparr>, jn_have_valid_status := True\<rparr>"]
        Cons.prems p
      by (auto simp: Status_received joint_status_callback_def pose_of_status_def shown_by_def)
  next
    case (Timer_tick now)
    show ?thesis
      using Cons.IH [of n] Cons.IH [of "n\<lparr>jn_joint_state := (jn_joint_state n)\<lparr>js_stamp := now\<rparr>\<rparr>"] Cons.prems
      by (cases "jn_joint_state n") (auto simp: Timer_tick publish_joints_def shown_by_def Let_def)
  qed
qed simp

lemma expected_well_formed:
  assumes "moderate_mapper gm" "\<forall>p. shown = Some p \<longrightarrow> well_formed_pose p" "js \<in> set (expected_states gm req names shown es)"
  shows "js_name js = names \<and> well_formed_pose (js_position js)"
  using assms(2,3)
proof (induction es arbitrary: shown)
  case (Cons e es)
  show ?case
  proof (cases e)
    case (Status_received st)
    obtain p where "pose_of_status gm st = Some p" "well_formed_pose p"
      using map_joints_pose [OF assms(1)] unfolding pose_of_status_def by blast
    then show ?thesis using Cons.IH [of "Some p"] Cons.IH [of shown] Cons.prems Status_received by (auto split: if_splits)
  next
    case (Timer_tick now)
    then show ?thesis using Cons.IH [of shown] Cons.prems by (auto split: option.splits)
  qed
qed simp

text \<open>Where a published pose comes from.\<close>

lemma expected_origin:
  assumes "js \<in> set (expected_states gm req names shown es)"
  shows "shown = Some (js_position js) \<or>
    (\<exists>st. Status_received st \<in> set es \<and> s_connected st \<and> (req \<longrightarrow> s_activated st) \<and> pose_of_status gm st = Some (js_position js))"
  using assms
proof (induction es arbitrary: shown)
  case (Cons e es)
  show ?case
  proof (cases e)
    case (Status_received st)
    then have "js \<in> set (expected_states gm req names (if s_connected st \<and> (req \<longrightarrow> s_activated st) then pose_of_status gm st else shown) es)"
      using Cons.prems by simp
    from Cons.IH [OF this] show ?thesis using Status_received by (auto split: if_splits)
  next
    case (Timer_tick now)
    then show ?thesis using Cons.IH [of shown] Cons.prems by (auto split: option.splits)
  qed
qed simp

definition moderate_parameters :: "joint_parameters \<Rightarrow> bool" where
  "moderate_parameters ps \<longleftrightarrow>
     (\<forall>b \<in> set (jp_finger_breakpoints ps @ jp_pinch_breakpoints ps @ jp_scissor_breakpoints ps). \<bar>b\<bar> \<le> 2 ^ 51) \<and>
     (\<forall>v \<in> set (jp_proximal ps @ jp_middle ps @ jp_distal ps @ jp_pinch_proximal ps @ jp_pinch_middle ps @
        jp_pinch_distal ps @ jp_scissor_angle ps). moderate v)"

lemma moderate_of_integer: "\<bar>b\<bar> \<le> 2 ^ 51 \<Longrightarrow> moderate (of_integer b)"
proof -
  assume b: "\<bar>b\<bar> \<le> 2 ^ 51"
  have "\<bar>rat_of_int b\<bar> \<le> of_int (2 ^ 51)" using b by (simp only: of_int_abs [symmetric] of_int_le_iff)
  then show ?thesis using b is_double_of_int [of b] by (simp add: of_integer_exact moderate_def)
qed

lemma moderate_table_intro:
  assumes "PiecewiseLinearMap (map of_integer bs) ys = Inr m" "\<forall>b \<in> set bs. \<bar>b\<bar> \<le> 2 ^ 51" "\<forall>v \<in> set ys. moderate v"
  shows "moderate_table m"
  using assms by (auto simp: PiecewiseLinearMap_accepts moderate_table_def moderate_of_integer)

lemma make_mapper_moderate:
  assumes "make_mapper ps = Inr gm" "moderate_parameters ps" shows "moderate_mapper gm"
  using assms
  by (auto simp: make_mapper_def finger_tables_def Let_def moderate_parameters_def moderate_mapper_def
      split: sum.splits intro!: moderate_table_intro)

lemma joint_names_distinct: "distinct (joint_names prefix) \<and> length (joint_names prefix) = 11"
  by (simp add: joint_names_def)

lemma joint_states_facts:
  assumes "JointStatePublisherNode ps = Some (Inr n)" "moderate_parameters ps"
  shows "\<exists>gm reference n' out. make_mapper ps = Inr gm \<and> map_joints gm 0 6 6 6 137 = Some reference \<and>
    joint_run es n = Some (out, n') \<and>
    out = expected_states gm (jp_require_activated_status ps) (joint_names (jp_tf_prefix ps))
      (if jp_publish_reference_without_status ps then Some reference else None) es \<and>
    (\<forall>js \<in> set out. js_name js = joint_names (jp_tf_prefix ps) \<and> distinct (js_name js) \<and>
      length (js_name js) = length (js_position js) \<and> well_formed_pose (js_position js))"
proof -
  obtain gm reference where gm: "make_mapper ps = Inr gm" and r: "map_joints gm 0 6 6 6 137 = Some reference"
    and n: "jn_mapper n = gm" "jn_joint_state n = \<lparr>js_stamp = 0, js_name = joint_names (jp_tf_prefix ps), js_position = reference\<rparr>"
      "jn_publish_reference_without_status n = jp_publish_reference_without_status ps"
      "jn_require_activated_status n = jp_require_activated_status ps" "\<not> jn_have_valid_status n"
    using assms(1) by (auto simp: JointStatePublisherNode_def split: sum.splits option.splits if_splits)
  have m: "moderate_mapper gm" by (rule make_mapper_moderate [OF gm assms(2)])
  have wf: "well_formed_pose reference" using map_joints_pose [OF m, of 0 6 6 6 137] r by simp
  let ?shown = "if jp_publish_reference_without_status ps then Some reference else None"
  have shown: "shown_by n = ?shown" by (simp add: shown_by_def n)
  let ?out = "expected_states gm (jp_require_activated_status ps) (joint_names (jp_tf_prefix ps)) ?shown es"
  have "\<exists>n'. joint_run es n = Some (?out, n')"
    using joint_run_expected [of n es] m unfolding shown by (simp add: n(1,2,4))
  moreover have "js_name js = joint_names (jp_tf_prefix ps) \<and> well_formed_pose (js_position js)" if "js \<in> set ?out" for js
    using expected_well_formed [OF m _ that] wf by simp
  then have "\<forall>js \<in> set ?out. js_name js = joint_names (jp_tf_prefix ps) \<and> distinct (js_name js) \<and>
      length (js_name js) = length (js_position js) \<and> well_formed_pose (js_position js)"
    using joint_names_distinct by (simp add: well_formed_pose_def)
  ultimately show ?thesis using gm r by blast
qed

text \<open>C38. Once the node is constructed, whatever statuses and timer ticks come, nothing is undefined and every
  tick publishes the pose of the last status that counts (connected and, if required, activated),
  before the first such status the reference pose or nothing as configured; every message names
  eleven different joints in order and carries eleven finite angles, the scissor joints of the outer
  fingers opposite.\<close>

theorem joint_states_follow_status:
  assumes "JointStatePublisherNode ps = Some (Inr n)" "moderate_parameters ps"
  shows "\<exists>gm reference n' out. make_mapper ps = Inr gm \<and> map_joints gm 0 6 6 6 137 = Some reference \<and>
    joint_run es n = Some (out, n') \<and>
    out = expected_states gm (jp_require_activated_status ps) (joint_names (jp_tf_prefix ps))
      (if jp_publish_reference_without_status ps then Some reference else None) es \<and>
    (\<forall>js \<in> set out. js_name js = joint_names (jp_tf_prefix ps) \<and> distinct (js_name js) \<and>
      length (js_name js) = length (js_position js) \<and> well_formed_pose (js_position js))"
  by (rule joint_states_facts [OF assms])

section \<open>The default configuration\<close>

lemma lit_moderate: "\<bar>n\<bar> \<le> 2 * 10 ^ k \<Longrightarrow> moderate (lit n k)"
proof -
  assume n: "\<bar>n\<bar> \<le> 2 * 10 ^ k"
  have "\<bar>rat_of_int n\<bar> \<le> of_int (2 * 10 ^ k)" using n by (simp only: of_int_abs [symmetric] of_int_le_iff)
  then have x: "\<bar>rat_of_int n / 10 ^ k\<bar> \<le> of_int 2" by (simp add: abs_divide divide_le_eq)
  then have "\<bar>rat_of_int n / 10 ^ k\<bar> \<le> 2 ^ 53" by simp
  note 1 = mk_moderate [OF this]
  from 1(2) [OF x] have "\<bar>rnd (rat_of_int n / 10 ^ k)\<bar> \<le> 2 ^ 51" by simp
  then show ?thesis using 1(1) is_double_mk [of "rat_of_int n / 10 ^ k"] by (simp add: lit_def moderate_def)
qed

lemma lit_finite: "\<bar>n\<bar> \<le> 2 * 10 ^ k \<Longrightarrow> isfinite (lit n k)"
  using lit_moderate [of n k] by (auto simp: moderate_iff isfinite_def)

lemma moderate_0: "moderate (Fin 0)"
  using is_double_of_int [of 0] by (simp add: moderate_def)

lemma default_moderate: "moderate_parameters default_joint_parameters"
  by (simp add: moderate_parameters_def default_joint_parameters_def lit_moderate moderate_0)

lemma default_table:
  assumes "length bs = length ys" "2 \<le> length bs" "sorted_wrt (<) bs" "\<forall>b \<in> set bs. \<bar>b\<bar> \<le> 2 ^ 51" "\<forall>v \<in> set ys. moderate v"
  shows "PiecewiseLinearMap (map of_integer bs) ys = Inr \<lparr>pm_inputs = map of_integer bs, pm_outputs = ys\<rparr>"
    "i < length bs \<Longrightarrow> evaluate \<lparr>pm_inputs = map of_integer bs, pm_outputs = ys\<rparr> (of_integer (bs ! i)) = Some (ys ! i)"
proof -
  have eq: "of_integer b = Fin (of_int b)" if "\<bar>b\<bar> \<le> 2 ^ 51" for b using that by (simp add: of_integer_exact)
  have m: "\<forall>v \<in> set (map of_integer bs @ ys). moderate v" using assms(4,5) by (auto simp: moderate_of_integer)
  then have "\<forall>v \<in> set (map of_integer bs @ ys). isfinite v" by (auto simp: moderate_iff isfinite_iff)
  moreover have "sorted_wrt dlt (map of_integer bs)"
    unfolding sorted_wrt_map using assms(3) by (rule sorted_wrt_mono_rel [rotated]) (use assms(4) in \<open>simp add: eq\<close>)
  ultimately have t: "valid_table (map of_integer bs) ys" using assms(1,2) by (simp add: valid_table_def)
  then show "PiecewiseLinearMap (map of_integer bs) ys = Inr \<lparr>pm_inputs = map of_integer bs, pm_outputs = ys\<rparr>"
    by (simp add: PiecewiseLinearMap_accepts)
  show "evaluate \<lparr>pm_inputs = map of_integer bs, pm_outputs = ys\<rparr> (of_integer (bs ! i)) = Some (ys ! i)" if "i < length bs"
    using evaluate_sample [OF t m, of i] that by simp
qed

lemma default_finger_tables:
  assumes "finger_tables bs p m d = Inr maps" "bs = 0 # 6 # bs'" "p = x # Fin 0 # p'" "m = y # Fin 0 # m'" "d = z # Fin 0 # d'"
    and "\<forall>b \<in> set bs. \<bar>b\<bar> \<le> 2 ^ 51" "\<forall>v \<in> set (p @ m @ d). moderate v" "sorted_wrt (<) bs"
  shows "map_finger maps 6 = Some [Fin 0, Fin 0, Fin 0]"
proof -
  have *: "evaluate pm (of_integer 6) = Some (ys ! 1)"
    if "PiecewiseLinearMap (map of_integer bs) ys = Inr pm" "\<forall>v \<in> set ys. moderate v" for ys pm
  proof -
    have "valid_table (map of_integer bs) ys" using that(1) by (simp add: PiecewiseLinearMap_accepts)
    then have l: "length bs = length ys" "2 \<le> length bs" by (auto simp: valid_table_def)
    show ?thesis using default_table(1) [OF l assms(8,6) that(2)] default_table(2) [OF l assms(8,6) that(2), of 1] that(1) l(2) assms(2)
      by simp
  qed
  have "byte_to_double 6 = of_integer 6" by (simp add: byte_to_double_def)
  then show ?thesis using assms(1,3-5,7)
    by (auto simp: finger_tables_def Let_def map_finger_def * split: sum.splits)
qed

text \<open>As shipped, the node starts, and it shows every joint at zero until the first status that counts.\<close>

abbreviation "shipped \<equiv> default_joint_parameters"

lemma default_fingers:
  "\<exists>maps. finger_tables (jp_finger_breakpoints shipped) (jp_proximal shipped) (jp_middle shipped) (jp_distal shipped) = Inr maps \<and>
     map_finger maps 6 = Some [Fin 0, Fin 0, Fin 0]"
proof -
  let ?bs = "jp_finger_breakpoints shipped"
  have 1: "sorted_wrt (<) ?bs" "\<forall>b \<in> set ?bs. \<bar>b\<bar> \<le> 2 ^ 51" "length ?bs = 12" by (simp_all add: default_joint_parameters_def)
  have 2: "length (jp_proximal shipped) = 12" "length (jp_middle shipped) = 12" "length (jp_distal shipped) = 12"
    by (simp_all add: default_joint_parameters_def)
  have 3: "\<forall>v \<in> set (jp_proximal shipped @ jp_middle shipped @ jp_distal shipped). moderate v"
    using default_moderate unfolding moderate_parameters_def by auto
  obtain maps where maps: "finger_tables ?bs (jp_proximal shipped) (jp_middle shipped) (jp_distal shipped) = Inr maps"
    using default_table(1) [of ?bs] 1 2 3 by (simp add: finger_tables_def Let_def)
  moreover have "map_finger maps 6 = Some [Fin 0, Fin 0, Fin 0]"
    by (rule default_finger_tables [OF maps _ _ _ _ 1(2) 3 1(1)]) (simp_all add: default_joint_parameters_def)
  ultimately show ?thesis by blast
qed

lemma default_pinch_fingers:
  "\<exists>maps. finger_tables (jp_pinch_breakpoints shipped) (jp_pinch_proximal shipped) (jp_pinch_middle shipped) (jp_pinch_distal shipped) = Inr maps"
proof -
  let ?bs = "jp_pinch_breakpoints shipped"
  have 1: "sorted_wrt (<) ?bs" "\<forall>b \<in> set ?bs. \<bar>b\<bar> \<le> 2 ^ 51" "length ?bs = 8" by (simp_all add: default_joint_parameters_def)
  have 2: "length (jp_pinch_proximal shipped) = 8" "length (jp_pinch_middle shipped) = 8" "length (jp_pinch_distal shipped) = 8"
    by (simp_all add: default_joint_parameters_def)
  have 3: "\<forall>v \<in> set (jp_pinch_proximal shipped @ jp_pinch_middle shipped @ jp_pinch_distal shipped). moderate v"
    using default_moderate unfolding moderate_parameters_def by auto
  show ?thesis using default_table(1) [of ?bs] 1 2 3 by (simp add: finger_tables_def Let_def)
qed

lemma default_scissor:
  "\<exists>m. PiecewiseLinearMap (map of_integer (jp_scissor_breakpoints shipped)) (jp_scissor_angle shipped) = Inr m \<and>
     evaluate m (byte_to_double 137) = Some (Fin 0)"
proof -
  let ?bs = "jp_scissor_breakpoints shipped"
  have 1: "length ?bs = length (jp_scissor_angle shipped)" "2 \<le> length ?bs" "sorted_wrt (<) ?bs" "\<forall>b \<in> set ?bs. \<bar>b\<bar> \<le> 2 ^ 51"
    by (simp_all add: default_joint_parameters_def)
  have 2: "\<forall>v \<in> set (jp_scissor_angle shipped). moderate v" using default_moderate unfolding moderate_parameters_def by auto
  have "byte_to_double 137 = of_integer (?bs ! 7)" "jp_scissor_angle shipped ! 7 = Fin 0" "7 < length ?bs"
    by (simp_all add: byte_to_double_def default_joint_parameters_def)
  then show ?thesis using default_table(1) [OF 1 2] default_table(2) [OF 1 2, of 7] by simp
qed

lemma default_node_starts:
  "\<exists>n. JointStatePublisherNode shipped = Some (Inr n) \<and> js_position (jn_joint_state n) = replicate 11 (Fin 0)"
proof -
  obtain maps where f: "finger_tables (jp_finger_breakpoints shipped) (jp_proximal shipped) (jp_middle shipped) (jp_distal shipped) = Inr maps"
    "map_finger maps 6 = Some [Fin 0, Fin 0, Fin 0]" using default_fingers by blast
  obtain pinch where p: "finger_tables (jp_pinch_breakpoints shipped) (jp_pinch_proximal shipped) (jp_pinch_middle shipped) (jp_pinch_distal shipped) = Inr pinch"
    using default_pinch_fingers by blast
  obtain m where s: "PiecewiseLinearMap (map of_integer (jp_scissor_breakpoints shipped)) (jp_scissor_angle shipped) = Inr m"
    "evaluate m (byte_to_double 137) = Some (Fin 0)" using default_scissor by blast
  have "\<not> dle (jp_publish_rate_hz shipped) (Fin 0)" by (simp add: default_joint_parameters_def)
  then show ?thesis using f p s by (simp add: JointStatePublisherNode_def make_mapper_def map_joints_def numeral_eq_Suc)
qed

theorem joint_states_follow_status_witness:
  "\<exists>n n'. JointStatePublisherNode shipped = Some (Inr n) \<and>
     joint_run [Timer_tick 5] n = Some ([\<lparr>js_stamp = 5, js_name = joint_names '''', js_position = replicate 11 (Fin 0)\<rparr>], n')"
proof -
  obtain n where n: "JointStatePublisherNode shipped = Some (Inr n)" "js_position (jn_joint_state n) = replicate 11 (Fin 0)"
    using default_node_starts by blast
  obtain gm reference n' out where g: "make_mapper shipped = Inr gm" "map_joints gm 0 6 6 6 137 = Some reference"
    "joint_run [Timer_tick 5] n = Some (out, n')"
    "out = expected_states gm (jp_require_activated_status shipped) (joint_names (jp_tf_prefix shipped))
      (if jp_publish_reference_without_status shipped then Some reference else None) [Timer_tick 5]"
    using joint_states_follow_status [OF n(1) default_moderate, of "[Timer_tick 5]"] by blast
  have "reference = replicate 11 (Fin 0)" using n g(1,2) by (auto simp: JointStatePublisherNode_def split: if_splits)
  then show ?thesis using n(1) g(3,4) by (simp add: default_joint_parameters_def)
qed

theorem table_is_interpolated_witness:
  "\<exists>m. PiecewiseLinearMap [Fin 0, Fin 10, Fin 20] [Fin 0, Fin 2, Fin 3] = Inr m \<and> evaluate m (Fin 10) = Some (Fin 2) \<and>
     evaluate m (Fin 21) = Some (Fin 3)"
proof -
  have "valid_table [Fin 0, Fin 10, Fin 20] [Fin 0, Fin 2, Fin 3]" by (simp add: valid_table_def isfinite_def)
  then obtain m where m: "PiecewiseLinearMap [Fin 0, Fin 10, Fin 20] [Fin 0, Fin 2, Fin 3] = Inr m"
    by (simp add: PiecewiseLinearMap_accepts)
  have "\<forall>v \<in> set ([Fin 0, Fin 10, Fin 20] @ [Fin 0, Fin 2, Fin 3]). moderate v"
    using moderate_of_integer [of 0] moderate_of_integer [of 10] moderate_of_integer [of 20] moderate_of_integer [of 2]
      moderate_of_integer [of 3] by (simp add: of_integer_exact)
  note t = table_is_interpolated [OF m this]
  from t have "\<forall>i < length [Fin 0, Fin 10, Fin 20]. evaluate m ([Fin 0, Fin 10, Fin 20] ! i) = Some ([Fin 0, Fin 2, Fin 3] ! i)" by blast
  from this [rule_format, of 1] have "evaluate m (Fin 10) = Some (Fin 2)" by simp
  moreover from t have "evaluate m (Fin 21) = Some (last [Fin 0, Fin 2, Fin 3])" by simp
  ultimately show ?thesis using m by simp
qed

lemma shipped_publisher_starts: "joint_publisher_main shipped = Some 0"
  using default_node_starts by (auto simp: joint_publisher_main_def)

end
