(* ===== verification/Robotiq_3f_System.thy ===== *)
theory Robotiq_3f_System
  imports Controller_Moves Driver_Wire Joint_Mapping
begin

text \<open>
  The 3F driver node, the 3F controller node and the joint state publisher together. Each node has runs
  of its own; what connects them is the delivery of messages: a node receives only what the other one
  published. Nothing else is assumed of the middleware: messages may be lost, delayed or repeated.
\<close>

section \<open>A command that reached the gripper\<close>

text \<open>The command was written on the connection the status names and acknowledged there, and the status
  unpacks an image that the gripper sent after that.\<close>

definition carried_out :: "driver_node \<Rightarrow> command \<Rightarrow> status \<Rightarrow> bool" where
  "carried_out n cmd s \<longleftrightarrow> (let c = dn_client n; unit = mc_unit_id c in
     \<exists>k img tid before after. (k, cmd) \<in> set (dn_written n) \<and> s_connection_id s = of_nat k \<and>
       acknowledged cmd unit (mc_sent c) before \<and> length img = 16 \<and>
       mc_received c = before @ status_frame tid unit img @ after \<and>
       s = (unpack_status img)\<lparr>s_stamp := s_stamp s, s_connected := True, s_connection_id := s_connection_id s,
              s_last_command_id := s_last_command_id s, s_diagnostic := ''connected''\<rparr>)"

definition delivered :: "driver_node \<Rightarrow> controller \<Rightarrow> bool" where
  "delivered n c \<longleftrightarrow> set (ct_relayed c) \<subseteq> set (dn_published n) \<and> snd ` set (dn_accepted n) \<subseteq> set (ct_published c)"

lemma published_ids_distinct:
  assumes "ids_inv c" "length (ct_published c) < 2 ^ 64 - 1"
    and "cmd \<in> set (ct_published c)" "cmd' \<in> set (ct_published c)" "c_command_id cmd = c_command_id cmd'"
  shows "cmd = cmd'"
proof -
  obtain i j where i: "i < length (ct_published c)" "cmd = ct_published c ! i"
    and j: "j < length (ct_published c)" "cmd' = ct_published c ! j"
    using assms(3,4) by (auto simp: in_set_conv_nth)
  have "Suc i = Suc j" using unat_published_id [OF assms(1,2)] i j assms(5) by metis
  then show ?thesis using i j by simp
qed

lemma published_id_nonzero:
  assumes "ids_inv c" "length (ct_published c) < 2 ^ 64 - 1" "cmd \<in> set (ct_published c)"
  shows "c_command_id cmd \<noteq> 0"
proof -
  obtain i where "i < length (ct_published c)" "cmd = ct_published c ! i" using assms(3) by (auto simp: in_set_conv_nth)
  then have "unat (c_command_id cmd) = Suc i" using unat_published_id [OF assms(1,2)] by simp
  then show ?thesis by (metis nat.distinct(1) unsigned_0)
qed

text \<open>An acknowledgement that the controller received is genuine.\<close>

lemma acknowledgement_is_genuine:
  assumes d: "Robotiq3FDriverNode p os stamps = Some (Inr n0)" "reachable n0 n"
    and c: "ids_inv c" "length (ct_published c) < 2 ^ 64 - 1" "delivered n c"
    and s: "s \<in> set (ct_relayed c)" "s_connected s"
    and cmd: "cmd \<in> set (ct_published c)" "c_command_id cmd = s_last_command_id s"
  shows "carried_out n cmd s"
proof -
  have "s \<in> set (dn_published n)" using c(3) s(1) by (auto simp: delivered_def)
  then have "observed s (dn_written n) (mc_unit_id (dn_client n)) (mc_sent (dn_client n)) (mc_received (dn_client n))"
    using reachable_wire_inv [OF d] s(2) by (auto simp: wire_inv_def Let_def)
  moreover have "s_last_command_id s \<noteq> 0" using published_id_nonzero [OF c(1,2) cmd(1)] cmd(2) by simp
  moreover have "cmd' = cmd" if "(k, cmd') \<in> set (dn_written n)" "c_command_id cmd' = s_last_command_id s" for k cmd'
  proof -
    have "cmd' \<in> set (ct_published c)" using written_accepted [OF d that(1)] c(3) by (auto simp: delivered_def)
    then show ?thesis using published_ids_distinct [OF c(1,2) _ cmd(1)] that(2) cmd(2) by simp
  qed
  ultimately show ?thesis unfolding observed_def carried_out_def Let_def by metis
qed

section \<open>Operations, end to end\<close>

text \<open>A state of the controller node in a run of its own.\<close>

definition running :: "controller \<Rightarrow> bool" where
  "running c \<longleftrightarrow> (\<exists>q clock threads c0. Robotiq3FControllerNode q clock threads = Some (Inr c0) \<and> statuses_ok c0 \<and>
     ctl_reachable c0 c)"

lemma running_facts:
  assumes "running c" shows "ids_inv c" "seen c"
proof -
  obtain q clock threads c0 where r: "Robotiq3FControllerNode q clock threads = Some (Inr c0)" "statuses_ok c0" "ctl_reachable c0 c"
    using assms unfolding running_def by blast
  note c0 = constructed_controller [OF r(1)]
  show "ids_inv c" using ctl_reachable_inv [OF r(3)] c0(4,8) r(2) by (auto simp: ctl_inv_def published_inv_def)
  show "seen c" using ctl_reachable_seen [OF r(3) c0(6)] .
qed

lemma running_move:
  assumes "running c" "handle_move_goal goal c = (ACCEPT_AND_EXECUTE, c1)" "\<forall>e \<in> set es. event_ok e"
    "execute_move goal (thread_events es c1) = Some (r, c')"
  shows "running c'" "seen (thread_events es c1)"
proof -
  show "running c'" using assms ctl_move unfolding running_def by metis
  show "seen (thread_events es c1)"
    using running_facts(2) [OF assms(1)] accept_parameters(1) [OF assms(2)] kept_seen [OF thread_events_kept, of c1 es] by simp
qed

lemma running_activate: "running c \<Longrightarrow> activate c = Some (r, c') \<Longrightarrow> running c'"
  unfolding running_def using ctl_activate by metis

text \<open>C13. A move that the controller reports as successful was carried out by the gripper: the driver wrote
  exactly the move command of the goal, packed, on the connection that the final status names, the
  gripper acknowledged it, and the final status, which shows the requested positions and no fault, is
  unpacked from an image the gripper sent after that acknowledgement. The middleware may lose, delay
  and repeat messages.\<close>

theorem successful_move_was_carried_out:
  assumes "Robotiq3FDriverNode p os stamps = Some (Inr n0)" "reachable n0 n" "running c"
    and "handle_move_goal goal c = (ACCEPT_AND_EXECUTE, c1)" "\<forall>e \<in> set es. event_ok e"
    and "execute_move goal (thread_events es c1) = Some ((Succeeded, result), c')"
    and "delivered n c'" "length (ct_published c') < 2 ^ 64 - 1"
  shows "\<exists>i. carried_out n ((move_command goal)\<lparr>c_command_id := i\<rparr>) (final_status result) \<and>
    move_done goal i (final_status result) \<and> s_fault_status (final_status result) < 9"
proof -
  define i where "i = ct_next_command_id (thread_events es c1)"
  note r = running_move [OF assms(3-6)]
  note m = move_outcome_facts [OF assms(6) r(2), folded i_def]
  let ?cmd = "(move_command goal)\<lparr>c_command_id := i\<rparr>"
  have pub: "?cmd \<in> set (ct_published c')" and ok: "move_done goal i (final_status result)" "s_connected (final_status result)"
    "final_status result \<in> set (ct_relayed c')" "s_fault_status (final_status result) < 9"
    using m by auto
  have "c_command_id ?cmd = s_last_command_id (final_status result)"
    using ok(1) by (auto simp: move_done_def split: if_splits)
  from acknowledgement_is_genuine [OF assms(1,2) running_facts(1) [OF r(1)] assms(8,7) ok(3,2) pub this] ok(1,4)
  show ?thesis by blast
qed

text \<open>The two moments of an activation: when the wait for the reset has ended, and its end. The first is
  followed by the publication of the activation command, under an identifier that no earlier command has.\<close>

lemma activation_moments:
  assumes "running c" "activate c = Some ((True, msg), c')" "reset_phase c = Some (s1, c1)"
    and "length (ct_published c') < 2 ^ 64 - 1"
  defines "reset \<equiv> Command\<lparr>c_command_id := ct_next_command_id c\<rparr>"
    and "activation \<equiv> Command\<lparr>c_activate := True, c_mode := activation_mode_byte c, c_command_id := ct_next_command_id c1\<rparr>"
  obtains s2 where "ids_inv c1" "length (ct_published c1) < 2 ^ 64 - 1" "reset \<in> set (ct_published c1)"
    "s1 \<in> set (ct_relayed c1)" "s_connected s1" "reset_done (c_command_id reset) s1"
    "ids_inv c'" "activation \<in> set (ct_published c')" "activation \<notin> set (ct_published c1)"
    "set (ct_published c1) \<subseteq> set (ct_published c')" "set (ct_relayed c1) \<subseteq> set (ct_relayed c')"
    "s2 \<in> set (ct_relayed c')" "s_connected s2" "s_connection_id s2 = s_connection_id s1"
    "activation_done (c_command_id activation) (activation_mode_byte c) s2"
    "c_command_id reset < c_command_id activation"
proof -
  note seen = running_facts(2) [OF assms(1)]
  have ids: "ids_inv c'" using running_facts(1) [OF running_activate [OF assms(1,2)]] .
  obtain cs1 where 1: "ct_published c1 = ct_published c @ [reset] @ cs1"
    "ct_next_command_id c1 = ct_next_command_id c + 1 + of_nat (length cs1)"
    "s1 \<in> set (ct_relayed c1)" "s_connected s1" "reset_done (ct_next_command_id c) s1"
    using reset_phase_facts [OF assms(3) seen] unfolding reset_def by metis
  obtain cs2 s2 where 2: "ct_published c' = ct_published c1 @ [activation] @ cs2"
    "set (ct_relayed c1) \<subseteq> set (ct_relayed c')" "s2 \<in> set (ct_relayed c')" "s_connected s2"
    "s_connection_id s2 = s_connection_id s1" "activation_done (ct_next_command_id c1) (activation_mode_byte c) s2"
    using activation_after_reset [OF assms(2) seen assms(3)] unfolding activation_def by metis
  have start: "ct_next_command_id c = of_nat (Suc (length (ct_published c)))"
    using running_facts(1) [OF assms(1)] by (simp add: ids_inv_def)
  have ids1: "ids_inv c1"
    unfolding ids_inv_def
  proof
    show "ct_next_command_id c1 = of_nat (Suc (length (ct_published c1)))" by (simp add: 1(1,2) start)
    have "map c_command_id (ct_published c1) = take (length (ct_published c1)) (map c_command_id (ct_published c'))"
      by (simp add: 2(1))
    also have "\<dots> = map of_nat [1..<Suc (length (ct_published c1))]"
      using ids unfolding ids_inv_def by (simp only: take_map take_upt) (simp add: 2(1) take_upt del: upt_Suc)
    finally show "map c_command_id (ct_published c1) = map of_nat [1..<Suc (length (ct_published c1))]" .
  qed
  have id: "unat (c_command_id (ct_published c' ! i)) = Suc i" if "i < length (ct_published c')" for i
    using unat_published_id [OF ids assms(4) that] .
  have r: "unat (c_command_id reset) = Suc (length (ct_published c))"
    using id [of "length (ct_published c)"] by (simp add: 1(1) 2(1) nth_append)
  have a: "unat (c_command_id activation) = Suc (length (ct_published c1))"
    using id [of "length (ct_published c1)"] by (simp add: 2(1) nth_append)
  have new: "activation \<notin> set (ct_published c1)"
  proof
    assume "activation \<in> set (ct_published c1)"
    then obtain i where i: "i < length (ct_published c1)" "activation = ct_published c1 ! i" by (auto simp: in_set_conv_nth)
    then have "unat (c_command_id activation) = Suc i" using id [of i] by (simp add: 2(1) nth_append)
    then show False using a i(1) by simp
  qed
  have "length (ct_published c) < length (ct_published c1)" by (simp add: 1(1))
  then have lt: "c_command_id reset < c_command_id activation" using r a by (simp add: word_less_nat_alt)
  have sub: "reset \<in> set (ct_published c1)" "activation \<in> set (ct_published c')"
    "set (ct_published c1) \<subseteq> set (ct_published c')" "length (ct_published c1) < 2 ^ 64 - 1"
    using assms(4) by (auto simp: 1(1) 2(1))
  have dn: "reset_done (c_command_id reset) s1" "activation_done (c_command_id activation) (activation_mode_byte c) s2"
    using 1(5) 2(6) by (simp_all add: reset_def activation_def)
  show thesis by (rule that [OF ids1 sub(4,1) 1(3,4) dn(1) ids sub(2) new sub(3) 2(2,3,4,5) dn(2) lt])
qed

lemma written_connection:
  assumes "Robotiq3FDriverNode p os stamps = Some (Inr n0)" "reachable n0 n" "(k, cmd) \<in> set (dn_written n)"
  shows "k \<le> dn_connections n"
  using reachable_node_inv [OF assms(1,2)] assms(3) by (auto simp: last_id_inv_def written_upto_def)

text \<open>C14. An activation that the controller reports as successful reset the gripper and then activated it.
  \<open>n1\<close> is the driver, on its run to \<open>n\<close>, at the moment the controller's wait for the reset ended. By then
  the reset had been written and acknowledged, and the gripper had been seen reset in an image it sent
  after that, while the driver had not even accepted the activation command. The activation was written
  after the reset, on the same connection; it was acknowledged there, and the gripper seen ready in the
  configured mode in an image it sent after that acknowledgement. Messages may be lost, delayed and
  repeated, but what a node holds at either moment has been sent by then.\<close>

theorem successful_activation_was_carried_out:
  assumes "Robotiq3FDriverNode p os stamps = Some (Inr n0)" "reachable n0 n1" "reachable n1 n" "running c"
    and "activate c = Some ((True, msg), c')" "reset_phase c = Some (s1, c1)" "delivered n1 c1" "delivered n c'"
    and "length (ct_published c') < 2 ^ 64 - 1" "dn_connections n < 2 ^ 64"
  defines "mode \<equiv> activation_mode_byte c"
  shows "\<exists>r a s2 k ws1 ws2 ws3.
    dn_written n = ws1 @ (k, Command\<lparr>c_command_id := r\<rparr>) # ws2 @
      (k, Command\<lparr>c_activate := True, c_mode := mode, c_command_id := a\<rparr>) # ws3 \<and>
    (k, Command\<lparr>c_command_id := r\<rparr>) \<in> set (dn_written n1) \<and>
    (\<forall>j. (j, Command\<lparr>c_activate := True, c_mode := mode, c_command_id := a\<rparr>) \<notin> set (dn_accepted n1)) \<and>
    r < a \<and> s_connection_id s1 = of_nat k \<and> s_connection_id s2 = of_nat k \<and>
    carried_out n1 (Command\<lparr>c_command_id := r\<rparr>) s1 \<and> carried_out n (Command\<lparr>c_command_id := r\<rparr>) s1 \<and> reset_done r s1 \<and>
    carried_out n (Command\<lparr>c_activate := True, c_mode := mode, c_command_id := a\<rparr>) s2 \<and> activation_done a mode s2"
proof -
  define r a where "r = ct_next_command_id c" and "a = ct_next_command_id c1"
  let ?reset = "Command\<lparr>c_command_id := r\<rparr>"
  let ?activation = "Command\<lparr>c_activate := True, c_mode := mode, c_command_id := a\<rparr>"
  have n: "reachable n0 n" using reachable_trans [OF assms(3,2)] .
  obtain s2 where m: "ids_inv c1" "length (ct_published c1) < 2 ^ 64 - 1" "?reset \<in> set (ct_published c1)"
    "s1 \<in> set (ct_relayed c1)" "s_connected s1" "reset_done r s1"
    "ids_inv c'" "?activation \<in> set (ct_published c')" "?activation \<notin> set (ct_published c1)"
    "set (ct_published c1) \<subseteq> set (ct_published c')" "set (ct_relayed c1) \<subseteq> set (ct_relayed c')"
    "s2 \<in> set (ct_relayed c')" "s_connected s2" "s_connection_id s2 = s_connection_id s1"
    "activation_done a mode s2" "r < a"
    using activation_moments [OF assms(4,5,6,9)] unfolding r_def a_def mode_def by auto
  have ids: "c_command_id ?reset = s_last_command_id s1" "c_command_id ?activation = s_last_command_id s2"
    using m(6,15) by (simp_all add: reset_done_def activation_done_def)
  have out: "carried_out n1 ?reset s1" "carried_out n ?reset s1" "carried_out n ?activation s2"
    using acknowledgement_is_genuine [OF assms(1,2) m(1,2) assms(7) m(4,5,3) ids(1)]
      acknowledgement_is_genuine [OF assms(1) n m(7) assms(9,8) _ m(5) _ ids(1)] m(3,4,10,11)
      acknowledgement_is_genuine [OF assms(1) n m(7) assms(9,8) m(12,13,8) ids(2)] by auto
  obtain k where k: "(k, ?reset) \<in> set (dn_written n1)" "s_connection_id s1 = of_nat k"
    using out(1) by (auto simp: carried_out_def Let_def)
  obtain j where j: "(j, ?activation) \<in> set (dn_written n)" "s_connection_id s2 = of_nat j"
    using out(3) by (auto simp: carried_out_def Let_def)
  have held: "?activation \<notin> snd ` set (dn_accepted n1)" using assms(7) m(9) by (auto simp: delivered_def)
  then have new: "\<forall>i. (i, ?activation) \<notin> set (dn_accepted n1)" by force
  have not_written: "(i, ?activation) \<notin> set (dn_written n1)" for i
    using written_accepted [OF assms(1,2)] held by blast
  obtain ws where ws: "dn_written n = dn_written n1 @ ws" using reachable_written [OF assms(3)] by blast
  have "(k, ?reset) \<in> set (dn_written n)" using k(1) ws by simp
  then have "k < 2 ^ 64" "j < 2 ^ 64" using written_connection [OF assms(1) n] j(1) assms(10) by (meson le_less_trans)+
  then have "unat (of_nat k :: u64) = k" "unat (of_nat j :: u64) = j" by (simp_all add: unsigned_of_nat take_bit_nat_eq_self)
  then have kj: "j = k" using k(2) j(2) m(14) by metis
  have "(k, ?activation) \<in> set ws"
    using j(1) not_written unfolding ws kj by auto
  then obtain ws' ws3 where w2: "ws = ws' @ (k, ?activation) # ws3" by (meson split_list)
  obtain ws1 ws2 where "dn_written n1 = ws1 @ (k, ?reset) # ws2" using k(1) by (meson split_list)
  then have "dn_written n = ws1 @ (k, ?reset) # (ws2 @ ws') @ (k, ?activation) # ws3" using ws w2 by simp
  then show ?thesis using k new m(6,14-16) out by (metis (no_types, lifting))
qed

section \<open>What the joint states show\<close>

text \<open>C37. Every joint state the publisher sends shows the reference pose or positions the gripper reported:
  the pose is computed from the mode and the four position bytes of sixteen bytes the driver received
  from the gripper in a checked response, of an activated gripper if that is required.\<close>

theorem joint_states_show_gripper:
  assumes "Robotiq3FDriverNode p os stamps = Some (Inr n0)" "reachable n0 n"
    and "JointStatePublisherNode ps = Some (Inr jn)" "moderate_parameters ps"
    and "\<forall>st. joint_event.Status_received st \<in> set es \<longrightarrow> st \<in> set (dn_published n)"
  shows "\<exists>gm reference jn' out. make_mapper ps = Inr gm \<and> map_joints gm 0 6 6 6 137 = Some reference \<and>
    joint_run es jn = Some (out, jn') \<and>
    (\<forall>js \<in> set out. js_position js = reference \<or>
      (\<exists>img tid. length img = 16 \<and>
        sublist (request_frame tid (mc_unit_id (dn_client n)) (0x04 # 0x10 # img)) (mc_received (dn_client n)) \<and>
        (jp_require_activated_status ps \<longrightarrow> img ! 0 AND 0x01 \<noteq> 0) \<and>
        map_joints gm (drop_bit 1 (img ! 0) AND 0x03) (img ! 4) (img ! 7) (img ! 10) (img ! 13) = Some (js_position js)))"
proof -
  obtain gm reference jn' out where j: "make_mapper ps = Inr gm" "map_joints gm 0 6 6 6 137 = Some reference"
    "joint_run es jn = Some (out, jn')" "out = expected_states gm (jp_require_activated_status ps) (joint_names (jp_tf_prefix ps))
      (if jp_publish_reference_without_status ps then Some reference else None) es"
    using joint_states_facts [OF assms(3,4), of es] by blast
  have "js_position js = reference \<or> (\<exists>img tid. length img = 16 \<and>
      sublist (request_frame tid (mc_unit_id (dn_client n)) (0x04 # 0x10 # img)) (mc_received (dn_client n)) \<and>
      (jp_require_activated_status ps \<longrightarrow> img ! 0 AND 0x01 \<noteq> 0) \<and>
      map_joints gm (drop_bit 1 (img ! 0) AND 0x03) (img ! 4) (img ! 7) (img ! 10) (img ! 13) = Some (js_position js))"
    if js: "js \<in> set out" for js
  proof (cases "js_position js = reference")
    case False
    then obtain st where st: "st \<in> set (dn_published n)" "s_connected st" "jp_require_activated_status ps \<longrightarrow> s_activated st"
      "pose_of_status gm st = Some (js_position js)"
      using expected_origin [OF js [unfolded j(4)]] assms(5) by (auto split: if_splits)
    have "observed st (dn_written n) (mc_unit_id (dn_client n)) (mc_sent (dn_client n)) (mc_received (dn_client n))"
      using reachable_wire_inv [OF assms(1,2)] st(1,2) by (auto simp: wire_inv_def Let_def)
    then obtain img tid before after x where o: "length img = 16"
      "mc_received (dn_client n) = before @ status_frame tid (mc_unit_id (dn_client n)) img @ after"
      and x: "st = (unpack_status img)\<lparr>s_stamp := s_stamp st, s_connected := True, s_connection_id := s_connection_id st,
        s_last_command_id := s_last_command_id st, s_diagnostic := ''connected''\<rparr>" unfolding observed_def by blast
    have f: "s_activated st = (img ! 0 AND 0x01 \<noteq> 0)" "s_mode st = drop_bit 1 (img ! 0) AND 0x03"
      "s_actual_position_a st = img ! 4" "s_actual_position_b st = img ! 7" "s_actual_position_c st = img ! 10"
      "s_actual_position_scissor st = img ! 13"
      by (subst x, simp add: unpack_status_def)+
    have "sublist (request_frame tid (mc_unit_id (dn_client n)) (0x04 # 0x10 # img)) (mc_received (dn_client n))"
      unfolding o(2) status_frame_def by (rule sublist_appendI)
    then show ?thesis using o(1) st(3,4) f unfolding pose_of_status_def by metis
  qed simp
  then show ?thesis using j(1-3) by blast
qed

section \<open>A run of both nodes\<close>

text \<open>A gripper that answers at once: reset, then activated, then moved by the three commands of the run of
  the controller node.\<close>

abbreviation demo_img :: "u8 \<Rightarrow> u8 list" where "demo_img b \<equiv> b # replicate 15 0"

definition system_reads :: "read_some_event stream" where
  "system_reads = hears 1 (4 # 16 # demo_img 0) (hears 2 [16, 0, 0, 0, 8] (hears 3 (4 # 16 # demo_img 0)
     (hears 4 [16, 0, 0, 0, 8] (hears 5 (4 # 16 # demo_img 0x31) (hears 6 [16, 0, 0, 0, 8]
     (hears 7 (4 # 16 # demo_img 0xF9) (sconst Get_again)))))))"

definition system_commands :: "command list" where
  "system_commands = [Command\<lparr>c_command_id := 1\<rparr>, Command\<lparr>c_command_id := 2, c_activate := True\<rparr>,
     (move_command demo_goal)\<lparr>c_command_id := 3\<rparr>]"

definition system_events :: "nat \<Rightarrow> event list" where
  "system_events k =
     replicate 6 Worker @ concat (map (\<lambda>c. [Check c, Store] @ replicate 5 Worker) (take k system_commands))"

lemma system_commands_ok:
  assumes "c \<in> set system_commands"
  shows "\<not> c_mode c > MODE_SCISSOR" "c_command_id c \<noteq> 0" "\<not> c_automatic_release c" "\<exists>img. pack_command c = Inr img \<and> length img = 16"
  using assms by (auto simp: system_commands_def Command_def MODE_SCISSOR_def pack_command_def move_command_def demo_goal_def)

lemma system_run:
  "\<exists>n. run (system_events 1) (demo_node system_reads) = Some n \<and> map snd (dn_accepted n) = take 1 system_commands \<and>
     dn_published n = [demo_status 0 0, demo_reset]" (is ?one)
  "\<exists>n. run (system_events 2) (demo_node system_reads) = Some n \<and> map snd (dn_accepted n) = take 2 system_commands \<and>
     dn_published n = [demo_status 0 0, demo_reset, demo_ready] \<and> dn_connections n = 1" (is ?two)
  "\<exists>n. run (system_events 3) (demo_node system_reads) = Some n \<and> map snd (dn_accepted n) = system_commands \<and>
     dn_published n = [demo_status 0 0, demo_reset, demo_ready, demo_moved]" (is ?three)
proof -
  obtain c1 c2 c3 where c: "system_commands = [c1, c2, c3]" by (simp add: system_commands_def)
  have ids: "c_command_id c1 = 1" "c_command_id c2 = 2" "c_command_id c3 = 3" using c by (auto simp: system_commands_def)
  obtain i1 i2 i3 where i: "pack_command c1 = Inr i1" "length i1 = 16" "pack_command c2 = Inr i2" "length i2 = 16"
    "pack_command c3 = Inr i3" "length i3 = 16"
    using system_commands_ok(4) [of c1] system_commands_ok(4) [of c2] system_commands_ok(4) [of c3] by (auto simp: c)
  note ok = system_commands_ok(1,3) [of c1] system_commands_ok(1,3) [of c2] system_commands_ok(1,3) [of c3]
  show ?one ?two ?three using ok ids
    by (simp_all add: system_events_def c replicate_numerals demo_node_def system_reads_def worker_step_def node_defs
        demo_client_exchanges receive_check_def receive_store_def i demo_reset_def demo_ready_def demo_moved_def demo_status_def)
qed

lemma system_events_2: "system_events 2 = system_events 1 @ [Check (system_commands ! 1), Store] @ replicate 5 Worker"
  by (simp add: system_events_def system_commands_def numeral_2_eq_2)

lemma demo_running: "running demo_active" "running demo_ready_controller"
proof -
  have m: "0 \<le> MODE_SCISSOR" by (simp add: MODE_SCISSOR_def)
  have "ctl_reachable (demo_controller (sconst 0)) demo_active" unfolding demo_active_def
    using ctl_event [OF ctl_start, of "thread_event.Status_received demo_reset"] m by (simp add: event_ok_def)
  then show "running demo_active" "running demo_ready_controller"
    unfolding running_def using demo_constructed demo_run by blast+
qed

lemma demo_reset_phase:
  "\<exists>c1. reset_phase demo_active = Some (demo_reset, c1) \<and> ct_published c1 = [Command\<lparr>c_command_id := 1\<rparr>] \<and>
     ct_relayed c1 = [demo_reset, demo_reset]"
  by (simp add: reset_phase_def begin_operation_def current_status_def steady_now_def same_clock publish_command_def Let_def
      service_wait_hears)

theorem successful_activation_was_carried_out_witness:
  "\<exists>n msg c r a k ws1 ws2 ws3. activate demo_active = Some ((True, msg), c) \<and>
     dn_written n = ws1 @ (k, Command\<lparr>c_command_id := r\<rparr>) # ws2 @ (k, Command\<lparr>c_activate := True, c_mode := 0, c_command_id := a\<rparr>) # ws3 \<and>
     (\<exists>s. carried_out n (Command\<lparr>c_activate := True, c_mode := 0, c_command_id := a\<rparr>) s)"
proof -
  obtain os where os: "Robotiq3FDriverNode Driver_Node.demo_parameters os (sconst 0) = Some (Inr (demo_node system_reads))"
    using demo_node_constructed by blast
  obtain n1 where n1: "run (system_events 1) (demo_node system_reads) = Some n1"
    "map snd (dn_accepted n1) = take 1 system_commands" "dn_published n1 = [demo_status 0 0, demo_reset]"
    using system_run(1) by blast
  obtain n where n: "run (system_events 2) (demo_node system_reads) = Some n"
    "map snd (dn_accepted n) = take 2 system_commands" "dn_published n = [demo_status 0 0, demo_reset, demo_ready]"
    "dn_connections n = 1" using system_run(2) by blast
  have "run ([Check (system_commands ! 1), Store] @ replicate 5 Worker) n1 = Some n"
    using n(1) unfolding system_events_2 run_steps_append n1(1) option.case .
  note r1 = reachable_run [OF reachable.start n1(1)] and r2 = reachable_run [OF reachable.start this]
  obtain c1 where c1: "reset_phase demo_active = Some (demo_reset, c1)" "ct_published c1 = [Command\<lparr>c_command_id := 1\<rparr>]"
    "ct_relayed c1 = [demo_reset, demo_reset]" using demo_reset_phase by blast
  have "snd ` set (dn_accepted n1) = set (take 1 system_commands)" using n1(2) by (metis set_map)
  then have d1: "delivered n1 c1" using n1(3) c1(2,3) by (simp add: delivered_def system_commands_def)
  have "snd ` set (dn_accepted n) = set (take 2 system_commands)" using n(2) by (metis set_map)
  then have d2: "delivered n demo_ready_controller" using n(3) by (simp add: delivered_def system_commands_def Command_def)
  have "activation_mode_byte demo_active = 0" by (simp add: activation_mode_byte_def)
  then show ?thesis
    using successful_activation_was_carried_out [OF os r1 r2 demo_running(1) demo_activation c1(1) d1 d2] n(4)
      demo_activation by simp blast
qed

theorem successful_move_was_carried_out_witness:
  "\<exists>n result c. execute_move demo_goal (demo_ready_controller\<lparr>ct_busy := True\<rparr>) = Some ((Succeeded, result), c) \<and>
     (\<exists>i. carried_out n ((move_command demo_goal)\<lparr>c_command_id := i\<rparr>) (final_status result))"
proof -
  obtain os where os: "Robotiq3FDriverNode Driver_Node.demo_parameters os (sconst 0) = Some (Inr (demo_node system_reads))"
    using demo_node_constructed by blast
  obtain n where n: "run (system_events 3) (demo_node system_reads) = Some n"
    "map snd (dn_accepted n) = system_commands" "dn_published n = [demo_status 0 0, demo_reset, demo_ready, demo_moved]"
    using system_run(3) by blast
  let ?c = "demo_ready_controller\<lparr>ct_busy := True\<rparr>"
  obtain result c where m: "execute_move demo_goal ?c = Some ((Succeeded, result), c)"
    "ct_published c = ct_published demo_ready_controller @ [(move_command demo_goal)\<lparr>c_command_id := 3\<rparr>]"
    "ct_relayed c = ct_relayed demo_ready_controller @ [demo_moved]" using demo_move [OF disjI2 [OF refl]] by blast
  have acc: "handle_move_goal demo_goal demo_ready_controller = (ACCEPT_AND_EXECUTE, ?c)"
    by (simp add: handle_move_goal_def demo_goal_def MODE_SCISSOR_def)
  have "snd ` set (dn_accepted n) = set system_commands" using n(2) by (metis set_map)
  then have d: "delivered n c" using n(3) m(2,3) by (simp add: delivered_def system_commands_def Command_def)
  have len: "length (ct_published c) < 2 ^ 64 - 1" using m(2) by simp
  have "execute_move demo_goal (thread_events [] ?c) = Some ((Succeeded, result), c)" using m(1) by (simp add: thread_events_def)
  from successful_move_was_carried_out [OF os reachable_run [OF reachable.start n(1)] demo_running(2) acc _ this d len] m(1)
  show ?thesis by auto
qed

theorem joint_states_show_gripper_witness:
  "\<exists>(n :: driver_node) jn out jn'. joint_run [joint_event.Status_received demo_ready, Timer_tick 5] jn = Some (out, jn') \<and>
     demo_ready \<in> set (dn_published n) \<and>
     (\<forall>js \<in> set out. js_position js = replicate 11 (Fin 0) \<or> (\<exists>img tid. length img = 16 \<and>
        sublist (request_frame tid (mc_unit_id (dn_client n)) (0x04 # 0x10 # img)) (mc_received (dn_client n))))"
proof -
  obtain os where os: "Robotiq3FDriverNode Driver_Node.demo_parameters os (sconst 0) = Some (Inr (demo_node system_reads))"
    using demo_node_constructed by blast
  obtain n where n: "run (system_events 2) (demo_node system_reads) = Some n"
    "dn_published n = [demo_status 0 0, demo_reset, demo_ready]" using system_run(2) by blast
  obtain jn where jn: "JointStatePublisherNode shipped = Some (Inr jn)" "js_position (jn_joint_state jn) = replicate 11 (Fin 0)"
    using default_node_starts by blast
  have del: "\<forall>st. joint_event.Status_received st \<in> set [joint_event.Status_received demo_ready, Timer_tick 5] \<longrightarrow>
    st \<in> set (dn_published n)" using n(2) by simp
  from joint_states_show_gripper [OF os reachable_run [OF reachable.start n(1)] jn(1) default_moderate del]
  obtain gm reference jn' out where g: "make_mapper shipped = Inr gm" "map_joints gm 0 6 6 6 137 = Some reference"
    "joint_run [joint_event.Status_received demo_ready, Timer_tick 5] jn = Some (out, jn')"
    "\<forall>js \<in> set out. js_position js = reference \<or> (\<exists>img tid. length img = 16 \<and>
        sublist (request_frame tid (mc_unit_id (dn_client n)) (0x04 # 0x10 # img)) (mc_received (dn_client n)))" by meson
  have "reference = replicate 11 (Fin 0)" using jn g(1,2) by (auto simp: JointStatePublisherNode_def split: if_splits)
  then show ?thesis using g(3,4) n(2) by (metis list.set_intros)
qed

end
