(* ===== verification/Action_Server.thy ===== *)
theory Action_Server
  imports Controller_Moves
begin

text \<open>
  How the 3F controller node serves several clients at once: the goal, cancel and accepted callbacks of
  the two actions, the thread that runs an accepted goal, the services beside it, and the destructor.
  The executor has three threads and both callback groups are reentrant, so callbacks interleave. The
  function of the action thread is cut into steps: the part up to its wait, each pass of the wait, the
  part after it up to the answer, the destructor of \<^verbatim>\<open>BusyGuard\<close>, and the end of the thread. Anything may
  happen between two of them. A service is cut at \<^verbatim>\<open>busy_\<close> only: its body is one step, with what other
  threads do meanwhile in its script. \<open>as_goals\<close> and \<open>as_results\<close> log the goals accepted and the results
  sent.
\<close>

section \<open>State\<close>

datatype action_goal = Move_goal move_goal | Gripper_goal double double

datatype action_result = Move_answer goal_outcome move_result | Gripper_answer goal_outcome gripper_state

text \<open>The local variables of \<^verbatim>\<open>execute_move\<close> and \<^verbatim>\<open>execute_gripper_command\<close> that live in their wait:
  what the predicate captures, the deadline, the connection, and \<^verbatim>\<open>status\<close>, which the wait assigns.\<close>

record wait_frame =
  wf_goal :: action_goal
  wf_command :: command
  wf_command_id :: u64
  wf_deadline :: int
  wf_connection_id :: u64
  wf_status :: status

text \<open>\<^verbatim>\<open>action_thread_\<close> and how far its function is. \<open>No_thread\<close> is not joinable. \<open>Waited\<close> has left the wait
  with its result and reason; \<open>Answered\<close> has sent the result, but the guard still holds \<^verbatim>\<open>busy_\<close>; \<open>Released\<close>
  has destroyed the guard, but the thread has not ended, so a join still waits.\<close>

datatype action_thread =
    No_thread
  | Started action_goal
  | Waiting wait_frame
  | Waited wait_frame bool string
  | Answered
  | Released
  | Ended

datatype service = Activate_service | Deactivate_service

datatype service_pc = No_service | Entered service | Replied

record action_server =
  as_node :: controller
  as_accepted :: "action_goal option"  \<comment> \<open>accepted, the accepted callback still to run\<close>
  as_thread :: action_thread
  as_service :: service_pc
  as_goals :: "action_goal list"
  as_results :: "(action_goal \<times> action_result) list"

definition fresh_server :: "controller \<Rightarrow> action_server" where
  "fresh_server c = \<lparr>as_node = c, as_accepted = None, as_thread = No_thread, as_service = No_service,
     as_goals = [], as_results = []\<rparr>"

section \<open>Callbacks\<close>

fun handle_goal :: "action_goal \<Rightarrow> controller \<Rightarrow> goal_response \<times> controller" where
  "handle_goal (Move_goal goal) c = handle_move_goal goal c"
| "handle_goal (Gripper_goal position effort) c = handle_gripper_command_goal position effort c"

datatype cancel_response = CANCEL_REJECT | CANCEL_ACCEPT

definition handle_move_cancel :: "move_goal \<Rightarrow> cancel_response" where
  "handle_move_cancel goal = CANCEL_ACCEPT"

definition handle_gripper_command_cancel :: "double \<Rightarrow> double \<Rightarrow> cancel_response" where
  "handle_gripper_command_cancel position effort = CANCEL_ACCEPT"

text \<open>\<^verbatim>\<open>if (joinable()) join()\<close>; \<open>None\<close> where it has to wait for the thread to end.\<close>

definition join_action_thread :: "action_server \<Rightarrow> action_server option" where
  "join_action_thread s =
     (case as_thread s of
        No_thread \<Rightarrow> Some s
      | Ended \<Rightarrow> Some (s\<lparr>as_thread := No_thread\<rparr>)
      | _ \<Rightarrow> None)"

definition handle_move_accepted :: "move_goal \<Rightarrow> action_server \<Rightarrow> action_server option" where
  "handle_move_accepted goal s =
     map_option (\<lambda>s1. s1\<lparr>as_thread := Started (Move_goal goal)\<rparr>) (join_action_thread s)"

definition handle_gripper_command_accepted :: "double \<Rightarrow> double \<Rightarrow> action_server \<Rightarrow> action_server option" where
  "handle_gripper_command_accepted position effort s =
     map_option (\<lambda>s1. s1\<lparr>as_thread := Started (Gripper_goal position effort)\<rparr>) (join_action_thread s)"

fun handle_accepted :: "action_goal \<Rightarrow> action_server \<Rightarrow> action_server option" where
  "handle_accepted (Move_goal goal) s = handle_move_accepted goal s"
| "handle_accepted (Gripper_goal position effort) s = handle_gripper_command_accepted position effort s"

section \<open>The function of the thread, in steps\<close>

text \<open>Up to the wait: the answer if the goal ends here, or the variables the wait works on. \<open>None\<close> is a
  conversion that is not defined.\<close>

fun begin_goal :: "action_goal \<Rightarrow> controller \<Rightarrow> ((action_result + wait_frame) \<times> controller) option" where
  "begin_goal (Move_goal goal) c =
     (case current_status c of
        (Inl reason, c1) \<Rightarrow> Some (Inl (Move_answer Aborted (Move_result\<lparr>message := reason\<rparr>)), c1)
      | (Inr status, c1) \<Rightarrow>
          if \<not> s_activated status \<or> s_initialization_status status \<noteq> INITIALIZATION_READY then
            Some (Inl (Move_answer Aborted (Move_result\<lparr>message := ''gripper is not activated and ready'',
              final_status := status\<rparr>)), c1)
          else
            (case publish_command (move_command goal) c1 of (command_id, c2) \<Rightarrow>
             case move_timeout goal c2 of
               None \<Rightarrow> None
             | Some timeout \<Rightarrow>
                 (case steady_now c2 of (t, c3) \<Rightarrow>
                    Some (Inr \<lparr>wf_goal = Move_goal goal, wf_command = move_command goal, wf_command_id = command_id,
                      wf_deadline = t + timeout, wf_connection_id = s_connection_id status, wf_status = status\<rparr>, c3))))"
| "begin_goal (Gripper_goal position_m max_effort) c =
     (case current_status c of
        (Inl reason, c1) \<Rightarrow> Some (Inl (Gripper_answer Aborted Gripper_result), c1)
      | (Inr status, c1) \<Rightarrow>
          if \<not> s_activated status \<or> s_initialization_status status \<noteq> INITIALIZATION_READY then
            Some (Inl (Gripper_answer Aborted (fill_gripper_command_state (ct_parameters c) status)), c1)
          else
            (case (gripper_command_position_to_raw (ct_parameters c) position_m,
                   gripper_command_effort_to_raw (ct_parameters c) max_effort) of
               (Some position_raw, Some effort_raw) \<Rightarrow>
                 (let speed_raw = of_int (gripper_command_speed (ct_parameters c));
                      command = gripper_command position_raw speed_raw effort_raw in
                  case publish_command command c1 of (command_id, c2) \<Rightarrow>
                  case steady_now c2 of (t, c3) \<Rightarrow>
                    Some (Inr \<lparr>wf_goal = Gripper_goal position_m max_effort, wf_command = command, wf_command_id = command_id,
                      wf_deadline = t + ct_default_move_timeout c3, wf_connection_id = s_connection_id status,
                      wf_status = status\<rparr>, c3))
             | _ \<Rightarrow> None))"

text \<open>\<^verbatim>\<open>matches_request\<close> and \<^verbatim>\<open>progress\<close> of the two functions.\<close>

definition matches_request :: "wait_frame \<Rightarrow> status \<Rightarrow> bool" where
  "matches_request f =
     (case wf_goal f of
        Move_goal goal \<Rightarrow> move_done goal (wf_command_id f)
      | Gripper_goal _ _ \<Rightarrow> gripper_done (c_position_a (wf_command f)) (wf_command_id f))"

definition goal_progress :: "wait_frame \<Rightarrow> bool \<Rightarrow> status \<Rightarrow> controller \<Rightarrow> controller" where
  "goal_progress f = (case wf_goal f of Move_goal _ \<Rightarrow> move_progress | Gripper_goal _ _ \<Rightarrow> gripper_progress)"

text \<open>One pass of the wait: its result and reason if it ends.\<close>

definition goal_pass :: "wait_frame \<Rightarrow> controller \<Rightarrow> ((bool \<times> string) option \<times> wait_frame) \<times> controller" where
  "goal_pass f c =
     (case wait_pass (matches_request f) (wf_deadline f) (wf_connection_id f) True (goal_progress f) (wf_status f) c of
        ((r, status), c1) \<Rightarrow> ((map_option (\<lambda>(completed, reason, _). (completed, reason)) r, f\<lparr>wf_status := status\<rparr>), c1))"

text \<open>After the wait.\<close>

definition finish_goal :: "wait_frame \<Rightarrow> bool \<Rightarrow> string \<Rightarrow> controller \<Rightarrow> action_result \<times> controller" where
  "finish_goal f completed reason c =
     (case wf_goal f of
        Move_goal _ \<Rightarrow>
          (case move_finish completed reason (wf_status f) (wf_connection_id f) (wf_command f) c of
             ((outcome, result), c1) \<Rightarrow> (Move_answer outcome result, c1))
      | Gripper_goal _ _ \<Rightarrow>
          (case gripper_finish completed (wf_status f) (wf_connection_id f) (wf_command f) c of
             ((outcome, result), c1) \<Rightarrow> (Gripper_answer outcome result, c1)))"

definition send_answer :: "action_goal \<Rightarrow> action_result \<times> controller \<Rightarrow> action_server \<Rightarrow> action_server" where
  "send_answer goal q s =
     s\<lparr>as_node := snd q, as_thread := Answered, as_results := as_results s @ [(goal, fst q)]\<rparr>"

text \<open>\<open>None\<close> is a step that cannot happen.\<close>

definition thread_step :: "action_server \<Rightarrow> action_server option" where
  "thread_step s =
     (case as_thread s of
        Started goal \<Rightarrow>
          (case begin_goal goal (as_node s) of
             None \<Rightarrow> None
           | Some (Inl r, c) \<Rightarrow> Some (send_answer goal (r, c) s)
           | Some (Inr f, c) \<Rightarrow> Some (s\<lparr>as_node := c, as_thread := Waiting f\<rparr>))
      | Waiting f \<Rightarrow>
          (case goal_pass f (as_node s) of
             ((None, f1), c) \<Rightarrow> Some (s\<lparr>as_node := c, as_thread := Waiting f1\<rparr>)
           | ((Some (completed, reason), f1), c) \<Rightarrow> Some (s\<lparr>as_node := c, as_thread := Waited f1 completed reason\<rparr>))
      | Waited f completed reason \<Rightarrow> Some (send_answer (wf_goal f) (finish_goal f completed reason (as_node s)) s)
      | Answered \<Rightarrow> Some (s\<lparr>as_node := release (as_node s), as_thread := Released\<rparr>)
      | Released \<Rightarrow> Some (s\<lparr>as_thread := Ended\<rparr>)
      | _ \<Rightarrow> None)"

section \<open>Steps of the node\<close>

fun service_body :: "service \<Rightarrow> controller \<Rightarrow> ((bool \<times> string) \<times> controller) option" where
  "service_body Activate_service c = activate_guarded c"
| "service_body Deactivate_service c = deactivate_guarded c"

datatype server_event =
    Goal_request action_goal
  | Cancel_request action_goal
  | Goal_accepted              \<comment> \<open>the accepted callback, after the goal callback of that goal\<close>
  | Thread_step
  | Service_called service
  | Service_runs
  | Service_leaves
  | Status_arrives status
  | Stop_service

text \<open>\<open>None\<close> is a step that cannot happen now, or a service that does not return. An accepted callback
  that has to wait in its join is a \<open>Goal_accepted\<close> that cannot happen yet.\<close>

fun serve :: "server_event \<Rightarrow> action_server \<Rightarrow> action_server option" where
  "serve (Goal_request goal) s =
     (case handle_goal goal (as_node s) of
        (ACCEPT_AND_EXECUTE, c) \<Rightarrow>
          Some (s\<lparr>as_node := c, as_accepted := Some goal, as_goals := as_goals s @ [goal]\<rparr>)
      | (REJECT, c) \<Rightarrow> Some (s\<lparr>as_node := c\<rparr>))"
| "serve (Cancel_request goal) s = Some s"
| "serve Goal_accepted s =
     (case as_accepted s of
        None \<Rightarrow> None
      | Some goal \<Rightarrow> handle_accepted goal (s\<lparr>as_accepted := None\<rparr>))"
| "serve Thread_step s = thread_step s"
| "serve (Service_called v) s =
     (case begin_operation (as_node s) of
        (False, c) \<Rightarrow> Some (s\<lparr>as_node := c\<rparr>)
      | (True, c) \<Rightarrow> Some (s\<lparr>as_node := c, as_service := Entered v\<rparr>))"
| "serve Service_runs s =
     (case as_service s of
        Entered v \<Rightarrow>
          map_option (\<lambda>(_, c). s\<lparr>as_node := c, as_service := Replied\<rparr>) (service_body v (as_node s))
      | _ \<Rightarrow> None)"
| "serve Service_leaves s =
     (if as_service s = Replied then Some (s\<lparr>as_node := release (as_node s), as_service := No_service\<rparr>) else None)"
| "serve (Status_arrives status) s = Some (s\<lparr>as_node := receive_status status (as_node s)\<rparr>)"
| "serve Stop_service s = Some (s\<lparr>as_node := snd (stop (as_node s))\<rparr>)"

abbreviation serve_run :: "server_event list \<Rightarrow> action_server \<Rightarrow> action_server option" where
  "serve_run \<equiv> run_steps serve"

abbreviation thread_steps :: "nat \<Rightarrow> action_server \<Rightarrow> action_server option" where
  "thread_steps n \<equiv> serve_run (replicate n Thread_step)"

text \<open>The destructor, once the executor has stopped: the flag, the wake-up, and the join, during which the
  thread runs from wherever it is until it ends; \<open>None\<close> is a thread that never ends.\<close>

partial_function (option) run_out :: "action_server \<Rightarrow> action_server option" where
  "run_out s =
     (case as_thread s of
        No_thread \<Rightarrow> Some s
      | Ended \<Rightarrow> Some s
      | _ \<Rightarrow> (case thread_step s of None \<Rightarrow> None | Some s1 \<Rightarrow> run_out s1))"

definition controller_destroy :: "action_server \<Rightarrow> action_server option" where
  "controller_destroy s =
     (case run_out (s\<lparr>as_node := (as_node s)\<lparr>ct_shutting_down := True\<rparr>\<rparr>) of
        None \<Rightarrow> None
      | Some s1 \<Rightarrow> join_action_thread s1)"

section \<open>One operation at a time\<close>

text \<open>The goal the thread has still to answer.\<close>

fun goal_of :: "action_thread \<Rightarrow> action_goal option" where
  "goal_of (Started goal) = Some goal"
| "goal_of (Waiting f) = Some (wf_goal f)"
| "goal_of (Waited f completed reason) = Some (wf_goal f)"
| "goal_of thread = None"

text \<open>Who holds \<^verbatim>\<open>busy_\<close>: an accepted goal until the guard of its thread is gone, or a service.\<close>

datatype holder = By_goal | By_service

definition holders :: "action_server \<Rightarrow> holder list" where
  "holders s = (if as_accepted s = None then [] else [By_goal]) @
     (if goal_of (as_thread s) = None \<and> as_thread s \<noteq> Answered then [] else [By_goal]) @
     (if as_service s = No_service then [] else [By_service])"

definition exclusion_inv :: "action_server \<Rightarrow> bool" where
  "exclusion_inv s \<longleftrightarrow> length (holders s) \<le> 1 \<and> (ct_busy (as_node s) \<longleftrightarrow> holders s \<noteq> [])"

text \<open>The goals accepted and not yet answered.\<close>

definition pending_goals :: "action_server \<Rightarrow> action_goal list" where
  "pending_goals s = (case goal_of (as_thread s) of Some goal \<Rightarrow> [goal] | None \<Rightarrow> []) @
     (case as_accepted s of Some goal \<Rightarrow> [goal] | None \<Rightarrow> [])"

definition answers_inv :: "action_server \<Rightarrow> bool" where
  "answers_inv s \<longleftrightarrow> as_goals s = map fst (as_results s) @ pending_goals s"

lemma goal_progress_feedback [simp]: "only_feedback (goal_progress f)"
  by (simp add: goal_progress_def split: action_goal.splits)

text \<open>The status a wait works on is connected and of the connection it waits for.\<close>

definition frame_ok :: "wait_frame \<Rightarrow> bool" where
  "frame_ok f \<longleftrightarrow> s_connected (wf_status f) \<and> s_connection_id (wf_status f) = wf_connection_id f"

lemma begin_goal_facts:
  assumes "begin_goal goal c = Some (q, c')"
  shows "kept c c'" "q = Inl r \<Longrightarrow> ct_published c' = ct_published c" "q = Inr f \<Longrightarrow> wf_goal f = goal \<and> frame_ok f"
    "ct_shutting_down c' = ct_shutting_down c"
proof -
  obtain p c1 where 1: "current_status c = (p, c1)" by fastforce
  have k1: "kept c c1" and same: "ct_published c1 = ct_published c" "ct_shutting_down c1 = ct_shutting_down c"
    "p = Inr st \<Longrightarrow> s_connected st" for st
    using current_status_kept [OF 1] 1 by (auto simp: current_status_def steady_now_def split: if_splits)
  have k: "kept c c3 \<and> ct_shutting_down c3 = ct_shutting_down c"
    if "publish_command cmd c1 = (i, c2)" "steady_now c2 = (t, c3)" for cmd i c2 t c3
    using kept_trans [OF k1 kept_trans [OF publish_command_kept [OF that(1)] steady_now_kept [OF that(2)]]] that same(2)
    by (auto simp: publish_command_def steady_now_def Let_def)
  show "kept c c'" "q = Inl r \<Longrightarrow> ct_published c' = ct_published c" "q = Inr f \<Longrightarrow> wf_goal f = goal \<and> frame_ok f"
    "ct_shutting_down c' = ct_shutting_down c"
    using assms k1 same k
    by (cases goal; cases p; auto simp: 1 Let_def frame_ok_def split: if_splits option.splits prod.splits)+
qed

lemma wait_pass_status:
  assumes "wait_pass pr dl k canc prog st0 c = ((r, st), c')" "only_feedback prog"
  shows "r = Some (ok, reason, st1) \<Longrightarrow> st1 = st"
    "r = None \<Longrightarrow> st = st0 \<or> s_connected st \<and> s_connection_id st = k"
proof -
  let ?s = "shd (ct_threads c)"
  define c1 where "c1 = thread_events (ts_events ?s) (c\<lparr>ct_threads := stl (ct_threads c)\<rparr>)"
  define c2 where "c2 = (if ct_have_status c1 then prog (ts_active ?s) (ct_current_status c1) c1 else c1)"
  define st2 where "st2 = (if ct_have_status c1 then ct_current_status c1 else st0)"
  obtain v c3 where v: "(if ct_have_status c1 then status_verdict pr k c2 else (Go_on, c2)) = (v, c3)"
    by fastforce
  obtain t c4 where t: "steady_now c3 = (t, c4)" by fastforce
  note pass = assms(1) [unfolded wait_pass_def Let_def c1_def [symmetric], folded c2_def st2_def, unfolded v]
  show "r = Some (ok, reason, st1) \<Longrightarrow> st1 = st" using pass by (auto simp: t split: if_splits verdict.splits)
  have same: "ct_have_status c1 \<Longrightarrow> ct_current_status c2 = ct_current_status c1"
    using only_feedback_fields [OF assms(2)] by (simp add: c2_def)
  assume "r = None"
  then have "v = Go_on" "st = st2" using pass by (auto simp: t split: if_splits verdict.splits)
  then show "st = st0 \<or> s_connected st \<and> s_connection_id st = k"
    using v same by (auto simp: st2_def status_verdict_def split: if_splits)
qed

lemma goal_pass_facts:
  assumes "goal_pass f c = ((r, f1), c')"
  shows "kept c c'" "wf_goal f1 = wf_goal f" "wf_command f1 = wf_command f" "r = None \<Longrightarrow> frame_ok f \<Longrightarrow> frame_ok f1"
proof -
  obtain q st where w: "wait_pass (matches_request f) (wf_deadline f) (wf_connection_id f) True (goal_progress f) (wf_status f) c = ((q, st), c')"
    and f: "f1 = f\<lparr>wf_status := st\<rparr>" "r = None \<Longrightarrow> q = None"
    using assms by (auto simp: goal_pass_def split: prod.splits)
  show "kept c c'" using wait_pass_post(1) [OF w goal_progress_feedback] .
  show "wf_goal f1 = wf_goal f" "wf_command f1 = wf_command f" by (simp_all add: f(1))
  show "r = None \<Longrightarrow> frame_ok f \<Longrightarrow> frame_ok f1"
    using wait_pass_status(2) [OF w goal_progress_feedback] f by (auto simp: frame_ok_def)
qed

lemma finish_goal_kept: "finish_goal f completed reason c = (r, c') \<Longrightarrow> kept c c'"
  by (auto simp: finish_goal_def split: action_goal.splits prod.splits intro: finish_kept)

lemma service_body_kept: "service_body v c = Some (r, c') \<Longrightarrow> kept c c'"
  by (cases v) (auto intro: activate_guarded_kept deactivate_guarded_kept)

lemma handle_goal_cases:
  assumes "handle_goal goal c = (r, c')"
  shows "r = ACCEPT_AND_EXECUTE \<and> \<not> ct_busy c \<and> c' = c\<lparr>ct_busy := True\<rparr> \<or> r = REJECT \<and> c' = c"
  using assms by (cases goal) (auto simp: handle_move_goal_def handle_gripper_command_goal_def Let_def busy_same split: if_splits)

lemma passive_kept:
  shows "kept c (receive_status st c) \<and> ct_busy (receive_status st c) = ct_busy c"
    and "kept c (snd (stop c)) \<and> ct_busy (snd (stop c)) = ct_busy c"
proof -
  show "kept c (receive_status st c) \<and> ct_busy (receive_status st c) = ct_busy c"
    by (simp add: receive_status_kept) (simp add: receive_status_def steady_now_def)
  obtain r c' where "stop c = (r, c')" by fastforce
  then show "kept c (snd (stop c)) \<and> ct_busy (snd (stop c)) = ct_busy c" using stop_kept [of c r c']
    by (auto simp: stop_def current_status_def steady_now_def publish_command_def Let_def split: sum.splits prod.splits if_splits)
qed

text \<open>What a step of the thread does: it works on its goal, answers it, releases the node, or ends.\<close>

lemma thread_step_cases:
  assumes "thread_step s = Some s'"
  obtains (work) goal th c where "goal_of (as_thread s) = Some goal" "goal_of th = Some goal" "kept (as_node s) c"
      "s' = s\<lparr>as_node := c, as_thread := th\<rparr>"
      "(\<forall>f. as_thread s = Waiting f \<longrightarrow> frame_ok f) \<longrightarrow> (\<forall>f. th = Waiting f \<longrightarrow> frame_ok f)"
  | (answer) goal r c where "goal_of (as_thread s) = Some goal" "kept (as_node s) c" "s' = send_answer goal (r, c) s"
  | (leave) "as_thread s = Answered" "s' = s\<lparr>as_node := release (as_node s), as_thread := Released\<rparr>"
  | (finish) "as_thread s = Released" "s' = s\<lparr>as_thread := Ended\<rparr>"
proof (cases "as_thread s")
  case (Started goal)
  then obtain q c where b: "begin_goal goal (as_node s) = Some (q, c)"
    using assms by (auto simp: thread_step_def split: option.splits)
  note f = begin_goal_facts [OF b]
  show thesis
  proof (cases q)
    case (Inl r)
    then show thesis using assms Started b f(1) by (intro answer [of goal c r]) (auto simp: thread_step_def)
  next
    case (Inr f')
    then show thesis using assms Started b f(1,3) by (intro work [of goal "Waiting f'" c]) (auto simp: thread_step_def)
  qed
next
  case (Waiting f)
  obtain r f1 c where p: "goal_pass f (as_node s) = ((r, f1), c)" by (metis surj_pair)
  note g = goal_pass_facts [OF p]
  show thesis
  proof (cases r)
    case None
    then show thesis using assms Waiting p g by (intro work [of "wf_goal f" "Waiting f1" c]) (auto simp: thread_step_def)
  next
    case (Some cr)
    obtain completed reason where "cr = (completed, reason)" by fastforce
    then show thesis using assms Waiting p g Some
      by (intro work [of "wf_goal f" "Waited f1 completed reason" c]) (auto simp: thread_step_def)
  qed
next
  case (Waited f completed reason)
  obtain r c where p: "finish_goal f completed reason (as_node s) = (r, c)" by fastforce
  then show thesis using assms Waited finish_goal_kept [OF p]
    by (intro answer [of "wf_goal f" c r]) (auto simp: thread_step_def)
qed (use assms leave finish in \<open>auto simp: thread_step_def\<close>)

text \<open>What a step does, by who takes part.\<close>

lemma serve_cases:
  assumes "serve e s = Some s'"
  obtains (accept) goal where "e = Goal_request goal" "\<not> ct_busy (as_node s)" "s' = s\<lparr>as_node := (as_node s)\<lparr>ct_busy := True\<rparr>,
      as_accepted := Some goal, as_goals := as_goals s @ [goal]\<rparr>" "handle_goal goal (as_node s) = (ACCEPT_AND_EXECUTE, as_node s')"
  | (start) goal where "as_accepted s = Some goal" "as_thread s = No_thread \<or> as_thread s = Ended"
      "s' = s\<lparr>as_accepted := None, as_thread := Started goal\<rparr>"
  | (work) goal th c where "goal_of (as_thread s) = Some goal" "goal_of th = Some goal" "kept (as_node s) c"
      "s' = s\<lparr>as_node := c, as_thread := th\<rparr>"
      "(\<forall>f. as_thread s = Waiting f \<longrightarrow> frame_ok f) \<longrightarrow> (\<forall>f. th = Waiting f \<longrightarrow> frame_ok f)"
  | (answer) goal r c where "goal_of (as_thread s) = Some goal" "kept (as_node s) c" "s' = send_answer goal (r, c) s"
  | (leave) "as_thread s = Answered" "s' = s\<lparr>as_node := release (as_node s), as_thread := Released\<rparr>"
  | (finish) "as_thread s = Released" "s' = s\<lparr>as_thread := Ended\<rparr>"
  | (enter) v where "\<not> ct_busy (as_node s)" "s' = s\<lparr>as_node := (as_node s)\<lparr>ct_busy := True\<rparr>, as_service := Entered v\<rparr>"
  | (reply) v c where "as_service s = Entered v" "kept (as_node s) c" "s' = s\<lparr>as_node := c, as_service := Replied\<rparr>"
  | (exit) "as_service s = Replied" "s' = s\<lparr>as_node := release (as_node s), as_service := No_service\<rparr>"
  | (other) c where "s' = s\<lparr>as_node := c\<rparr>" "kept (as_node s) c" "ct_busy c = ct_busy (as_node s)"
proof (cases e)
  case (Goal_request goal)
  obtain r c where h: "handle_goal goal (as_node s) = (r, c)" by fastforce
  from handle_goal_cases [OF this] show thesis
  proof
    assume "r = ACCEPT_AND_EXECUTE \<and> \<not> ct_busy (as_node s) \<and> c = (as_node s)\<lparr>ct_busy := True\<rparr>"
    then show thesis using assms Goal_request h by (intro accept [of goal]) auto
  next
    assume "r = REJECT \<and> c = as_node s"
    then show thesis using assms Goal_request h by (intro other [of c]) auto
  qed
next
  case (Cancel_request goal)
  then show thesis using assms by (intro other [of "as_node s"]) auto
next
  case Goal_accepted
  then obtain goal where g: "as_accepted s = Some goal" using assms by (auto split: option.splits)
  then show thesis using assms Goal_accepted
    by (intro start [OF g]; cases goal)
      (auto simp: handle_move_accepted_def handle_gripper_command_accepted_def join_action_thread_def split: action_thread.splits)
next
  case Thread_step
  then have "thread_step s = Some s'" using assms by simp
  then show thesis using work answer leave finish by (rule thread_step_cases)
next
  case (Service_called v)
  then show thesis using assms
    by (cases "ct_busy (as_node s)"; intro enter [of v] other [of "as_node s"]) (auto simp: begin_operation_def busy_same)
next
  case Service_runs
  then obtain v r c where "as_service s = Entered v" "service_body v (as_node s) = Some (r, c)"
    "s' = s\<lparr>as_node := c, as_service := Replied\<rparr>"
    using assms by (auto split: service_pc.splits)
  then show thesis using service_body_kept by (intro reply [of v c]) auto
next
  case Service_leaves
  then show thesis using assms by (intro exit) (auto split: if_splits)
next
  case (Status_arrives status)
  then show thesis using assms passive_kept by (intro other [of "as_node s'"]) auto
next
  case Stop_service
  then show thesis using assms passive_kept by (intro other [of "as_node s'"]) auto
qed

lemma serve_exclusion_inv:
  assumes "exclusion_inv s" "serve e s = Some s'"
  shows "exclusion_inv s'" "holders s' = holders s \<or> holders s = [] \<or> holders s' = []"
  using assms(2,1) by (cases rule: serve_cases; fastforce simp: exclusion_inv_def holders_def release_def kept_def send_answer_def
      split: if_splits)+

lemma serve_answers_inv:
  assumes "exclusion_inv s" "answers_inv s" "serve e s = Some s'" shows "answers_inv s'"
  using assms(3,1,2) by (cases rule: serve_cases) (fastforce simp: exclusion_inv_def holders_def answers_inv_def pending_goals_def
      send_answer_def split: if_splits option.splits)+

definition frames_inv :: "action_server \<Rightarrow> bool" where
  "frames_inv s \<longleftrightarrow> (\<forall>f. as_thread s = Waiting f \<longrightarrow> frame_ok f)"

lemma serve_frames_inv:
  assumes "frames_inv s" "serve e s = Some s'" shows "frames_inv s'"
  using assms(2)
proof (cases rule: serve_cases)
  case (work goal th c)
  then show ?thesis using assms(1) unfolding frames_inv_def by simp
next
  case (other c)
  then show ?thesis using assms(1) unfolding frames_inv_def by simp
qed (use assms(1) in \<open>simp_all add: frames_inv_def send_answer_def\<close>)

lemma fresh_server_inv: "\<not> ct_busy c \<Longrightarrow> exclusion_inv (fresh_server c)" "answers_inv (fresh_server c)" "frames_inv (fresh_server c)"
  by (simp_all add: exclusion_inv_def answers_inv_def frames_inv_def holders_def pending_goals_def fresh_server_def)

lemma served_inv:
  assumes "serve_run es (fresh_server c) = Some s" "\<not> ct_busy c"
  shows "exclusion_inv s \<and> answers_inv s \<and> frames_inv s"
  by (rule run_steps_invariant [OF assms(1)])
    (use fresh_server_inv assms(2) serve_exclusion_inv(1) serve_answers_inv serve_frames_inv in blast)+

text \<open>A goal that was accepted starts as soon as the thread of the goal before has ended; that thread has
  at least released the node.\<close>

lemma accepted_starts:
  assumes "exclusion_inv s" "as_accepted s = Some goal"
  shows "as_thread s \<noteq> Released \<Longrightarrow> serve Goal_accepted s = Some (s\<lparr>as_accepted := None, as_thread := Started goal\<rparr>)"
    "as_thread s = Released \<Longrightarrow> serve Goal_accepted s = None \<and> serve Thread_step s = Some (s\<lparr>as_thread := Ended\<rparr>) \<and>
       serve Goal_accepted (s\<lparr>as_thread := Ended\<rparr>) = Some (s\<lparr>as_accepted := None, as_thread := Started goal\<rparr>)"
proof -
  have "length (holders s) \<le> 1" using assms(1) by (simp add: exclusion_inv_def)
  then have "goal_of (as_thread s) = None" "as_thread s \<noteq> Answered" using assms(2) by (auto simp: holders_def split: if_splits)
  then have "as_thread s = No_thread \<or> as_thread s = Released \<or> as_thread s = Ended" by (cases "as_thread s") auto
  then show "as_thread s \<noteq> Released \<Longrightarrow> serve Goal_accepted s = Some (s\<lparr>as_accepted := None, as_thread := Started goal\<rparr>)"
    "as_thread s = Released \<Longrightarrow> serve Goal_accepted s = None \<and> serve Thread_step s = Some (s\<lparr>as_thread := Ended\<rparr>) \<and>
       serve Goal_accepted (s\<lparr>as_thread := Ended\<rparr>) = Some (s\<lparr>as_accepted := None, as_thread := Started goal\<rparr>)"
    by (cases goal; use assms(2) in \<open>auto simp: handle_move_accepted_def handle_gripper_command_accepted_def
        join_action_thread_def thread_step_def\<close>)+
qed

text \<open>C17. One operation at a time, whatever the order of the callbacks and of the steps of the action thread:
  the flag is set exactly while one goal or one service holds it, and it passes from one to the next only
  through a release. So at most one executor thread is ever blocked in a service. The join in an accepted
  callback never waits for an operation: it waits only if the thread of the goal before has released the
  flag and not ended yet, and then that thread's next step is its end, after which the join returns.\<close>

theorem one_operation_at_a_time:
  assumes "serve_run es (fresh_server c) = Some s" "\<not> ct_busy c"
  shows "length (holders s) \<le> 1 \<and> (ct_busy (as_node s) \<longleftrightarrow> holders s \<noteq> []) \<and>
    (\<forall>e s'. serve e s = Some s' \<longrightarrow> holders s' = holders s \<or> holders s = [] \<or> holders s' = []) \<and>
    (as_accepted s \<noteq> None \<longrightarrow>
      (if as_thread s = Released
       then serve Goal_accepted s = None \<and>
         (\<exists>s1. serve Thread_step s = Some s1 \<and> as_thread s1 = Ended \<and> serve Goal_accepted s1 \<noteq> None)
       else serve Goal_accepted s \<noteq> None))"
proof -
  have inv: "exclusion_inv s" using served_inv [OF assms] by simp
  then have "as_accepted s \<noteq> None \<longrightarrow>
      (if as_thread s = Released
       then serve Goal_accepted s = None \<and>
         (\<exists>s1. serve Thread_step s = Some s1 \<and> as_thread s1 = Ended \<and> serve Goal_accepted s1 \<noteq> None)
       else serve Goal_accepted s \<noteq> None)"
    using accepted_starts [OF inv] by (cases "as_accepted s") (auto simp del: serve.simps)
  then show ?thesis using inv serve_exclusion_inv(2) [OF inv] unfolding exclusion_inv_def by blast
qed

section \<open>The steps of the thread and the whole function\<close>

text \<open>The function of the thread in one piece, as \<^verbatim>\<open>Controller_Node\<close> has it: with nothing between its steps
  but what its script brings.\<close>

fun execute_goal :: "action_goal \<Rightarrow> controller \<Rightarrow> (action_result \<times> controller) option" where
  "execute_goal (Move_goal goal) c =
     map_option (\<lambda>((outcome, result), c1). (Move_answer outcome result, c1)) (move_guarded goal c)"
| "execute_goal (Gripper_goal position effort) c =
     map_option (\<lambda>((outcome, result), c1). (Gripper_answer outcome result, c1)) (gripper_guarded position effort c)"

definition wait_goal :: "wait_frame \<Rightarrow> controller \<Rightarrow> ((bool \<times> string \<times> status) \<times> controller) option" where
  "wait_goal f c =
     wait_for_status (matches_request f) (wf_deadline f) (wf_connection_id f) True (goal_progress f) (wf_status f) c"

lemma execute_goal_begins:
  "execute_goal goal c =
     (case begin_goal goal c of
        None \<Rightarrow> None
      | Some (Inl r, c1) \<Rightarrow> Some (r, c1)
      | Some (Inr f, c1) \<Rightarrow>
          map_option (\<lambda>((completed, reason, status), c2). finish_goal (f\<lparr>wf_status := status\<rparr>) completed reason c2)
            (wait_goal f c1))"
proof (cases goal)
  case (Move_goal m)
  then show ?thesis
    by (simp add: move_guarded_def wait_goal_def finish_goal_def matches_request_def goal_progress_def
        split: prod.splits sum.splits option.splits)
next
  case (Gripper_goal p e)
  then show ?thesis
    by (simp add: gripper_guarded_def wait_goal_def finish_goal_def matches_request_def goal_progress_def Let_def
        gripper_command_def split: prod.splits sum.splits option.splits)
qed

lemma wait_frame_status [simp]:
  "matches_request (f\<lparr>wf_status := st\<rparr>) = matches_request f" "goal_progress (f\<lparr>wf_status := st\<rparr>) = goal_progress f"
  by (simp_all add: matches_request_def goal_progress_def cong: action_goal.case_cong)

lemma goal_pass_wait:
  assumes "goal_pass f c = ((r, f1), c1)"
  shows "r = Some (completed, reason) \<Longrightarrow> wait_goal f c = Some ((completed, reason, wf_status f1), c1) \<and>
      f1 = f\<lparr>wf_status := wf_status f1\<rparr>"
    "r = None \<Longrightarrow> wait_goal f c = wait_goal f1 c1 \<and> f1 = f\<lparr>wf_status := wf_status f1\<rparr>"
proof -
  obtain q st where w: "wait_pass (matches_request f) (wf_deadline f) (wf_connection_id f) True (goal_progress f) (wf_status f) c = ((q, st), c1)"
    and f: "f1 = f\<lparr>wf_status := st\<rparr>" and r: "r = map_option (\<lambda>(completed, reason, _). (completed, reason)) q"
    using assms by (auto simp: goal_pass_def split: prod.splits)
  show "r = Some (completed, reason) \<Longrightarrow> wait_goal f c = Some ((completed, reason, wf_status f1), c1) \<and>
      f1 = f\<lparr>wf_status := wf_status f1\<rparr>"
    using wait_pass_status(1) [OF w goal_progress_feedback] r f
    by (auto simp: wait_goal_def wait_for_status.simps [of "matches_request f"] w)
  show "r = None \<Longrightarrow> wait_goal f c = wait_goal f1 c1 \<and> f1 = f\<lparr>wf_status := wf_status f1\<rparr>"
    using r f by (simp add: wait_goal_def wait_for_status.simps [of "matches_request f" "wf_deadline f" "wf_connection_id f"
          True "goal_progress f" "wf_status f" c] w)
qed

lemma thread_steps_add: "thread_steps m s = Some s1 \<Longrightarrow> thread_steps (m + n) s = thread_steps n s1"
  by (simp add: replicate_add run_steps_append)

lemma thread_steps_Suc: "thread_step s = Some s1 \<Longrightarrow> thread_steps (Suc n) s = thread_steps n s1"
  by simp

text \<open>A wait that returns is left after some passes.\<close>

definition leaves_wait :: "action_server \<Rightarrow> wait_frame \<Rightarrow> (bool \<times> string \<times> status) \<times> controller \<Rightarrow> bool" where
  "leaves_wait s f q \<longleftrightarrow> (case q of ((completed, reason, st), c') \<Rightarrow>
     \<exists>n. thread_steps n s = Some (s\<lparr>as_node := c', as_thread := Waited (f\<lparr>wf_status := st\<rparr>) completed reason\<rparr>))"

lemma wait_passes':
  assumes "wait_for_status pr dl k canc prog st0 c = Some q"
  shows "\<forall>(s :: action_server) f. pr = matches_request f \<and> dl = wf_deadline f \<and> k = wf_connection_id f \<and> canc \<and> prog = goal_progress f \<and>
    st0 = wf_status f \<and> as_thread s = Waiting f \<and> as_node s = c \<longrightarrow> leaves_wait s f q"
proof (rule wait_for_status.raw_induct [where P = "\<lambda>pr dl k canc prog st0 c q. \<forall>(s :: action_server) f. pr = matches_request f \<and>
      dl = wf_deadline f \<and> k = wf_connection_id f \<and> canc \<and> prog = goal_progress f \<and>
      st0 = wf_status f \<and> as_thread s = Waiting f \<and> as_node s = c \<longrightarrow> leaves_wait s f q", OF _ assms])
  fix w :: "(status \<Rightarrow> bool) \<Rightarrow> int \<Rightarrow> u64 \<Rightarrow> bool \<Rightarrow> (bool \<Rightarrow> status \<Rightarrow> controller \<Rightarrow> controller) \<Rightarrow>
      status \<Rightarrow> controller \<Rightarrow> ((bool \<times> string \<times> status) \<times> controller) option"
    and pr dl k canc prog st0 c q
  assume IH: "\<And>pr dl k canc prog st0 c q. w pr dl k canc prog st0 c = Some q \<Longrightarrow> \<forall>(s :: action_server) f. pr = matches_request f \<and>
      dl = wf_deadline f \<and> k = wf_connection_id f \<and> canc \<and> prog = goal_progress f \<and>
      st0 = wf_status f \<and> as_thread s = Waiting f \<and> as_node s = c \<longrightarrow> leaves_wait s f q"
    and eq: "(case wait_pass pr dl k canc prog st0 c of
        ((Some r, _), c') \<Rightarrow> Some (r, c')
      | ((None, st1), c') \<Rightarrow> w pr dl k canc prog st1 c') = Some q"
  show "\<forall>(s :: action_server) f. pr = matches_request f \<and> dl = wf_deadline f \<and> k = wf_connection_id f \<and> canc \<and> prog = goal_progress f \<and>
    st0 = wf_status f \<and> as_thread s = Waiting f \<and> as_node s = c \<longrightarrow> leaves_wait s f q"
  proof (intro allI impI)
    fix s :: action_server and f
    assume a: "pr = matches_request f \<and> dl = wf_deadline f \<and> k = wf_connection_id f \<and> canc \<and> prog = goal_progress f \<and>
      st0 = wf_status f \<and> as_thread s = Waiting f \<and> as_node s = c"
    obtain r st1 c1 where p: "wait_pass pr dl k canc prog st0 c = ((r, st1), c1)" by (metis surj_pair)
    let ?f1 = "f\<lparr>wf_status := st1\<rparr>"
    have g: "goal_pass f (as_node s) = ((map_option (\<lambda>(completed, reason, _). (completed, reason)) r, ?f1), c1)"
      using a p by (simp add: goal_pass_def)
    show "leaves_wait s f q"
    proof (cases r)
      case None
      let ?s1 = "s\<lparr>as_node := c1, as_thread := Waiting ?f1\<rparr>"
      have "w pr dl k canc prog st1 c1 = Some q" using eq p None by simp
      from IH [OF this] have "leaves_wait ?s1 ?f1 q" using a by simp
      moreover have "thread_step s = Some ?s1" using a g None by (simp add: thread_step_def)
      ultimately show ?thesis unfolding leaves_wait_def
        by (auto split: prod.splits simp del: serve.simps dest: thread_steps_Suc intro: exI [of _ "Suc n" for n])
          (metis thread_steps_Suc)
    next
      case (Some r')
      obtain completed reason st where r': "r' = (completed, reason, st)" by (metis surj_pair)
      have "st = st1" using wait_pass_status(1) [OF p] a Some r' by simp
      then have "thread_step s = Some (s\<lparr>as_node := c1, as_thread := Waited (f\<lparr>wf_status := st\<rparr>) completed reason\<rparr>)"
        using a g Some r' by (simp add: thread_step_def)
      moreover have "q = ((completed, reason, st), c1)" using eq p Some r' by simp
      ultimately show ?thesis unfolding leaves_wait_def by (auto intro: exI [of _ 1])
    qed
  qed
qed

text \<open>From anywhere in its function, a thread whose wait returns comes to the answer, and from there to its
  end, with the node released.\<close>

definition thread_answers :: "nat \<Rightarrow> action_server \<Rightarrow> action_goal \<Rightarrow> action_result \<times> controller \<Rightarrow> bool" where
  "thread_answers n s goal q \<longleftrightarrow> thread_steps n s = Some (send_answer goal q s)"

definition thread_ends :: "nat \<Rightarrow> action_server \<Rightarrow> action_goal \<Rightarrow> action_result \<times> controller \<Rightarrow> bool" where
  "thread_ends n s goal q \<longleftrightarrow> thread_steps n s =
     Some (s\<lparr>as_node := release (snd q), as_thread := Ended, as_results := as_results s @ [(goal, fst q)]\<rparr>)"

lemma answered_ends: "thread_answers n s goal q \<Longrightarrow> thread_ends (n + 2) s goal q"
  unfolding thread_answers_def thread_ends_def
  by (simp only: thread_steps_add) (simp add: numeral_2_eq_2 send_answer_def thread_step_def)

lemma waited_answers:
  assumes "as_thread s = Waited f completed reason"
  shows "thread_answers 1 s (wf_goal f) (finish_goal f completed reason (as_node s))"
  using assms by (simp add: thread_answers_def thread_step_def)

lemma waiting_answers:
  assumes "as_thread s = Waiting f" "wait_goal f (as_node s) = Some ((completed, reason, st), c')"
  shows "\<exists>n. thread_answers n s (wf_goal f) (finish_goal (f\<lparr>wf_status := st\<rparr>) completed reason c')"
proof -
  let ?f1 = "f\<lparr>wf_status := st\<rparr>"
  obtain n where n: "thread_steps n s = Some (s\<lparr>as_node := c', as_thread := Waited ?f1 completed reason\<rparr>)" (is "_ = Some ?s1")
    using wait_passes' [OF assms(2) [unfolded wait_goal_def]] assms(1) by (auto simp: leaves_wait_def)
  have "thread_answers (n + 1) s (wf_goal f) (finish_goal ?f1 completed reason c')"
    unfolding thread_answers_def thread_steps_add [OF n] by (simp add: thread_step_def send_answer_def)
  then show ?thesis ..
qed

text \<open>The steps of the thread compute the whole function.\<close>

lemma started_answers:
  assumes "as_thread s = Started goal" "execute_goal goal (as_node s) = Some q"
  shows "\<exists>n. thread_answers n s goal q"
proof -
  obtain b c1 where b: "begin_goal goal (as_node s) = Some (b, c1)"
    using assms(2) by (auto simp: execute_goal_begins split: option.splits)
  show ?thesis
  proof (cases b)
    case (Inl r)
    then have "thread_answers 1 s goal q" using assms b by (simp add: thread_answers_def thread_step_def execute_goal_begins)
    then show ?thesis ..
  next
    case (Inr f)
    let ?s1 = "s\<lparr>as_node := c1, as_thread := Waiting f\<rparr>"
    obtain completed reason st c2 where w: "wait_goal f c1 = Some ((completed, reason, st), c2)"
      "q = finish_goal (f\<lparr>wf_status := st\<rparr>) completed reason c2"
      using assms(2) b Inr by (auto simp: execute_goal_begins)
    have g: "wf_goal f = goal" using begin_goal_facts(3) [OF b Inr] by simp
    obtain n where "thread_answers n ?s1 goal q" using waiting_answers [of ?s1 f] w g by auto
    moreover have "thread_step s = Some ?s1" using assms(1) b Inr by (simp add: thread_step_def)
    ultimately show ?thesis unfolding thread_answers_def
      by (intro exI [of _ "Suc n"]) (simp only: thread_steps_Suc, simp add: send_answer_def)
  qed
qed

lemma waited_ends:
  "as_thread s = Waited f completed reason \<Longrightarrow> \<exists>n. thread_ends n s (wf_goal f) (finish_goal f completed reason (as_node s))"
  using answered_ends [OF waited_answers] by blast

lemma waiting_ends:
  "as_thread s = Waiting f \<Longrightarrow> wait_goal f (as_node s) = Some ((completed, reason, st), c') \<Longrightarrow>
   \<exists>n. thread_ends n s (wf_goal f) (finish_goal (f\<lparr>wf_status := st\<rparr>) completed reason c')"
  using answered_ends waiting_answers by blast

lemma started_ends: "as_thread s = Started goal \<Longrightarrow> execute_goal goal (as_node s) = Some q \<Longrightarrow> \<exists>n. thread_ends n s goal q"
  using answered_ends started_answers by blast

section \<open>Every goal gets its answer\<close>

text \<open>A goal whose conversions are defined under the parameters.\<close>

fun goal_ok :: "controller_parameters \<Rightarrow> action_goal \<Rightarrow> bool" where
  "goal_ok p (Move_goal goal) \<longleftrightarrow> True"
| "goal_ok p (Gripper_goal position effort) \<longleftrightarrow> position_goal_ok p position \<and> effort_goal_ok p effort"

fun request_ok :: "server_event \<Rightarrow> bool" where
  "request_ok (Goal_request (Gripper_goal position effort)) \<longleftrightarrow> is_double position \<and> is_double effort"
| "request_ok e \<longleftrightarrow> True"

definition goals_inv :: "controller_parameters \<Rightarrow> action_server \<Rightarrow> bool" where
  "goals_inv p s \<longleftrightarrow> ct_parameters (as_node s) = p \<and> (\<forall>goal \<in> set (pending_goals s). goal_ok p goal)"

lemma serve_goals_inv:
  assumes "\<not> bad_compatibility p" "doubles_ok p" "goals_inv p s" "request_ok e" "serve e s = Some s'"
  shows "goals_inv p s'"
  using assms(5)
proof (cases rule: serve_cases)
  case (accept goal)
  have p: "ct_parameters (as_node s) = p" using assms(3) by (simp add: goals_inv_def)
  have "goal_ok p goal"
  proof (cases goal)
    case (Gripper_goal position effort)
    then show ?thesis using acceptance_ok [of position effort "as_node s"] accept(1,4) assms(1,2,4) p by simp
  qed simp
  then show ?thesis using assms(3) accept(3) by (auto simp: goals_inv_def pending_goals_def split: option.splits)
qed (use assms(3) in \<open>auto simp: goals_inv_def pending_goals_def release_def kept_parameters send_answer_def\<close>)

lemma served_goals_inv:
  assumes "\<not> bad_compatibility p" "doubles_ok p" "ct_parameters c = p" "\<forall>e \<in> set es. request_ok e"
    "serve_run es (fresh_server c) = Some s"
  shows "goals_inv p s"
proof (rule run_steps_invariant [OF assms(5)])
  show "goals_inv p (fresh_server c)" using assms(3) by (simp add: goals_inv_def fresh_server_def pending_goals_def)
next
  fix e s s' assume "e \<in> set es" "goals_inv p s" "serve e s = Some s'"
  then show "goals_inv p s'" using serve_goals_inv [OF assms(1,2)] assms(4) by blast
qed

lemma execute_goal_returns:
  assumes "steady_runs c" "\<not> bad_compatibility p" "doubles_ok p" "ct_parameters c = p" "goal_ok p goal"
  shows "\<exists>r c'. execute_goal goal c = Some (r, c')"
proof (cases goal)
  case (Move_goal m)
  then show ?thesis using move_guarded_returns [OF assms(1), of m] by auto
next
  case (Gripper_goal position effort)
  then show ?thesis using gripper_guarded_returns [of c position effort] assms by auto
qed

lemma pending_thread_ends:
  assumes "goal_of (as_thread s) = Some goal" "steady_runs (as_node s)"
    and "\<not> bad_compatibility p" "doubles_ok p" "ct_parameters (as_node s) = p" "goal_ok p goal"
  shows "\<exists>n q. thread_ends n s goal q"
proof (cases "as_thread s")
  case (Started g)
  then show ?thesis using execute_goal_returns [OF assms(2-6)] started_ends [OF Started] assms(1) by fastforce
next
  case (Waiting f)
  obtain completed reason st c' where "wait_goal f (as_node s) = Some ((completed, reason, st), c')"
    using wait_for_status_returns [OF assms(2) goal_progress_feedback] unfolding wait_goal_def by metis
  from waiting_ends [OF Waiting this] assms(1) Waiting show ?thesis by (auto simp del: split_paired_Ex)
next
  case (Waited f completed reason)
  then show ?thesis using waited_ends [OF Waited] assms(1) by (auto simp del: split_paired_Ex)
qed (use assms(1) in auto)

lemma service_body_returns: "steady_runs c \<Longrightarrow> \<exists>r c'. service_body v c = Some (r, c')"
  using activate_guarded_returns [of c] deactivate_guarded_returns [of c] by (cases v) (metis prod.collapse service_body.simps)+

text \<open>A goal whose accepted callback is still to run gets its thread: after at most one step of the thread
  of the goal before.\<close>

lemma accepted_gets_thread:
  assumes "exclusion_inv s" "as_accepted s = Some goal"
  shows "serve_run ((if as_thread s = Released then [Thread_step] else []) @ [Goal_accepted]) s =
    Some (s\<lparr>as_accepted := None, as_thread := Started goal\<rparr>)"
  using accepted_starts [OF assms] by (auto simp del: serve.simps)

text \<open>C18. Every accepted goal is answered exactly once, in the order of acceptance, and at most one is
  waiting. On a clock that passes every instant the thread of that goal, wherever in its function it is,
  comes to its end after finitely many steps, with the answer sent and the server free; if its accepted
  callback is still to run, it can run after at most one step of the thread before. A service that has
  been entered also ends and leaves the server free.\<close>

theorem accepted_goals_are_answered:
  assumes "serve_run es (fresh_server c) = Some s" "\<not> ct_busy c" "\<forall>e \<in> set es. request_ok e"
    and "\<not> bad_compatibility (ct_parameters c)" "doubles_ok (ct_parameters c)" "steady_runs (as_node s)"
  shows "as_goals s = map fst (as_results s) @ pending_goals s \<and> length (pending_goals s) \<le> 1 \<and>
    (pending_goals s \<noteq> [] \<longrightarrow> (\<exists>n s'. serve_run
      ((if as_accepted s = None then [] else (if as_thread s = Released then [Thread_step] else []) @ [Goal_accepted]) @
        replicate n Thread_step) s = Some s' \<and>
      as_goals s = map fst (as_results s') \<and> as_thread s' = Ended \<and> \<not> ct_busy (as_node s'))) \<and>
    (\<forall>v. as_service s = Entered v \<longrightarrow>
      (\<exists>s'. serve_run [Service_runs, Service_leaves] s = Some s' \<and> as_service s' = No_service \<and> \<not> ct_busy (as_node s')))"
proof -
  have inv: "exclusion_inv s" "as_goals s = map fst (as_results s) @ pending_goals s"
    using served_inv [OF assms(1,2)] by (auto simp: answers_inv_def)
  have ok: "goals_inv (ct_parameters c) s" using served_goals_inv [OF assms(4,5) refl assms(3,1)] .
  have l: "length (pending_goals s) \<le> 1"
    using inv(1) by (auto simp: exclusion_inv_def holders_def pending_goals_def split: option.splits if_splits)
  have "\<exists>n s'. serve_run ((if as_accepted s = None then [] else (if as_thread s = Released then [Thread_step] else []) @ [Goal_accepted]) @
      replicate n Thread_step) s = Some s' \<and> as_goals s = map fst (as_results s') \<and> as_thread s' = Ended \<and>
      \<not> ct_busy (as_node s')" if ne: "pending_goals s \<noteq> []"
  proof -
    obtain goal where g: "pending_goals s = [goal]" using l ne by (cases "pending_goals s") auto
    have p: "ct_parameters (as_node s) = ct_parameters c" "goal_ok (ct_parameters c) goal" using ok g by (auto simp: goals_inv_def)
    let ?start = "if as_accepted s = None then [] else (if as_thread s = Released then [Thread_step] else []) @ [Goal_accepted]"
    obtain s1 where s1: "serve_run ?start s = Some s1" "goal_of (as_thread s1) = Some goal" "as_node s1 = as_node s"
      "as_results s1 = as_results s"
    proof (cases "as_accepted s")
      case None
      then show thesis using that [of s] g by (auto simp: pending_goals_def split: option.splits)
    next
      case (Some g')
      then have "goal_of (as_thread s) = None" "g' = goal" using g by (auto simp: pending_goals_def split: option.splits)
      then show thesis using that accepted_gets_thread [OF inv(1) Some] Some by simp
    qed
    obtain n q where e: "thread_ends n s1 goal q"
      using pending_thread_ends [OF s1(2) _ assms(4,5)] s1(3) assms(6) p by auto
    then show ?thesis using inv(2) g s1
      by (intro exI [of _ n] exI) (auto simp: run_steps_append thread_ends_def release_def simp del: serve.simps run_steps.simps)
  qed
  moreover have "\<exists>s'. serve_run [Service_runs, Service_leaves] s = Some s' \<and> as_service s' = No_service \<and> \<not> ct_busy (as_node s')"
    if "as_service s = Entered v" for v
    using service_body_returns [OF assms(6), of v] that by (auto simp: release_def)
  ultimately show ?thesis using inv l by blast
qed

section \<open>Shutting down\<close>

lemma thread_events_shutting: "ct_shutting_down c \<Longrightarrow> ct_shutting_down (thread_events es c)"
proof -
  have "ct_shutting_down (on_thread_event e c)" if "ct_shutting_down c" for e c
  proof (cases e)
    case Stop_called
    obtain r c1 where "stop c = (r, c1)" by fastforce
    then show ?thesis using that Stop_called
      by (auto simp: stop_def current_status_def steady_now_def publish_command_def Let_def split: sum.splits prod.splits if_splits)
  qed (use that in \<open>auto simp: receive_status_def steady_now_def begin_operation_def handle_move_goal_def
        handle_gripper_command_goal_def Let_def\<close>)
  then show "ct_shutting_down c \<Longrightarrow> ct_shutting_down (thread_events es c)"
    unfolding thread_events_def by (induction es arbitrary: c) auto
qed

text \<open>A wait ends at its next pass, with the status it has.\<close>

lemma wait_shutting:
  assumes "ct_shutting_down c"
  shows "wait_for_status pr dl k canc prog final c = Some ((False, ''controller is shutting down'', final),
    thread_events (ts_events (shd (ct_threads c))) (c\<lparr>ct_threads := stl (ct_threads c)\<rparr>))"
  using assms by (subst wait_for_status.simps) (simp add: wait_pass_def Let_def thread_events_shutting)

text \<open>The commands published end with a stop, or none was published.\<close>

definition stopped_since :: "controller \<Rightarrow> controller \<Rightarrow> bool" where
  "stopped_since c c' \<longleftrightarrow> ct_published c' = ct_published c \<or>
     (\<exists>cs cmd. ct_published c' = ct_published c @ cs @ [cmd] \<and> \<not> c_go_to cmd)"

lemma finish_goal_facts:
  assumes "finish_goal f completed reason c = (r, c')"
  shows "ct_published c' = ct_published c \<or>
      ct_published c' = ct_published c @ [(wf_command f)\<lparr>c_go_to := False, c_command_id := ct_next_command_id c\<rparr>]"
    "\<not> completed \<Longrightarrow> frame_ok f \<Longrightarrow>
      ct_published c' = ct_published c @ [(wf_command f)\<lparr>c_go_to := False, c_command_id := ct_next_command_id c\<rparr>]"
proof -
  obtain b c1 where s: "stop_if_connected (wf_status f) (wf_connection_id f) (wf_command f) c = (b, c1)" by fastforce
  note f = stop_if_connected_facts [OF s]
  have "ct_published c' = (if completed then ct_published c else ct_published c1)"
    using assms by (auto simp: finish_goal_def move_finish_def gripper_finish_def Let_def s is_canceling_def
        split: action_goal.splits prod.splits if_splits)
  then show "ct_published c' = ct_published c \<or>
      ct_published c' = ct_published c @ [(wf_command f)\<lparr>c_go_to := False, c_command_id := ct_next_command_id c\<rparr>]"
    "\<not> completed \<Longrightarrow> frame_ok f \<Longrightarrow>
      ct_published c' = ct_published c @ [(wf_command f)\<lparr>c_go_to := False, c_command_id := ct_next_command_id c\<rparr>]"
    using f by (cases b; auto simp: frame_ok_def)+
qed

text \<open>The thread is in its wait when the flag is set: it stops the gripper and ends.\<close>

definition stop_sent :: "controller \<Rightarrow> controller \<Rightarrow> command \<Rightarrow> bool" where
  "stop_sent c c' command \<longleftrightarrow>
     (\<exists>cs i. ct_published c' = ct_published c @ cs @ [command\<lparr>c_go_to := False, c_command_id := i\<rparr>])"

lemma stop_sent_stopped: "stop_sent c c' command \<Longrightarrow> stopped_since c c'"
  by (auto simp: stop_sent_def stopped_since_def)

lemma waiting_shutting:
  assumes "as_thread s = Waiting f" "ct_shutting_down (as_node s)" "frame_ok f"
  shows "\<exists>n q. thread_ends n s (wf_goal f) q \<and> stop_sent (as_node s) (snd q) (wf_command f)"
proof -
  let ?c = "(as_node s)\<lparr>ct_threads := stl (ct_threads (as_node s))\<rparr>"
  let ?es = "ts_events (shd (ct_threads (as_node s)))"
  have w: "wait_goal f (as_node s) = Some ((False, ''controller is shutting down'', wf_status f), thread_events ?es ?c)"
    unfolding wait_goal_def by (rule wait_shutting [OF assms(2)])
  obtain cs where cs: "ct_published (thread_events ?es ?c) = ct_published (as_node s) @ cs"
    using kept_published [OF thread_events_kept, of ?es ?c] by auto
  obtain r c' where q: "finish_goal f False ''controller is shutting down'' (thread_events ?es ?c) = (r, c')" by fastforce
  have "stop_sent (as_node s) c' (wf_command f)"
    using finish_goal_facts(2) [OF q _ assms(3)] cs by (auto simp: stop_sent_def)
  moreover obtain n where "thread_ends n s (wf_goal f) (r, c')" using waiting_ends [OF assms(1) w] q by auto
  ultimately show ?thesis by (intro exI [of _ n] exI [of _ "(r, c')"]) simp
qed

lemma begin_goal_defined:
  assumes "\<not> bad_compatibility (ct_parameters c)" "doubles_ok (ct_parameters c)" "goal_ok (ct_parameters c) goal"
  shows "\<exists>q c'. begin_goal goal c = Some (q, c')"
proof (cases goal)
  case (Move_goal m)
  have "\<exists>d. move_timeout m c2 = Some d" for c2 using move_timeout_defined by blast
  then show ?thesis using Move_goal by (auto split: prod.splits sum.splits option.splits) (metis option.distinct(1))
next
  case (Gripper_goal position effort)
  obtain n m where "gripper_command_position_to_raw (ct_parameters c) position = Some n"
    "gripper_command_effort_to_raw (ct_parameters c) effort = Some m"
    using position_raw_defined [OF assms(1,2)] effort_conversion [OF assms(1,2)] assms(3) Gripper_goal by fastforce
  then show ?thesis using Gripper_goal by (auto simp: Let_def split: prod.splits sum.splits)
qed

lemma pending_shutting:
  assumes "goal_of (as_thread s) = Some goal" "ct_shutting_down (as_node s)" "frames_inv s"
    and "\<not> bad_compatibility (ct_parameters (as_node s))" "doubles_ok (ct_parameters (as_node s))"
    and "goal_ok (ct_parameters (as_node s)) goal"
  shows "\<exists>n q. thread_ends n s goal q \<and> stopped_since (as_node s) (snd q) \<and>
    (\<forall>f. as_thread s = Waiting f \<longrightarrow> stop_sent (as_node s) (snd q) (wf_command f))"
proof (cases "as_thread s")
  case (Started g)
  then have g: "as_thread s = Started goal" using assms(1) by simp
  obtain b c1 where b: "begin_goal goal (as_node s) = Some (b, c1)" using begin_goal_defined [OF assms(4-6)] by blast
  note bf = begin_goal_facts [OF b]
  show ?thesis
  proof (cases b)
    case (Inl r)
    have "execute_goal goal (as_node s) = Some (r, c1)" using b Inl by (simp add: execute_goal_begins)
    from started_ends [OF g this] obtain n where "thread_ends n s goal (r, c1)" ..
    then show ?thesis using g bf(2) [OF Inl]
      by (intro exI [of _ n] exI [of _ "(r, c1)"]) (simp add: stopped_since_def)
  next
    case (Inr f)
    let ?s1 = "s\<lparr>as_node := c1, as_thread := Waiting f\<rparr>"
    have f: "wf_goal f = goal" "frame_ok f" "ct_shutting_down c1" using bf(3,4) Inr assms(2) by auto
    obtain n q where e: "thread_ends n ?s1 goal q" "stop_sent c1 (snd q) (wf_command f)"
      using waiting_shutting [of ?s1 f] f by auto
    have "thread_step s = Some ?s1" using g b Inr by (simp add: thread_step_def)
    then have "thread_ends (Suc n) s goal q" using e(1) unfolding thread_ends_def by (simp only: thread_steps_Suc) simp
    moreover obtain cs where "ct_published c1 = ct_published (as_node s) @ cs" using kept_published [OF bf(1)] by metis
    then have "stop_sent (as_node s) (snd q) (wf_command f)" using e(2) by (auto simp: stop_sent_def)
    then have "stopped_since (as_node s) (snd q)" by (rule stop_sent_stopped)
    ultimately show ?thesis using g by (intro exI [of _ "Suc n"] exI [of _ q]) simp
  qed
next
  case (Waiting f)
  then obtain n q where "thread_ends n s goal q" "stop_sent (as_node s) (snd q) (wf_command f)"
    using waiting_shutting [OF Waiting assms(2)] assms(1,3) by (auto simp: frames_inv_def simp del: split_paired_Ex)
  then show ?thesis using Waiting stop_sent_stopped by (intro exI [of _ n] exI [of _ q]) auto
next
  case (Waited f completed reason)
  obtain r c1 where q: "finish_goal f completed reason (as_node s) = (r, c1)" by fastforce
  have "stopped_since (as_node s) c1" using finish_goal_facts(1) [OF q] by (auto simp: stopped_since_def)
  moreover obtain n where "thread_ends n s (wf_goal f) (r, c1)" using waited_ends [OF Waited] q by auto
  ultimately show ?thesis using Waited assms(1) by (intro exI [of _ n] exI [of _ "(r, c1)"]) simp
qed (use assms(1) in auto)

lemma run_out_steps: "thread_steps n s = Some s' \<Longrightarrow> as_thread s' = Ended \<Longrightarrow> run_out s = Some s'"
proof (induction n arbitrary: s)
  case 0
  then show ?case by (simp add: run_out.simps [of s'])
next
  case (Suc n)
  then obtain s1 where s1: "thread_step s = Some s1" "thread_steps n s1 = Some s'" by (auto split: option.splits)
  then have "as_thread s \<noteq> No_thread" "as_thread s \<noteq> Ended" by (auto simp: thread_step_def)
  then show ?case using s1 Suc.IH [OF s1(2) Suc.prems(2)]
    by (subst run_out.simps) (simp split: action_thread.splits)
qed

text \<open>C19. Once the executor has stopped between callbacks, the destructor returns, whatever the clock does and
  wherever in its function the action thread is: about to start, at any pass of its wait, behind it, or
  leaving. The goal under way is answered and no thread is left. If a command still went out, a stop went
  out after it; and if the thread was in its wait, that is, with its command out, the last command
  published is that command with the motion stopped. So the gripper is not left moving.\<close>

theorem controller_destructor_returns:
  assumes "serve_run es (fresh_server c) = Some s" "\<not> ct_busy c" "\<forall>e \<in> set es. request_ok e"
    and "\<not> bad_compatibility (ct_parameters c)" "doubles_ok (ct_parameters c)" "as_accepted s = None"
  shows "\<exists>s'. controller_destroy s = Some s' \<and> as_thread s' = No_thread \<and> as_goals s = map fst (as_results s') \<and>
    stopped_since (as_node s) (as_node s') \<and>
    (\<forall>f. as_thread s = Waiting f \<longrightarrow> (\<exists>cs i. ct_published (as_node s') =
       ct_published (as_node s) @ cs @ [(wf_command f)\<lparr>c_go_to := False, c_command_id := i\<rparr>]))"
proof -
  have inv: "answers_inv s" "frames_inv s" and ok: "goals_inv (ct_parameters c) s"
    using served_inv [OF assms(1,2)] served_goals_inv [OF assms(4,5) refl assms(3,1)] by auto
  let ?s = "s\<lparr>as_node := (as_node s)\<lparr>ct_shutting_down := True\<rparr>\<rparr>"
  show ?thesis
  proof (cases "goal_of (as_thread s)")
    case (Some goal)
    have "frames_inv ?s" "goal_of (as_thread ?s) = Some goal" "ct_shutting_down (as_node ?s)"
      "\<not> bad_compatibility (ct_parameters (as_node ?s))" "doubles_ok (ct_parameters (as_node ?s))"
      "goal_ok (ct_parameters (as_node ?s)) goal"
      using inv(2) Some ok assms(4,5) by (simp_all add: frames_inv_def goals_inv_def pending_goals_def)
    from pending_shutting [OF this(2,3,1,4-6)] obtain n q where
      e: "thread_ends n ?s goal q" "stopped_since (as_node ?s) (snd q)"
      "\<forall>f. as_thread s = Waiting f \<longrightarrow> stop_sent (as_node ?s) (snd q) (wf_command f)" by auto
    from run_out_steps [OF e(1) [unfolded thread_ends_def]] show ?thesis using inv(1) Some assms(6) e(2,3)
      by (simp add: controller_destroy_def join_action_thread_def answers_inv_def pending_goals_def stopped_since_def
          stop_sent_def release_def)
  next
    case None
    then consider "as_thread s = No_thread" | "as_thread s = Answered" | "as_thread s = Released" | "as_thread s = Ended"
      by (cases "as_thread s") auto
    then have "\<exists>b. run_out ?s = Some (?s\<lparr>as_node := (as_node ?s)\<lparr>ct_busy := b\<rparr>,
        as_thread := (if as_thread s = No_thread then No_thread else Ended)\<rparr>)"
    proof cases
      case 2
      then have "thread_steps 2 ?s = Some (?s\<lparr>as_node := release (as_node ?s), as_thread := Ended\<rparr>)"
        by (simp add: numeral_2_eq_2 thread_step_def)
      from run_out_steps [OF this] show ?thesis using 2 by (intro exI [of _ False]) (simp add: release_def)
    next
      case 3
      then have "thread_steps 1 ?s = Some (?s\<lparr>as_thread := Ended\<rparr>)" by (simp add: thread_step_def)
      from run_out_steps [OF this] show ?thesis using 3 by (intro exI [of _ "ct_busy (as_node s)"]) simp
    qed (intro exI [of _ "ct_busy (as_node s)"], simp add: run_out.simps)+
    then show ?thesis using inv(1) None assms(6)
      by (auto simp: controller_destroy_def join_action_thread_def answers_inv_def pending_goals_def stopped_since_def)
  qed
qed

section \<open>Operations without interruption\<close>

text \<open>Run without interruption, the steps of a goal are the action of \<^verbatim>\<open>Controller_Node\<close>, and those of a
  service are the service.\<close>

lemma uninterrupted_goal:
  assumes "exclusion_inv s" "as_thread s \<noteq> Released" "handle_goal (Move_goal goal) (as_node s) = (ACCEPT_AND_EXECUTE, c1)"
    and "execute_move goal c1 = Some (r, c')"
  shows "\<exists>n s'. serve_run ([Goal_request (Move_goal goal), Goal_accepted] @ replicate n Thread_step) s = Some s' \<and> as_node s' = c'"
proof -
  let ?s = "s\<lparr>as_node := c1, as_accepted := Some (Move_goal goal), as_goals := as_goals s @ [Move_goal goal]\<rparr>"
  let ?t = "?s\<lparr>as_accepted := None, as_thread := Started (Move_goal goal)\<rparr>"
  have 1: "serve (Goal_request (Move_goal goal)) s = Some ?s" using assms(3) by simp
  from accepted_starts(1) [OF serve_exclusion_inv(1) [OF assms(1) 1], of "Move_goal goal"] assms(2)
  have 2: "serve Goal_accepted ?s = Some ?t" by simp
  obtain outcome result c2 where "move_guarded goal c1 = Some ((outcome, result), c2)" "c' = release c2"
    using assms(4) by (auto simp: execute_move_def guarded_def)
  then have "execute_goal (Move_goal goal) (as_node ?t) = Some (Move_answer outcome result, c2)" "c' = release c2" by simp_all
  with started_ends [of ?t "Move_goal goal"] obtain n where "thread_ends n ?t (Move_goal goal) (Move_answer outcome result, c2)" by auto
  then have "\<exists>s'. serve_run ([Goal_request (Move_goal goal), Goal_accepted] @ replicate n Thread_step) s = Some s' \<and> as_node s' = c'"
    using \<open>c' = release c2\<close> by (simp only: run_steps_append run_steps.simps 1 2 option.case thread_ends_def) simp
  then show ?thesis ..
qed

lemma uninterrupted_service:
  assumes "\<not> ct_busy (as_node s)"
  shows "map_option as_node (serve_run [Service_called Activate_service, Service_runs, Service_leaves] s) =
    map_option snd (activate (as_node s))"
  using assms by (cases "activate_guarded ((as_node s)\<lparr>ct_busy := True\<rparr>)")
    (auto simp: activate_def exclusive_def guarded_def begin_operation_def)

section \<open>Concrete runs\<close>

abbreviation "demo_server \<equiv> fresh_server demo_ready_controller"

abbreviation demo_start :: "server_event list" where
  "demo_start \<equiv> [Goal_request (Move_goal demo_goal), Goal_accepted]"

lemma demo_goal_accepted: "handle_move_goal demo_goal demo_ready_controller = (ACCEPT_AND_EXECUTE, demo_ready_controller\<lparr>ct_busy := True\<rparr>)"
  by (simp add: handle_move_goal_def demo_goal_def MODE_SCISSOR_def)

lemma demo_started:
  "serve_run demo_start demo_server = Some (demo_server\<lparr>as_node := demo_ready_controller\<lparr>ct_busy := True\<rparr>,
     as_thread := Started (Move_goal demo_goal), as_goals := [Move_goal demo_goal]\<rparr>)"
  by (simp add: demo_goal_accepted fresh_server_def handle_move_accepted_def join_action_thread_def)

text \<open>A move under way: its command is published and the thread is in the wait.\<close>

lemma demo_waits:
  "\<exists>s f. serve_run (demo_start @ [Thread_step]) demo_server = Some s \<and> as_thread s = Waiting f \<and> as_accepted s = None \<and>
     as_goals s = [Move_goal demo_goal] \<and> wf_command f = move_command demo_goal"
proof -
  let ?c = "demo_ready_controller\<lparr>ct_busy := True\<rparr>"
  obtain d where "move_timeout demo_goal (snd (publish_command (move_command demo_goal) ?c)) = Some d" using move_timeout_defined by blast
  then obtain f c where "begin_goal (Move_goal demo_goal) ?c = Some (Inr f, c)" "wf_command f = move_command demo_goal"
    by (simp add: current_status_def steady_now_def same_clock publish_command_def Let_def)
  then show ?thesis unfolding run_steps_append demo_started by (simp add: thread_step_def fresh_server_def)
qed

text \<open>A move that ends, up to the moment its result has been sent.\<close>

lemma demo_served:
  "\<exists>n s r. serve_run (demo_start @ replicate n Thread_step) demo_server = Some s \<and>
     as_results s = [(Move_goal demo_goal, Move_answer Succeeded r)] \<and> pending_goals s = [] \<and>
     as_thread s = Answered \<and> ct_busy (as_node s)"
proof -
  let ?c = "demo_ready_controller\<lparr>ct_busy := True\<rparr>"
  let ?s = "demo_server\<lparr>as_node := ?c, as_thread := Started (Move_goal demo_goal), as_goals := [Move_goal demo_goal]\<rparr>"
  obtain r c where "execute_move demo_goal ?c = Some ((Succeeded, r), c)" using demo_move [OF disjI2 [OF refl]] by blast
  then obtain c1 where m: "move_guarded demo_goal ?c = Some ((Succeeded, r), c1)"
    by (auto simp: execute_move_def guarded_def)
  then have b: "ct_busy c1" using move_guarded_kept [OF m] by (simp add: kept_def)
  have "execute_goal (Move_goal demo_goal) (as_node ?s) = Some (Move_answer Succeeded r, c1)" using m by simp
  from started_answers [OF _ this] obtain n where
    "thread_steps n ?s = Some (send_answer (Move_goal demo_goal) (Move_answer Succeeded r, c1) ?s)" by (auto simp: thread_answers_def)
  then have "serve_run (demo_start @ replicate n Thread_step) demo_server =
      Some (send_answer (Move_goal demo_goal) (Move_answer Succeeded r, c1) ?s)"
    unfolding run_steps_append demo_started by simp
  then show ?thesis using b
    by (intro exI conjI) (assumption, simp_all add: send_answer_def pending_goals_def fresh_server_def)
qed

text \<open>The result is sent before the guard releases the node: a client that sends its next goal when it
  gets the result can be rejected because of the operation that has just succeeded.\<close>

theorem next_goal_can_be_rejected:
  "\<exists>n s r. serve_run (demo_start @ replicate n Thread_step) demo_server = Some s \<and>
     as_results s = [(Move_goal demo_goal, Move_answer Succeeded r)] \<and> pending_goals s = [] \<and>
     fst (handle_goal (Move_goal demo_goal) (as_node s)) = REJECT"
proof -
  obtain n s r where s: "serve_run (demo_start @ replicate n Thread_step) demo_server = Some s"
    "as_results s = [(Move_goal demo_goal, Move_answer Succeeded r)]" "pending_goals s = []" "ct_busy (as_node s)"
    using demo_served by blast
  then have "fst (handle_goal (Move_goal demo_goal) (as_node s)) = REJECT" by (simp add: handle_move_goal_def)
  then show ?thesis using s(1-3) by blast
qed

theorem one_operation_at_a_time_witness:
  "\<exists>s. serve_run [Goal_request (Move_goal demo_goal)] demo_server = Some s \<and> holders s = [By_goal] \<and>
     serve Goal_accepted s \<noteq> None"
proof -
  let ?es = "[Goal_request (Move_goal demo_goal)]"
  obtain s where s: "serve_run ?es demo_server = Some s" "as_accepted s \<noteq> None" "holders s = [By_goal]" "as_thread s = No_thread"
    by (simp add: demo_goal_accepted fresh_server_def holders_def)
  then show ?thesis using one_operation_at_a_time [OF s(1)] by auto
qed

theorem accepted_goals_are_answered_witness:
  "\<exists>n s s'. serve_run [Goal_request (Gripper_goal (Fin 1) (Fin 0))]
       (fresh_server (demo_controller (siterate (\<lambda>t. t + 1) 0))) = Some s \<and>
     serve_run (Goal_accepted # replicate n Thread_step) s = Some s' \<and>
     map fst (as_results s') = [Gripper_goal (Fin 1) (Fin 0)]"
proof -
  let ?c = "demo_controller (siterate (\<lambda>t. t + 1) 0)" and ?g = "Gripper_goal (Fin 1) (Fin 0)"
  have a: "handle_gripper_command_goal (Fin 1) (Fin 0) ?c = (ACCEPT_AND_EXECUTE, ?c\<lparr>ct_busy := True\<rparr>)"
    by (simp add: handle_gripper_command_goal_def demo_controller_def demo_parameters_def isfinite_def Let_def)
  obtain s where s: "serve_run [Goal_request ?g] (fresh_server ?c) = Some s" "as_accepted s = Some ?g" "as_thread s = No_thread"
    "as_node s = ?c\<lparr>ct_busy := True\<rparr>" "as_goals s = [?g]" by (simp add: a fresh_server_def)
  have c: "\<not> ct_busy ?c" "ct_parameters ?c = demo_parameters" by (simp_all add: demo_controller_def)
  have "steady_runs (as_node s)" using steady_runs_kept [OF siterate_steady kept_flags(1)] s(4) by simp
  from accepted_goals_are_answered [OF s(1) c(1) _ _ _ this] c(2) demo_compatible s
  obtain n s' where "serve_run ([Goal_accepted] @ replicate n Thread_step) s = Some s'" "as_goals s = map fst (as_results s')"
    by (auto simp: pending_goals_def)
  then show ?thesis using s(1,5) by (metis append_Cons append_Nil)
qed

theorem controller_destructor_returns_witness:
  "\<exists>s f s'. serve_run (demo_start @ [Thread_step]) demo_server = Some s \<and> as_thread s = Waiting f \<and>
     controller_destroy s = Some s' \<and> map fst (as_results s') = [Move_goal demo_goal] \<and>
     \<not> c_go_to (last (ct_published (as_node s')))"
proof -
  let ?es = "demo_start @ [Thread_step]"
  obtain s f where s: "serve_run ?es demo_server = Some s" "as_thread s = Waiting f" "as_accepted s = None"
    "as_goals s = [Move_goal demo_goal]" using demo_waits by blast
  have p: "\<not> ct_busy demo_ready_controller" "ct_parameters demo_ready_controller = demo_parameters"
    by (simp_all add: demo_ready_controller_def demo_active_def demo_controller_def release_def publish_command_def Let_def
        receive_status_def steady_now_def)
  have "\<forall>e \<in> set ?es. request_ok e" by simp
  from controller_destructor_returns [OF s(1) p(1) this _ _ s(3)] p(2) demo_compatible(1,2)
  obtain s' cs i where "controller_destroy s = Some s'" "as_goals s = map fst (as_results s')"
    "ct_published (as_node s') = ct_published (as_node s) @ cs @ [(wf_command f)\<lparr>c_go_to := False, c_command_id := i\<rparr>]"
    using s(2) by auto
  moreover from this have "\<not> c_go_to (last (ct_published (as_node s')))" by simp
  ultimately show ?thesis using s(1,2,4) by metis
qed

end
