(* ===== verification/Driver_Shutdown.thy ===== *)
theory Driver_Shutdown
  imports Driver_Node
begin

text \<open>
  The end of the 3F driver node: \<^verbatim>\<open>~Robotiq3FDriverNode\<close> of \<^verbatim>\<open>robotiq_3f_driver/src/driver_node.cpp\<close>, which
  asks the worker to stop and joins it, and \<^verbatim>\<open>sleep_interruptibly\<close>, from which it has to wake it up. In
  \<^verbatim>\<open>Driver_Node\<close> a sleep is one step that ends with a look at the flag; here it is taken apart into the
  accesses of the two threads to the flag and the condition variable.
\<close>

section \<open>The destructor\<close>

text \<open>The join waits until the worker returns; seven steps are enough for that (\<open>worker_stops\<close>).\<close>

definition driver_node_destroy :: "driver_node \<Rightarrow> driver_node option" where
  "driver_node_destroy n =
     (case worker_run 7 (n\<lparr>dn_stop_requested := True\<rparr>) of
        None \<Rightarrow> None
      | Some n' \<Rightarrow> if dn_pc n' = At_returned then Some n' else None)"

definition returned_inv :: "driver_node \<Rightarrow> bool" where
  "returned_inv n \<longleftrightarrow> (dn_pc n = At_returned \<longrightarrow> \<not> is_open (dn_client n) \<and> \<not> dn_ready_for_commands n) \<and>
     (needs_closed (dn_pc n) \<longrightarrow> \<not> dn_ready_for_commands n)"

lemma worker_step_returned_inv:
  assumes I: "returned_inv n" "link_inv n" "ready_inv n" and w: "worker_step n = Some n'"
  shows "returned_inv n'"
  using w
proof (cases rule: worker_step_cases)
  case connect
  then show ?thesis by (auto simp: returned_inv_def node_defs split: node_splits)
next
  case (wrt c)
  then show ?thesis by (auto simp: returned_inv_def node_defs split: node_splits)
next
  case rd
  then show ?thesis by (auto simp: returned_inv_def node_defs split: node_splits)
qed (use I in \<open>auto simp: returned_inv_def link_inv_def ready_inv_def node_defs\<close>)

lemma handle_returned_inv:
  assumes "returned_inv n \<and> link_inv n \<and> last_id_inv n \<and> ready_inv n \<and> status_inv n" and "handle e n = Some n'"
  shows "returned_inv n' \<and> link_inv n' \<and> last_id_inv n' \<and> ready_inv n' \<and> status_inv n'"
proof -
  have "returned_inv n'"
  proof (cases "e = Worker")
    case True
    then show ?thesis using assms worker_step_returned_inv by auto
  next
    case False
    then have "dn_pc n' = dn_pc n" "dn_client n' = dn_client n" "dn_ready_for_commands n' = dn_ready_for_commands n"
      using assms(2) by (cases e; auto simp: receive_check_def receive_store_def split: if_splits option.splits)+
    then show ?thesis using assms(1) by (simp add: returned_inv_def)
  qed
  then show ?thesis using handle_node_inv [OF _ assms(2)] assms(1) by blast
qed

lemma reachable_returned_inv:
  assumes "Robotiq3FDriverNode p os stamps = Some (Inr n0)" "reachable n0 n"
  shows "returned_inv n"
proof -
  note c = constructed [OF assms(1)]
  have "returned_inv n0 \<and> link_inv n0 \<and> last_id_inv n0 \<and> ready_inv n0 \<and> status_inv n0"
    using c reachable_node_inv [OF assms(1) reachable.start] by (simp add: returned_inv_def)
  from reachable_invariant [of n0 n "\<lambda>n. returned_inv n \<and> link_inv n \<and> last_id_inv n \<and> ready_inv n \<and> status_inv n", OF assms(2) this]
  show ?thesis using handle_returned_inv by blast
qed

lemma reachable_worker: "reachable n0 n \<Longrightarrow> worker_run k n = Some n' \<Longrightarrow> reachable n0 n'"
proof (induction k arbitrary: n)
  case (Suc k)
  then obtain n1 where "worker_step n = Some n1" "worker_run k n1 = Some n'" by (auto split: option.splits)
  then show ?case using Suc.IH [of n1] reachable.step [OF Suc.prems(1), of Worker n1] by simp
qed simp

lemma worker_run_returned: "dn_pc n = At_returned \<Longrightarrow> worker_run k n = Some n"
  by (induction k) (simp_all add: worker_step_def)

lemma worker_run_add: "worker_run (j + k) n = (case worker_run j n of None \<Rightarrow> None | Some n1 \<Rightarrow> worker_run k n1)"
  by (induction j arbitrary: n) (auto split: option.split)

text \<open>Once it has to stop, the worker writes at most one more command.\<close>

definition may_write :: "worker_pc \<Rightarrow> nat" where
  "may_write pc = (if 5 \<le> rank pc then 1 else 0)"

lemma worker_step_writes:
  assumes "worker_step n = Some n'" "dn_stop_requested n"
  shows "length (dn_written n') + may_write (dn_pc n') \<le> length (dn_written n) + may_write (dn_pc n) \<and> dn_stop_requested n'"
  using assms
  by (cases "dn_pc n") (auto simp: worker_step_def may_write_def node_defs split: node_splits)

lemma worker_run_writes:
  "worker_run k n = Some n' \<Longrightarrow> dn_stop_requested n \<Longrightarrow>
   length (dn_written n') + may_write (dn_pc n') \<le> length (dn_written n) + may_write (dn_pc n)"
proof (induction k arbitrary: n)
  case (Suc k)
  then obtain n1 where n1: "worker_step n = Some n1" "worker_run k n1 = Some n'" by (auto split: option.splits)
  show ?case using worker_step_writes [OF n1(1) Suc.prems(2)] Suc.IH [OF n1(2)] by linarith
qed simp

text \<open>C9. The destructor returns, on a clock that passes every instant, whatever the gripper and the network
  do: the worker is left at its end, with the connection closed and no command accepted any more, and it
  wrote at most one more command on the way.\<close>

theorem driver_destructor_returns:
  assumes "Robotiq3FDriverNode p os stamps = Some (Inr n0)" "reachable n0 n" "clock_runs (dn_client n)"
  shows "\<exists>n'. driver_node_destroy n = Some n' \<and> dn_pc n' = At_returned \<and> \<not> is_open (dn_client n') \<and>
    \<not> dn_ready_for_commands n' \<and> length (dn_written n') \<le> length (dn_written n) + 1"
proof -
  let ?n = "n\<lparr>dn_stop_requested := True\<rparr>"
  have r: "rank (dn_pc ?n) \<le> 7" by (cases "dn_pc n") auto
  have "dn_stop_requested ?n" "clock_runs (dn_client ?n)" using assms(3) by simp_all
  from worker_returns [OF this] obtain k n' where k: "k \<le> rank (dn_pc ?n)" "worker_run k ?n = Some n'" "dn_pc n' = At_returned"
    by blast
  have w: "worker_run 7 ?n = Some n'"
    using worker_run_add [of k "7 - k" ?n] k(2) worker_run_returned [OF k(3), of "7 - k"] le_trans [OF k(1) r] by simp
  have "reachable n0 ?n" using reachable.step [OF assms(2), of Stop] by simp
  then have "returned_inv n'" using reachable_returned_inv [OF assms(1)] reachable_worker w by blast
  moreover have "length (dn_written n') \<le> length (dn_written n) + 1"
    using worker_run_writes [OF w] by (simp add: may_write_def split: if_splits)
  ultimately show ?thesis using w k(3) by (simp add: driver_node_destroy_def returned_inv_def)
qed

section \<open>The interruptible sleep\<close>

text \<open>
  \<^verbatim>\<open>sleep_condition_.wait_for(lock, duration, predicate)\<close> tests the predicate, blocks, and tests it again
  whenever it is woken up; when the time is over it returns. The destructor stores the flag and then
  notifies, without the mutex, so that both can happen between a test and the block.
\<close>

datatype sleep_pc = Testing | Blocking | Blocked | Slept bool  \<comment> \<open>with the result of the call\<close>

datatype stopper_pc = Idle | Stored | Notified

record sleeper =
  sl_pc :: sleep_pc
  sl_stop_requested :: bool
  sl_stopper :: stopper_pc

datatype sleep_event = Test | Block | Wake_up | Time_over | Store_stop | Notify_all

fun sleep_step :: "sleep_event \<Rightarrow> sleeper \<Rightarrow> sleeper option" where
  "sleep_step Test s =
     (if sl_pc s = Testing then Some (s\<lparr>sl_pc := (if sl_stop_requested s then Slept False else Blocking)\<rparr>) else None)"
| "sleep_step Block s = (if sl_pc s = Blocking then Some (s\<lparr>sl_pc := Blocked\<rparr>) else None)"
| "sleep_step Wake_up s = (if sl_pc s = Blocked then Some (s\<lparr>sl_pc := Testing\<rparr>) else None)"
| "sleep_step Time_over s =
     (if sl_pc s = Blocked then Some (s\<lparr>sl_pc := Slept (\<not> sl_stop_requested s)\<rparr>) else None)"
| "sleep_step Store_stop s =
     (if sl_stopper s = Idle then Some (s\<lparr>sl_stop_requested := True, sl_stopper := Stored\<rparr>) else None)"
| "sleep_step Notify_all s =
     (if sl_stopper s = Stored
      then Some (s\<lparr>sl_stopper := Notified, sl_pc := (if sl_pc s = Blocked then Testing else sl_pc s)\<rparr>) else None)"

abbreviation sleep_run :: "sleep_event list \<Rightarrow> sleeper \<Rightarrow> sleeper option" where
  "sleep_run \<equiv> run_steps sleep_step"

definition begin_sleep :: sleeper where
  "begin_sleep = \<lparr>sl_pc = Testing, sl_stop_requested = False, sl_stopper = Idle\<rparr>"

text \<open>A sleep ends with a look at the flag, as \<^verbatim>\<open>Driver_Node\<close> has it.\<close>

lemma sleep_result: "sleep_step e s = Some s' \<Longrightarrow> sl_pc s' = Slept b \<Longrightarrow> sl_pc s = Slept b \<or> b = (\<not> sl_stop_requested s')"
  by (cases e) (auto split: if_splits)

lemma lost_wake_up:
  assumes "sleep_run es s = Some s'" "sl_pc s = Blocked \<and> sl_stopper s = Notified \<and> sl_stop_requested s" "Wake_up \<notin> set es" "Time_over \<notin> set es"
  shows "sl_pc s' = Blocked \<and> sl_stopper s' = Notified \<and> sl_stop_requested s'"
proof (rule run_steps_invariant [where I = "\<lambda>s. sl_pc s = Blocked \<and> sl_stopper s = Notified \<and> sl_stop_requested s", OF assms(1,2)])
  fix e s s' assume "e \<in> set es" "sl_pc s = Blocked \<and> sl_stopper s = Notified \<and> sl_stop_requested s" "sleep_step e s = Some s'"
  moreover from this have "e \<noteq> Wake_up" "e \<noteq> Time_over" using assms(3,4) by blast+
  ultimately show "sl_pc s' = Blocked \<and> sl_stopper s' = Notified \<and> sl_stop_requested s'"
    by (cases e rule: sleep_event.exhaust) (simp_all split: if_splits)
qed

text \<open>The wake-up can be lost: there is an order of the accesses in which the destructor has stored the
  flag and notified, and whatever happens afterwards the worker stays blocked until its time is over or
  it wakes up for no reason. A worker that was blocked when the destructor notified ends its sleep at once.\<close>

theorem stop_notification_can_be_lost:
  assumes "sleep_run es begin_sleep = Some s" "take 4 es = [Test, Store_stop, Notify_all, Block]"
    "Wake_up \<notin> set es" "Time_over \<notin> set es"
  shows "sl_stop_requested s \<and> sl_pc s = Blocked \<and>
    (\<exists>s. sleep_run [Test, Block, Store_stop, Notify_all, Test] begin_sleep = Some s \<and> sl_pc s = Slept False)"
proof -
  have es: "es = [Test, Store_stop, Notify_all, Block] @ drop 4 es" using append_take_drop_id [of 4 es] assms(2) by simp
  obtain s0 where s0: "sleep_run [Test, Store_stop, Notify_all, Block] begin_sleep = Some s0"
    "sl_pc s0 = Blocked \<and> sl_stopper s0 = Notified \<and> sl_stop_requested s0" by (atomize_elim, simp add: begin_sleep_def)
  have "sleep_run (drop 4 es) s0 = Some s" using assms(1) s0(1) by (subst (asm) es) (simp only: run_steps_append s0(1) option.case)
  moreover have "Wake_up \<notin> set (drop 4 es)" "Time_over \<notin> set (drop 4 es)"
    using assms(3,4) set_drop_subset [of 4 es] by blast+
  moreover have "\<exists>s. sleep_run [Test, Block, Store_stop, Notify_all, Test] begin_sleep = Some s \<and> sl_pc s = Slept False"
    by (simp add: begin_sleep_def)
  ultimately show ?thesis using lost_wake_up [of "drop 4 es" s0 s] s0(2) by blast
qed

section \<open>A concrete run\<close>

theorem driver_destructor_returns_witness:
  "\<exists>n n' :: driver_node. driver_node_destroy n = Some n' \<and> dn_pc n' = At_returned \<and> \<not> is_open (dn_client n')"
proof -
  let ?c = "(demo_client 0 None [] [] (sconst Get_again))\<lparr>mc_clock := siterate (\<lambda>t. t + 1) 0\<rparr>"
  let ?n = "(demo_node (sconst Get_again))\<lparr>dn_client := ?c\<rparr>"
  have "Robotiq3FDriverNode demo_parameters ?c (sconst 0) = Some (Inr ?n)"
    by (simp add: Robotiq3FDriverNode_def demo_parameters_def demo_node_def demo_poll_period dle_def deq_def
        ModbusTcpClient_def demo_client_def ready_client_def)
  from driver_destructor_returns [OF this reachable.start] show ?thesis using siterate_clock_runs by fastforce
qed

theorem stop_notification_can_be_lost_witness:
  "\<exists>s. sleep_run [Test, Store_stop, Notify_all, Block] begin_sleep = Some s \<and> sl_pc s = Blocked"
proof -
  obtain s where s: "sleep_run [Test, Store_stop, Notify_all, Block] begin_sleep = Some s"
    by (atomize_elim, simp add: begin_sleep_def)
  show ?thesis using stop_notification_can_be_lost [OF s] s by simp
qed

end
