(* ===== verification/Rq_Crc.thy ===== *)
theory Rq_Crc
  imports Prelude
begin

text \<open>
  The bitwise CRC-16 of the force/torque sensor driver, \<^verbatim>\<open>rq_com_compute_crc\<close> of
  \<^verbatim>\<open>robotiq_ft_sensor_hardware/src/rq_sensor_com.cpp\<close>, and the contract of a checksum that is
  computed byte by byte. The locale states what a step of such a checksum must satisfy and
  proves once that a corruption confined to two neighbouring bytes changes the checksum.
\<close>

section \<open>Checksums computed byte by byte\<close>

locale byte_checksum =
  fixes step :: "'s \<Rightarrow> u8 \<Rightarrow> 's"
    and valid :: "'s \<Rightarrow> bool"
  assumes step_valid: "valid s \<Longrightarrow> valid (step s b)"
    and step_inj: "valid s \<Longrightarrow> valid t \<Longrightarrow> step s b = step t b \<Longrightarrow> s = t"
    and step_inj2: "valid s \<Longrightarrow> step (step s b) c = step (step s b') c' \<Longrightarrow> b = b' \<and> c = c'"
begin

lemma foldl_valid: "valid s \<Longrightarrow> valid (foldl step s xs)"
  by (induction xs arbitrary: s) (auto simp: step_valid)

lemma foldl_inj: "valid s \<Longrightarrow> valid t \<Longrightarrow> foldl step s xs = foldl step t xs \<Longrightarrow> s = t"
proof (induction xs arbitrary: s t)
  case Nil
  then show ?case by simp
next
  case (Cons x xs)
  then have "step s x = step t x" by (auto simp: step_valid)
  with Cons.prems show ?case by (auto intro: step_inj)
qed

lemma detects_two_bytes:
  assumes "valid s" and "foldl step s (xs @ [b, c] @ ys) = foldl step s (xs @ [b', c'] @ ys)"
  shows "b = b' \<and> c = c'"
proof -
  let ?p = "foldl step s xs"
  have v: "valid ?p" using assms(1) by (rule foldl_valid)
  from assms(2) have "foldl step (step (step ?p b) c) ys = foldl step (step (step ?p b') c') ys"
    by simp
  then have "step (step ?p b) c = step (step ?p b') c'"
    by (rule foldl_inj [rotated 2]) (auto intro: step_valid v)
  with v show ?thesis by (rule step_inj2)
qed

lemma detects_byte:
  assumes "valid s" and "foldl step s (xs @ b # ys) = foldl step s (xs @ b' # ys)"
  shows "b = b'"
proof (cases ys)
  case Nil
  let ?p = "foldl step s xs"
  have "step (step ?p b) 0 = step (step ?p b') 0" using assms(2) Nil by simp
  then show ?thesis using step_inj2 foldl_valid assms(1) by blast
next
  case (Cons c zs)
  then show ?thesis using detects_two_bytes [OF assms(1), of xs b c zs b' c] assms(2) by simp
qed

end

section \<open>The bitwise CRC\<close>

definition rq_crc_bit :: "u16 \<Rightarrow> u16" where
  "rq_crc_bit CRC_calc =
     (if CRC_calc AND 0x0001 \<noteq> 0 then drop_bit 1 CRC_calc XOR 0xA001 else drop_bit 1 CRC_calc)"

definition rq_crc_byte :: "u16 \<Rightarrow> u8 \<Rightarrow> u16" where
  "rq_crc_byte CRC_calc b = (rq_crc_bit ^^ 8) (CRC_calc XOR ucast b)"

definition rq_com_compute_crc :: "u8 list option \<Rightarrow> int \<Rightarrow> u16" where
  "rq_com_compute_crc adr len =
     (case adr of None \<Rightarrow> 0 | Some buf \<Rightarrow> foldl rq_crc_byte 0xFFFF (take (nat len) buf))"

abbreviation crc_of :: "u8 list \<Rightarrow> u16" where
  "crc_of bs \<equiv> foldl rq_crc_byte 0xFFFF bs"

lemma rq_com_compute_crc_Some [simp]:
  "rq_com_compute_crc (Some buf) len = crc_of (take (nat len) buf)"
  by (simp add: rq_com_compute_crc_def)

lemma and_one_iff: "((x :: u16) AND 0x0001 \<noteq> 0) = bit x 0"
  by (simp add: and_one_eq bit_0 even_iff_mod_2_eq_zero)

lemma rq_crc_bit_alt: "rq_crc_bit x = drop_bit 1 x XOR (if bit x 0 then 0xA001 else 0)"
  unfolding rq_crc_bit_def and_one_iff by simp

lemma rq_crc_bit_0 [simp]: "rq_crc_bit 0 = 0"
  by (simp add: rq_crc_bit_alt)

lemma bit_A001: "bit (0xA001 :: u16) n = (n = 0 \<or> n = 13 \<or> n = 15)"
proof (cases "n < 16")
  case True
  then have "n \<in> set [0..<16]" by simp
  then show ?thesis by (simp add: upt_rec) (auto simp: bit_simps)
next
  case False
  then show ?thesis by auto
qed

lemma rq_crc_bit_xor: "rq_crc_bit (x XOR y) = rq_crc_bit x XOR rq_crc_bit y"
  unfolding rq_crc_bit_alt by (rule bit_eqI) (auto simp: bit_simps)

lemma rq_crc_bits_xor: "(rq_crc_bit ^^ n) (x XOR y) = (rq_crc_bit ^^ n) x XOR (rq_crc_bit ^^ n) y"
  by (induction n) (simp_all add: rq_crc_bit_xor)

lemma rq_crc_bit_inj: "rq_crc_bit x = rq_crc_bit y \<Longrightarrow> x = y"
proof -
  assume eq: "rq_crc_bit x = rq_crc_bit y"
  have top: "bit (rq_crc_bit z) 15 = bit z 0" for z
    by (auto simp: rq_crc_bit_alt bit_simps bit_A001)
  have low: "bit z 0 = bit (rq_crc_bit z) 15" for z using top by simp
  have hi: "bit z (Suc n) = (bit (rq_crc_bit z) n \<noteq> (bit z 0 \<and> bit (0xA001 :: u16) n))" for z n
    by (auto simp: rq_crc_bit_alt bit_simps)
  show "x = y"
  proof (rule bit_eqI)
    fix n
    show "bit x n = bit y n"
      by (cases n) (simp_all add: low hi eq)
  qed
qed

lemma rq_crc_bits_inj: "(rq_crc_bit ^^ n) x = (rq_crc_bit ^^ n) y \<Longrightarrow> x = y"
  by (induction n arbitrary: x y) (auto dest: rq_crc_bit_inj)

lemma rq_crc_bit_shift: "\<not> bit x 0 \<Longrightarrow> rq_crc_bit x = drop_bit 1 x"
  by (simp add: rq_crc_bit_alt)

lemma rq_crc_bits_drop: "(\<And>k. k < n \<Longrightarrow> \<not> bit x k) \<Longrightarrow> (rq_crc_bit ^^ n) x = drop_bit n x"
proof (induction n)
  case 0
  then show ?case by simp
next
  case (Suc n)
  then have IH: "(rq_crc_bit ^^ n) x = drop_bit n x" by simp
  have "\<not> bit (drop_bit n x) 0" using Suc.prems [of n] by (simp add: bit_simps)
  then show ?case using IH by (simp add: rq_crc_bit_shift)
qed

lemma rq_crc_bits8_push: "(rq_crc_bit ^^ 8) (push_bit 8 (ucast (c :: u8))) = ucast c"
proof -
  have "(rq_crc_bit ^^ 8) (push_bit 8 (ucast c)) = drop_bit 8 (push_bit 8 (ucast c))"
    by (rule rq_crc_bits_drop) (simp add: bit_simps)
  also have "\<dots> = ucast c" by (rule bit_eqI) (auto simp: bit_simps dest: bit_u8_less)
  finally show ?thesis .
qed

lemma rq_crc_bits16: "(rq_crc_bit ^^ 16) x = (rq_crc_bit ^^ 8) ((rq_crc_bit ^^ 8) x)"
  using funpow_add [of 8 8 rq_crc_bit] by (simp add: fun_eq_iff)

lemma rq_crc_two_bytes:
  "rq_crc_byte (rq_crc_byte s b) c = (rq_crc_bit ^^ 16) (s XOR (ucast b XOR push_bit 8 (ucast c)))"
  by (simp only: rq_crc_byte_def rq_crc_bits16 rq_crc_bits_xor rq_crc_bits8_push xor.assoc)

lemma u16_of_two_bytes_inj:
  assumes "(ucast b XOR push_bit 8 (ucast c) :: u16) = ucast b' XOR push_bit 8 (ucast c')"
  shows "b = (b' :: u8) \<and> c = (c' :: u8)"
proof
  have bits: "bit (ucast b XOR push_bit 8 (ucast c) :: u16) n
    = bit (ucast b' XOR push_bit 8 (ucast c') :: u16) n" for n using assms by simp
  show "b = b'"
  proof (rule bit_word_eqI)
    fix n assume "n < LENGTH(8)"
    then show "bit b n = bit b' n" using bits [of n] by (simp add: bit_simps)
  qed
  show "c = c'"
  proof (rule bit_word_eqI)
    fix n assume "n < LENGTH(8)"
    then show "bit c n = bit c' n" using bits [of "n + 8"] by (simp add: bit_simps)
  qed
qed

interpretation rq_crc: byte_checksum rq_crc_byte "\<lambda>_. True"
proof (unfold_locales, goal_cases)
  case (2 s t b)
  then have "s XOR ucast b = t XOR ucast b"
    unfolding rq_crc_byte_def by (blast dest: rq_crc_bits_inj)
  then show ?case by (rule xor_right_cancel)
next
  case (3 s b c b' c')
  then have "s XOR (ucast b XOR push_bit 8 (ucast c)) = s XOR (ucast b' XOR push_bit 8 (ucast c'))"
    unfolding rq_crc_two_bytes by (blast dest: rq_crc_bits_inj)
  then show ?case by (blast dest: xor_left_cancel u16_of_two_bytes_inj)
qed (rule TrueI)

end
