(* ===== verification/Rq_Sensor_Com.thy ===== *)
theory Rq_Sensor_Com
  imports Rq_Crc Fp
begin

text \<open>
  The stream decoder of the force/torque sensor driver, from
  \<^verbatim>\<open>robotiq_ft_sensor_hardware/src/rq_sensor_com.cpp\<close>: the private variables of the file (the static
  variables of its functions among them), the access to the serial port, \<^verbatim>\<open>rq_com_listen_stream\<close> and
  the accessors of the decoded data. The port is a script: every read takes the next entry, \<open>None\<close>
  for -1 and otherwise the bytes that were read; the frames written are logged. Buffers are lists of
  their C size. The code is the one compiled under Unix.
\<close>

section \<open>Single precision\<close>

text \<open>Rounding to binary32. The values here are far below its largest number.\<close>

definition ulp_expo32 :: "rat \<Rightarrow> int" where
  "ulp_expo32 x = max (expo \<bar>x\<bar> - 23) (- 149)"

definition rnd32 :: "rat \<Rightarrow> rat" where
  "rnd32 x = (if x = 0 then 0 else of_int (round_even (x / 2 powi ulp_expo32 x)) * 2 powi ulp_expo32 x)"

section \<open>State\<close>

definition MP_BUFF_SIZE :: nat where "MP_BUFF_SIZE = 1024"
definition RQ_COM_TIMER_FOR_STREAM_DETECTION_MAX_VALUE :: int where
  "RQ_COM_TIMER_FOR_STREAM_DETECTION_MAX_VALUE = 20"
definition RQ_COM_TIMER_FOR_VALID_STREAM_MAX_VALUE :: int where
  "RQ_COM_TIMER_FOR_VALID_STREAM_MAX_VALUE = 40"

text \<open>The static variables of a function that waits for a reply.\<close>

record rq_reply =
  rp_buf :: "u8 list"
  rp_length :: int
  rp_old_length :: int
  rp_counter_no_new_data :: int

record termios =
  c_iflag :: u32
  c_cflag :: u32
  c_lflag :: u32
  c_vmin :: u8
  c_vtime :: u8
  c_ispeed :: nat
  c_ospeed :: nat

record rq_com =
  rq_received_data :: "rat list"
  rq_received_data_offset :: "rat list"
  rq_computed_crc :: u16
  rq_crc :: u16
  rq_str_serial_number :: string
  rq_str_production_year :: string
  rq_str_firmware_version :: string
  rq_msg_received :: u32
  rq_rcv_buff2 :: "u8 list"
  rq_rcv_len :: int
  rq_rcv_len2 :: nat
  rq_zero_force_flag :: int
  rq_sensor_watchdog :: int
  rq_stream_detected :: bool
  rq_valid_stream :: bool
  rq_new_message :: bool
  rq_timer_for_stream_detection :: int
  rq_timer_for_valid_stream :: int
  rq_jam_counter :: int
  rq_reply_03 :: rq_reply
  rq_reply_16 :: rq_reply
  rq_fd_connexion :: int
  rq_reads :: "u8 list option stream"
  rq_written :: "u8 list list"
  rq_closed :: "int list"

section \<open>The serial port\<close>

text \<open>\<^verbatim>\<open>read\<close> of at most \<open>n\<close> bytes: the result and the bytes.\<close>

definition rq_com_read_port :: "nat \<Rightarrow> rq_com \<Rightarrow> (int \<times> u8 list) \<times> rq_com" where
  "rq_com_read_port n c =
     ((case shd (rq_reads c) of None \<Rightarrow> (-1, []) | Some bs \<Rightarrow> (int (length (take n bs)), take n bs)),
      c\<lparr>rq_reads := stl (rq_reads c)\<rparr>)"

definition rq_com_write_port :: "u8 list \<Rightarrow> rq_com \<Rightarrow> rq_com" where
  "rq_com_write_port bs c = c\<lparr>rq_written := rq_written c @ [bs]\<rparr>"

section \<open>The stream\<close>

definition rq_com_do_zero_force_flag :: "rq_com \<Rightarrow> rq_com" where
  "rq_com_do_zero_force_flag c = c\<lparr>rq_zero_force_flag := 1\<rparr>"

definition rq_com_zero :: "rq_com \<Rightarrow> rq_com" where
  "rq_com_zero c =
     (if rq_zero_force_flag c = 1 then
        c\<lparr>rq_zero_force_flag := 0,
          rq_received_data_offset := map (\<lambda>i. rq_received_data c ! i) [0..<6]\<rparr>
      else c)"

definition rq_com_count_stream :: "rq_com \<Rightarrow> rq_com" where
  "rq_com_count_stream c =
     (if rq_timer_for_stream_detection c > RQ_COM_TIMER_FOR_STREAM_DETECTION_MAX_VALUE then
        c\<lparr>rq_timer_for_stream_detection := RQ_COM_TIMER_FOR_STREAM_DETECTION_MAX_VALUE,
          rq_stream_detected := False\<rparr>
      else c\<lparr>rq_timer_for_stream_detection := rq_timer_for_stream_detection c + 1\<rparr>)"

definition rq_com_count_valid :: "rq_com \<Rightarrow> rq_com" where
  "rq_com_count_valid c =
     (if rq_timer_for_valid_stream c > RQ_COM_TIMER_FOR_VALID_STREAM_MAX_VALUE then
        c\<lparr>rq_timer_for_valid_stream := RQ_COM_TIMER_FOR_VALID_STREAM_MAX_VALUE,
          rq_valid_stream := False\<rparr>
      else c\<lparr>rq_timer_for_valid_stream := rq_timer_for_valid_stream c + 1\<rparr>)"

text \<open>Copying the received bytes behind those kept in buffer 2; a full buffer starts over and drops
  the rest.\<close>

fun rq_com_store :: "u8 list \<Rightarrow> u8 list \<Rightarrow> nat \<Rightarrow> u8 list \<times> nat" where
  "rq_com_store [] buf n = (buf, n)"
| "rq_com_store (b # bs) buf n =
     (if n = MP_BUFF_SIZE then (buf, 0) else rq_com_store bs (buf[n := b]) (Suc n))"

text \<open>\<^verbatim>\<open>(INT_16)(lo + hi * 256)\<close>, and the CRC field of a message.\<close>

definition rq_int16 :: "u8 \<Rightarrow> u8 \<Rightarrow> int" where
  "rq_int16 lo hi = sint (ucast lo + ucast hi * 256 :: 16 word)"

definition rq_uint16 :: "u8 \<Rightarrow> u8 \<Rightarrow> u16" where
  "rq_uint16 lo hi = ucast lo + ucast hi * 256"

definition rq_effort :: "u8 list \<Rightarrow> nat \<Rightarrow> nat \<Rightarrow> rat" where
  "rq_effort buf i j =
     rnd32 (of_int (rq_int16 (buf ! (i + 2 + 2 * j)) (buf ! (i + 3 + 2 * j))) / (if j < 3 then 100 else 1000))"

text \<open>One pass of the search: the message that starts at \<open>i\<close>, unless one was found before. The pass
  carries \<^verbatim>\<open>last_byte\<close> and \<^verbatim>\<open>new_message\<close>.\<close>

definition rq_com_decode :: "nat \<Rightarrow> rq_com \<times> int \<times> bool \<Rightarrow> rq_com \<times> int \<times> bool" where
  "rq_com_decode i s =
     (case s of (c, last_byte, new_message) \<Rightarrow>
        let buf = rq_rcv_buff2 c in
        if buf ! i = 0x20 \<and> buf ! (i + 1) = 0x4E \<and> \<not> new_message then
          (let c1 = c\<lparr>rq_computed_crc := rq_com_compute_crc (Some (drop i buf)) 14,
                      rq_crc := rq_uint16 (buf ! (i + 14)) (buf ! (i + 15)),
                      rq_msg_received := rq_msg_received c + 1\<rparr> in
           if rq_computed_crc c1 = rq_crc c1 then
             (c1\<lparr>rq_received_data := map (rq_effort buf i) [0..<6], rq_valid_stream := True,
                 rq_new_message := True, rq_timer_for_valid_stream := 0, rq_sensor_watchdog := 1\<rparr>,
              int i + 15, True)
           else (c1, int i + 15, True))
        else s)"

text \<open>The search from the end of the buffer: \<open>n\<close> passes, at \<open>n - 1\<close> down to 0.\<close>

fun rq_com_search :: "nat \<Rightarrow> rq_com \<times> int \<times> bool \<Rightarrow> rq_com \<times> int \<times> bool" where
  "rq_com_search 0 s = s"
| "rq_com_search (Suc i) s = rq_com_search i (rq_com_decode i s)"

definition rq_com_shift :: "int \<Rightarrow> rq_com \<Rightarrow> rq_com" where
  "rq_com_shift last_byte c =
     (let n = nat (int (rq_rcv_len2 c) - last_byte - 1) in
      c\<lparr>rq_rcv_buff2 := fold (\<lambda>i buf. buf[i := buf ! (nat (last_byte + 1) + i)]) [0..<n] (rq_rcv_buff2 c),
        rq_rcv_len2 := n\<rparr>)"

definition rq_com_receive :: "rq_com \<Rightarrow> rq_com" where
  "rq_com_receive c =
     (case rq_com_read_port MP_BUFF_SIZE c of ((n, bs), c1) \<Rightarrow>
        let c2 = c1\<lparr>rq_rcv_len := n\<rparr>;
            c3 = (if n > 0 then c2\<lparr>rq_stream_detected := True, rq_timer_for_stream_detection := 0\<rparr> else c2) in
        case rq_com_store bs (rq_rcv_buff2 c3) (rq_rcv_len2 c3) of (buf, len2) \<Rightarrow>
          c3\<lparr>rq_rcv_buff2 := buf, rq_rcv_len2 := len2\<rparr>)"

definition rq_com_search_messages :: "rq_com \<Rightarrow> rq_com" where
  "rq_com_search_messages c =
     (if rq_rcv_len2 c \<ge> 16 \<and> rq_rcv_len c \<ge> 1 then
        (case rq_com_search (rq_rcv_len2 c - 15) (c, 0, False) of (c1, last_byte, _) \<Rightarrow>
           if last_byte > 0 then rq_com_shift last_byte c1 else c1)
      else c)"

definition rq_com_listen_stream :: "rq_com \<Rightarrow> rq_com" where
  "rq_com_listen_stream c =
     rq_com_search_messages (rq_com_receive (rq_com_count_valid (rq_com_count_stream (rq_com_zero c))))"

section \<open>Accessors\<close>

text \<open>\<^verbatim>\<open>strcpy\<close> of a character array.\<close>

definition c_string :: "string \<Rightarrow> string" where
  "c_string s = takeWhile (\<lambda>ch. ch \<noteq> CHR 0x00) s"

definition rq_com_get_str_serial_number :: "rq_com \<Rightarrow> string" where
  "rq_com_get_str_serial_number c = c_string (rq_str_serial_number c)"
definition rq_com_get_str_firmware_version :: "rq_com \<Rightarrow> string" where
  "rq_com_get_str_firmware_version c = c_string (rq_str_firmware_version c)"
definition rq_com_get_str_production_year :: "rq_com \<Rightarrow> string" where
  "rq_com_get_str_production_year c = c_string (rq_str_production_year c)"
definition rq_com_get_stream_detected :: "rq_com \<Rightarrow> bool" where
  "rq_com_get_stream_detected c = rq_stream_detected c"
definition rq_com_get_valid_stream :: "rq_com \<Rightarrow> bool" where
  "rq_com_get_valid_stream c = rq_valid_stream c"

definition rq_com_get_received_data :: "u8 \<Rightarrow> rq_com \<Rightarrow> rat" where
  "rq_com_get_received_data i c =
     (if i \<le> 5 then rnd32 (rq_received_data c ! unat i - rq_received_data_offset c ! unat i) else 0)"

definition rq_com_got_new_message :: "rq_com \<Rightarrow> bool \<times> rq_com" where
  "rq_com_got_new_message c = (rq_new_message c, c\<lparr>rq_new_message := False\<rparr>)"

section \<open>The buffers\<close>

definition rq_wf :: "rq_com \<Rightarrow> bool" where
  "rq_wf c \<longleftrightarrow> length (rq_rcv_buff2 c) = MP_BUFF_SIZE \<and> rq_rcv_len2 c \<le> MP_BUFF_SIZE \<and>
     length (rq_received_data c) = 6 \<and> length (rq_received_data_offset c) = 6"

text \<open>The bytes kept between two calls.\<close>

definition pending :: "rq_com \<Rightarrow> u8 list" where
  "pending c = take (rq_rcv_len2 c) (rq_rcv_buff2 c)"

text \<open>The abstract view of one call: the bytes at hand, the position of the newest message in them, and
  what a message carries.\<close>

definition at_hand :: "u8 list \<Rightarrow> u8 list \<Rightarrow> u8 list" where
  "at_hand kept_bytes bs = (if length kept_bytes + length bs \<le> MP_BUFF_SIZE then kept_bytes @ bs else [])"

definition header_at :: "u8 list \<Rightarrow> nat \<Rightarrow> bool" where
  "header_at bs i \<longleftrightarrow> bs ! i = 0x20 \<and> bs ! (i + 1) = 0x4E"

definition newest_message :: "u8 list \<Rightarrow> nat option" where
  "newest_message bs = find (header_at bs) (rev [0..<length bs - 15])"

definition message_valid :: "u8 list \<Rightarrow> bool" where
  "message_valid m \<longleftrightarrow> crc_of (take 14 m) = rq_uint16 (m ! 14) (m ! 15)"

definition message_efforts :: "u8 list \<Rightarrow> rat list" where
  "message_efforts m = map (rq_effort m 0) [0..<6]"

lemma at_hand_Nil [simp]: "length p \<le> MP_BUFF_SIZE \<Longrightarrow> at_hand p [] = p"
  by (simp add: at_hand_def)

lemma store_spec:
  assumes "length buf = MP_BUFF_SIZE" "n \<le> MP_BUFF_SIZE" "rq_com_store bs buf n = (buf', n')"
  shows "length buf' = MP_BUFF_SIZE" "n' \<le> MP_BUFF_SIZE" "take n' buf' = at_hand (take n buf) bs"
proof -
  have "length buf' = MP_BUFF_SIZE \<and> n' \<le> MP_BUFF_SIZE \<and> take n' buf' = at_hand (take n buf) bs"
    using assms
  proof (induction bs arbitrary: buf n)
    case Nil
    then show ?case by (auto simp: at_hand_def)
  next
    case (Cons b bs)
    show ?case
    proof (cases "n = MP_BUFF_SIZE")
      case True
      then show ?thesis using Cons.prems by (auto simp: at_hand_def)
    next
      case False
      then have n: "n < length buf" "Suc n \<le> MP_BUFF_SIZE" using Cons.prems by auto
      from Cons.IH [of "buf[n := b]" "Suc n"] Cons.prems n False show ?thesis
        by (auto simp: at_hand_def take_Suc_list_update)
    qed
  qed
  then show "length buf' = MP_BUFF_SIZE" "n' \<le> MP_BUFF_SIZE" "take n' buf' = at_hand (take n buf) bs" by auto
qed

lemma shift_spec:
  assumes "d + n \<le> length buf"
  shows "fold (\<lambda>i buf. buf[i := buf ! (d + i)]) [0..<n] buf = take n (drop d buf) @ drop n buf"
  using assms
proof (induction n)
  case 0
  then show ?case by simp
next
  case (Suc n)
  let ?l = "take n (drop d buf)"
  have l: "length ?l = n" using Suc.prems by simp
  have "(?l @ drop n buf) ! (d + n) = buf ! (d + n)" using Suc.prems l by (simp add: nth_append add.commute)
  moreover have "drop n buf = buf ! n # drop (Suc n) buf" using Suc.prems by (simp add: Cons_nth_drop_Suc)
  ultimately show ?case using Suc l by (simp add: list_update_append take_Suc_conv_app_nth)
qed

lemma search_after: "rq_com_search n (c, l, True) = (c, l, True)"
  by (induction n) (simp_all add: rq_com_decode_def Let_def)

lemma search_spec:
  "rq_com_search n (c, 0, False) =
     (case find (header_at (rq_rcv_buff2 c)) (rev [0..<n]) of
        None \<Rightarrow> (c, 0, False) | Some i \<Rightarrow> rq_com_decode i (c, 0, False))"
proof (induction n)
  case (Suc n)
  have d: "rq_com_decode n (c, 0, False) = (c, 0, False)" if "\<not> header_at (rq_rcv_buff2 c) n"
    using that by (auto simp: rq_com_decode_def header_at_def Let_def)
  have s: "\<exists>c' l. rq_com_decode n (c, 0, False) = (c', l, True)" if "header_at (rq_rcv_buff2 c) n"
    using that by (simp add: rq_com_decode_def header_at_def Let_def)
  show ?case
  proof (cases "header_at (rq_rcv_buff2 c) n")
    case True
    with s obtain c' l where "rq_com_decode n (c, 0, False) = (c', l, True)" by blast
    with True show ?thesis by (simp add: search_after)
  next
    case False
    then show ?thesis using Suc d by simp
  qed
qed simp

lemma find_cong_on: "(\<And>x. x \<in> set xs \<Longrightarrow> P x = Q x) \<Longrightarrow> find P xs = find Q xs"
  by (induction xs) auto

lemma find_in: "find P xs = Some x \<Longrightarrow> x \<in> set xs \<and> P x"
  by (induction xs) (auto split: if_splits)

lemma newest_message_some:
  "newest_message bs = Some i \<Longrightarrow> header_at bs i \<and> i + 16 \<le> length bs"
  using find_in [of "header_at bs" "rev [0..<length bs - 15]" i] by (auto simp: newest_message_def)

lemma search_messages_idle: "rq_rcv_len c < 1 \<Longrightarrow> rq_com_search_messages c = c"
  by (simp add: rq_com_search_messages_def)

lemma header_pending:
  "rq_wf c \<Longrightarrow> i + 16 \<le> rq_rcv_len2 c \<Longrightarrow> header_at (rq_rcv_buff2 c) i = header_at (pending c) i"
  by (simp add: header_at_def pending_def rq_wf_def)

lemma newest_in_buffer:
  assumes "rq_wf c"
  shows "find (header_at (rq_rcv_buff2 c)) (rev [0..<rq_rcv_len2 c - 15]) = newest_message (pending c)"
proof -
  have "length (pending c) = rq_rcv_len2 c" using assms by (simp add: pending_def rq_wf_def)
  then show ?thesis unfolding newest_message_def
    by (auto intro!: find_cong_on header_pending [OF assms])
qed

lemma receive_facts:
  assumes "rq_wf c" "shd (rq_reads c) = r" "bs = take MP_BUFF_SIZE (case r of None \<Rightarrow> [] | Some bs \<Rightarrow> bs)"
  defines "c' \<equiv> rq_com_receive c"
  shows "rq_wf c'" "pending c' = at_hand (pending c) bs" "1 \<le> rq_rcv_len c' \<longleftrightarrow> bs \<noteq> []"
    "rq_reads c' = stl (rq_reads c)" "rq_received_data c' = rq_received_data c"
    "rq_received_data_offset c' = rq_received_data_offset c" "rq_valid_stream c' = rq_valid_stream c"
    "rq_new_message c' = rq_new_message c" "rq_timer_for_valid_stream c' = rq_timer_for_valid_stream c"
    "rq_stream_detected c' \<longleftrightarrow> bs \<noteq> [] \<or> rq_stream_detected c"
    "rq_timer_for_stream_detection c' = (if bs \<noteq> [] then 0 else rq_timer_for_stream_detection c)"
proof -
  obtain buf n where st: "rq_com_store bs (rq_rcv_buff2 c) (rq_rcv_len2 c) = (buf, n)" by fastforce
  have w: "length (rq_rcv_buff2 c) = MP_BUFF_SIZE" "rq_rcv_len2 c \<le> MP_BUFF_SIZE" using assms(1) by (auto simp: rq_wf_def)
  have r: "rq_com_read_port MP_BUFF_SIZE c =
      ((case r of None \<Rightarrow> -1 | Some _ \<Rightarrow> int (length bs), bs), c\<lparr>rq_reads := stl (rq_reads c)\<rparr>)"
    using assms(2,3) by (simp add: rq_com_read_port_def split: option.split)
  have n: "0 < (case r of None \<Rightarrow> -1 | Some _ \<Rightarrow> int (length bs)) \<longleftrightarrow> bs \<noteq> []"
    using assms(3) by (auto split: option.split)
  note sp = store_spec [OF w st]
  show "rq_wf c'" "pending c' = at_hand (pending c) bs" "1 \<le> rq_rcv_len c' \<longleftrightarrow> bs \<noteq> []"
    "rq_reads c' = stl (rq_reads c)" "rq_received_data c' = rq_received_data c"
    "rq_received_data_offset c' = rq_received_data_offset c" "rq_valid_stream c' = rq_valid_stream c"
    "rq_new_message c' = rq_new_message c" "rq_timer_for_valid_stream c' = rq_timer_for_valid_stream c"
    "rq_stream_detected c' \<longleftrightarrow> bs \<noteq> [] \<or> rq_stream_detected c"
    "rq_timer_for_stream_detection c' = (if bs \<noteq> [] then 0 else rq_timer_for_stream_detection c)"
    using sp assms(1) n unfolding c'_def rq_com_receive_def r
    by (auto simp: st Let_def rq_wf_def pending_def)
qed

lemma decode_facts:
  assumes "rq_com_decode i (c, 0, False) = (c', l, f)" "header_at (rq_rcv_buff2 c) i" "i + 16 \<le> length (rq_rcv_buff2 c)"
  defines "m \<equiv> take 16 (drop i (rq_rcv_buff2 c))"
  shows "l = int i + 15" "rq_rcv_buff2 c' = rq_rcv_buff2 c" "rq_rcv_len2 c' = rq_rcv_len2 c"
    "rq_received_data c' = (if message_valid m then message_efforts m else rq_received_data c)"
    "rq_valid_stream c' \<longleftrightarrow> message_valid m \<or> rq_valid_stream c"
    "rq_new_message c' \<longleftrightarrow> message_valid m \<or> rq_new_message c"
    "rq_timer_for_valid_stream c' = (if message_valid m then 0 else rq_timer_for_valid_stream c)"
    "rq_reads c' = rq_reads c" "rq_received_data_offset c' = rq_received_data_offset c"
    "rq_stream_detected c' = rq_stream_detected c" "rq_timer_for_stream_detection c' = rq_timer_for_stream_detection c"
proof -
  let ?b = "rq_rcv_buff2 c"
  have v: "crc_of (take 14 (drop i ?b)) = rq_uint16 (?b ! (i + 14)) (?b ! (i + 15)) \<longleftrightarrow> message_valid m"
    using assms(3) by (simp add: message_valid_def m_def min_def)
  have "rq_effort ?b i j = rq_effort m 0 j" if "j < 6" for j
    using that assms(3) by (simp add: rq_effort_def m_def add.assoc)
  then have e: "map (rq_effort ?b i) [0..<6] = message_efforts m" by (simp add: message_efforts_def)
  show "l = int i + 15" "rq_rcv_buff2 c' = rq_rcv_buff2 c" "rq_rcv_len2 c' = rq_rcv_len2 c"
    "rq_received_data c' = (if message_valid m then message_efforts m else rq_received_data c)"
    "rq_valid_stream c' \<longleftrightarrow> message_valid m \<or> rq_valid_stream c"
    "rq_new_message c' \<longleftrightarrow> message_valid m \<or> rq_new_message c"
    "rq_timer_for_valid_stream c' = (if message_valid m then 0 else rq_timer_for_valid_stream c)"
    "rq_reads c' = rq_reads c" "rq_received_data_offset c' = rq_received_data_offset c"
    "rq_stream_detected c' = rq_stream_detected c" "rq_timer_for_stream_detection c' = rq_timer_for_stream_detection c"
    using assms(1,2) v unfolding rq_com_decode_def header_at_def Let_def e [symmetric]
    by (auto split: if_splits)
qed

lemma shift_frame [simp]:
  "rq_reads (rq_com_shift l c) = rq_reads c" "rq_received_data (rq_com_shift l c) = rq_received_data c"
  "rq_received_data_offset (rq_com_shift l c) = rq_received_data_offset c"
  "rq_valid_stream (rq_com_shift l c) = rq_valid_stream c" "rq_new_message (rq_com_shift l c) = rq_new_message c"
  "rq_stream_detected (rq_com_shift l c) = rq_stream_detected c"
  "rq_timer_for_stream_detection (rq_com_shift l c) = rq_timer_for_stream_detection c"
  "rq_timer_for_valid_stream (rq_com_shift l c) = rq_timer_for_valid_stream c"
  by (simp_all add: rq_com_shift_def Let_def)

lemma shift_facts:
  assumes "length (rq_rcv_buff2 c) = MP_BUFF_SIZE" "rq_rcv_len2 c \<le> MP_BUFF_SIZE" "i + 16 \<le> rq_rcv_len2 c"
  defines "c' \<equiv> rq_com_shift (int i + 15) c"
  shows "length (rq_rcv_buff2 c') = MP_BUFF_SIZE" "rq_rcv_len2 c' \<le> MP_BUFF_SIZE" "pending c' = drop (i + 16) (pending c)"
proof -
  let ?n = "rq_rcv_len2 c - (i + 16)"
  have n: "nat (int (rq_rcv_len2 c) - (int i + 15) - 1) = ?n" "nat (int i + 15 + 1) = i + 16" by simp_all
  have b: "fold (\<lambda>j buf. buf[j := buf ! (i + 16 + j)]) [0..<?n] (rq_rcv_buff2 c) =
      take ?n (drop (i + 16) (rq_rcv_buff2 c)) @ drop ?n (rq_rcv_buff2 c)"
    using assms(1-3) by (intro shift_spec) simp
  have c': "c' = c\<lparr>rq_rcv_buff2 := take ?n (drop (i + 16) (rq_rcv_buff2 c)) @ drop ?n (rq_rcv_buff2 c),
      rq_rcv_len2 := ?n\<rparr>"
    unfolding c'_def rq_com_shift_def Let_def n b by simp
  show "length (rq_rcv_buff2 c') = MP_BUFF_SIZE" "rq_rcv_len2 c' \<le> MP_BUFF_SIZE"
    "pending c' = drop (i + 16) (pending c)"
    using assms(1-3) unfolding c' by (auto simp: pending_def drop_take min_def)
qed

lemma search_messages_facts:
  assumes "rq_wf c" "1 \<le> rq_rcv_len c"
  defines "c' \<equiv> rq_com_search_messages c" and "q \<equiv> pending c"
  shows "rq_wf c' \<and> rq_reads c' = rq_reads c \<and> rq_received_data_offset c' = rq_received_data_offset c \<and>
    rq_stream_detected c' = rq_stream_detected c \<and>
    rq_timer_for_stream_detection c' = rq_timer_for_stream_detection c \<and>
    (case newest_message q of
       None \<Rightarrow> pending c' = q \<and> rq_received_data c' = rq_received_data c \<and> rq_valid_stream c' = rq_valid_stream c \<and>
         rq_new_message c' = rq_new_message c \<and> rq_timer_for_valid_stream c' = rq_timer_for_valid_stream c
     | Some i \<Rightarrow> let m = take 16 (drop i q) in pending c' = drop (i + 16) q \<and>
         rq_received_data c' = (if message_valid m then message_efforts m else rq_received_data c) \<and>
         (rq_valid_stream c' \<longleftrightarrow> message_valid m \<or> rq_valid_stream c) \<and>
         (rq_new_message c' \<longleftrightarrow> message_valid m \<or> rq_new_message c) \<and>
         rq_timer_for_valid_stream c' = (if message_valid m then 0 else rq_timer_for_valid_stream c))"
proof -
  have w: "length (rq_rcv_buff2 c) = MP_BUFF_SIZE" "rq_rcv_len2 c \<le> MP_BUFF_SIZE" using assms(1) by (auto simp: rq_wf_def)
  have lq: "length q = rq_rcv_len2 c" using w by (simp add: q_def pending_def)
  have s: "rq_com_search (rq_rcv_len2 c - 15) (c, 0, False) =
      (case newest_message q of None \<Rightarrow> (c, 0, False) | Some i \<Rightarrow> rq_com_decode i (c, 0, False))"
    unfolding search_spec newest_in_buffer [OF assms(1)] q_def ..
  show ?thesis
  proof (cases "newest_message q")
    case None
    then have "c' = c" unfolding c'_def rq_com_search_messages_def s by simp
    then show ?thesis using assms(1) None by (simp add: q_def)
  next
    case (Some i)
    have i: "header_at q i" "i + 16 \<le> rq_rcv_len2 c" using newest_message_some [OF Some] lq by auto
    have hb: "header_at (rq_rcv_buff2 c) i" using header_pending [OF assms(1) i(2)] i(1) by (simp add: q_def)
    obtain c1 l f where d: "rq_com_decode i (c, 0, False) = (c1, l, f)" by (metis prod.collapse)
    have ib: "i + 16 \<le> length (rq_rcv_buff2 c)" using i(2) w by simp
    note df = decode_facts [OF d hb ib]
    have m: "take 16 (drop i (rq_rcv_buff2 c)) = take 16 (drop i q)"
      using i(2) by (simp add: q_def pending_def drop_take min_def)
    have w1: "length (rq_rcv_buff2 c1) = MP_BUFF_SIZE" "rq_rcv_len2 c1 \<le> MP_BUFF_SIZE" "i + 16 \<le> rq_rcv_len2 c1"
      using df(2,3) w i(2) by simp_all
    note sf = shift_facts [OF w1]
    have c': "c' = rq_com_shift (int i + 15) c1"
      unfolding c'_def rq_com_search_messages_def s using assms(2) i(2) Some d df(1) by simp
    have "length (message_efforts x) = 6" for x by (simp add: message_efforts_def)
    then have wf: "rq_wf c'" using sf(1,2) df(4,9) assms(1) by (simp add: c' rq_wf_def)
    have p: "pending c' = drop (i + 16) q" using sf(3) df(2,3) by (simp add: c' q_def pending_def)
    show ?thesis using wf p df(4-) unfolding Some option.case Let_def m c' by simp
  qed
qed

definition received_bytes :: "rq_com \<Rightarrow> u8 list" where
  "received_bytes c = take MP_BUFF_SIZE (case shd (rq_reads c) of None \<Rightarrow> [] | Some bs \<Rightarrow> bs)"

lemma before_receive:
  assumes "rq_wf c"
  defines "c0 \<equiv> rq_com_count_valid (rq_com_count_stream (rq_com_zero c))"
  shows "rq_wf c0" "pending c0 = pending c" "rq_reads c0 = rq_reads c" "rq_received_data c0 = rq_received_data c"
    "rq_new_message c0 = rq_new_message c"
    "rq_received_data_offset c0 = (if rq_zero_force_flag c = 1 then rq_received_data c else rq_received_data_offset c)"
    "rq_stream_detected c0 \<longleftrightarrow> rq_stream_detected c \<and> rq_timer_for_stream_detection c \<le> 20"
    "rq_timer_for_stream_detection c0 =
       (if rq_timer_for_stream_detection c > 20 then 20 else rq_timer_for_stream_detection c + 1)"
    "rq_valid_stream c0 \<longleftrightarrow> rq_valid_stream c \<and> rq_timer_for_valid_stream c \<le> 40"
    "rq_timer_for_valid_stream c0 = (if rq_timer_for_valid_stream c > 40 then 40 else rq_timer_for_valid_stream c + 1)"
proof -
  have "map (\<lambda>i. rq_received_data c ! i) [0..<6] = rq_received_data c"
    using map_nth [of "rq_received_data c"] assms(1) by (simp add: rq_wf_def)
  note defs = rq_com_count_valid_def rq_com_count_stream_def rq_com_zero_def this
    RQ_COM_TIMER_FOR_STREAM_DETECTION_MAX_VALUE_def RQ_COM_TIMER_FOR_VALID_STREAM_MAX_VALUE_def
  show "rq_wf c0" "pending c0 = pending c" "rq_reads c0 = rq_reads c" "rq_received_data c0 = rq_received_data c"
    "rq_new_message c0 = rq_new_message c"
    "rq_received_data_offset c0 = (if rq_zero_force_flag c = 1 then rq_received_data c else rq_received_data_offset c)"
    "rq_stream_detected c0 \<longleftrightarrow> rq_stream_detected c \<and> rq_timer_for_stream_detection c \<le> 20"
    "rq_timer_for_stream_detection c0 =
       (if rq_timer_for_stream_detection c > 20 then 20 else rq_timer_for_stream_detection c + 1)"
    "rq_valid_stream c0 \<longleftrightarrow> rq_valid_stream c \<and> rq_timer_for_valid_stream c \<le> 40"
    "rq_timer_for_valid_stream c0 = (if rq_timer_for_valid_stream c > 40 then 40 else rq_timer_for_valid_stream c + 1)"
    using assms(1) by (auto simp: c0_def defs rq_wf_def pending_def)
qed

lemma listen_stream_view:
  assumes "rq_wf c"
  defines "q \<equiv> at_hand (pending c) (received_bytes c)" and "c' \<equiv> rq_com_listen_stream c"
  shows "rq_wf c' \<and> rq_reads c' = stl (rq_reads c) \<and>
    rq_received_data_offset c' = (if rq_zero_force_flag c = 1 then rq_received_data c else rq_received_data_offset c) \<and>
    (case if received_bytes c = [] then None else newest_message q of
       None \<Rightarrow> pending c' = q \<and> rq_received_data c' = rq_received_data c \<and> rq_new_message c' = rq_new_message c
     | Some i \<Rightarrow> pending c' = drop (i + 16) q \<and>
         (if message_valid (take 16 (drop i q)) then
            rq_received_data c' = message_efforts (take 16 (drop i q)) \<and> rq_valid_stream c' \<and> rq_new_message c'
          else rq_received_data c' = rq_received_data c \<and> rq_new_message c' = rq_new_message c))"
proof -
  define c0 where "c0 = rq_com_count_valid (rq_com_count_stream (rq_com_zero c))"
  note b = before_receive [OF assms(1), folded c0_def]
  have rb: "received_bytes c = take MP_BUFF_SIZE (case shd (rq_reads c0) of None \<Rightarrow> [] | Some bs \<Rightarrow> bs)"
    by (simp add: received_bytes_def b(3))
  note r = receive_facts [OF b(1) refl rb]
  have c': "c' = rq_com_search_messages (rq_com_receive c0)" by (simp add: c'_def rq_com_listen_stream_def c0_def)
  show ?thesis
  proof (cases "received_bytes c = []")
    case True
    then have "c' = rq_com_receive c0" using r(3) by (simp add: c' search_messages_idle not_le)
    then show ?thesis using True r b by (simp add: q_def)
  next
    case False
    then have n: "1 \<le> rq_rcv_len (rq_com_receive c0)" using r(3) by simp
    have q: "pending (rq_com_receive c0) = q" using r(2) b(2) by (simp add: q_def)
    note s = search_messages_facts [OF r(1) n, folded c', unfolded q]
    show ?thesis using s r b False by (cases "newest_message q") (auto simp: Let_def)
  qed
qed

text \<open>C22. The decoder refines its abstract view: one call of \<^verbatim>\<open>rq_com_listen_stream\<close> takes the bytes kept
  so far and those received, or nothing if they overflow the buffer; of the messages among them it
  decodes the newest one, if its checksum holds, and keeps exactly the bytes after it. Without a
  header, or with a bad checksum, the data stay as they were. A pending zero request makes the old
  data the offset. No index leaves a buffer.\<close>

theorem listen_stream_refines:
  assumes "rq_wf c"
  defines "q \<equiv> at_hand (pending c) (received_bytes c)" and "c' \<equiv> rq_com_listen_stream c"
  shows "rq_wf c' \<and> rq_reads c' = stl (rq_reads c) \<and>
    rq_received_data_offset c' = (if rq_zero_force_flag c = 1 then rq_received_data c else rq_received_data_offset c) \<and>
    (case if received_bytes c = [] then None else newest_message q of
       None \<Rightarrow> pending c' = q \<and> rq_received_data c' = rq_received_data c \<and> rq_new_message c' = rq_new_message c
     | Some i \<Rightarrow> pending c' = drop (i + 16) q \<and>
         (if message_valid (take 16 (drop i q)) then
            rq_received_data c' = message_efforts (take 16 (drop i q)) \<and> rq_valid_stream c' \<and> rq_new_message c'
          else rq_received_data c' = rq_received_data c \<and> rq_new_message c' = rq_new_message c))"
  unfolding q_def c'_def by (rule listen_stream_view [OF assms(1)])

lemma rq_uint16_bytes: "rq_uint16 (ucast x) (ucast (drop_bit 8 x)) = x"
proof -
  have "(ucast (ucast (drop_bit 8 x) :: u8) * 256 :: u16) = push_bit 8 (ucast (ucast (drop_bit 8 x) :: u8))"
    by (simp add: push_bit_eq_mult)
  then show ?thesis
    using u16_plus_eq_or [of "ucast (ucast (drop_bit 8 x) :: u8)" "ucast x"] u16_bytes_split [of x]
    by (simp add: rq_uint16_def add.commute)
qed

lemma rq_int16_uint16: "rq_int16 lo hi = sint (rq_uint16 lo hi)"
  by (simp add: rq_int16_def rq_uint16_def)

section \<open>Messages\<close>

text \<open>A message of the sensor with the six raw efforts.\<close>

definition le_bytes :: "u16 \<Rightarrow> u8 list" where
  "le_bytes x = [ucast x, ucast (drop_bit 8 x)]"

definition stream_message :: "u16 list \<Rightarrow> u8 list" where
  "stream_message vs = (let body = [0x20, 0x4E] @ concat (map le_bytes vs) in body @ le_bytes (crc_of body))"

lemma stream_message_facts:
  assumes "length vs = 6"
  shows "length (stream_message vs) = 16" "header_at (stream_message vs) 0" "message_valid (stream_message vs)"
    "message_efforts (stream_message vs) =
       map (\<lambda>j. rnd32 (of_int (sint (vs ! j)) / (if j < 3 then 100 else 1000))) [0..<6]"
proof -
  obtain v0 v1 v2 v3 v4 v5 where vs: "vs = [v0, v1, v2, v3, v4, v5]"
    using assms by (auto simp: numeral_eq_Suc length_Suc_conv)
  show "length (stream_message vs) = 16" "header_at (stream_message vs) 0" "message_valid (stream_message vs)"
    "message_efforts (stream_message vs) =
       map (\<lambda>j. rnd32 (of_int (sint (vs ! j)) / (if j < 3 then 100 else 1000))) [0..<6]"
    by (simp_all add: vs stream_message_def le_bytes_def Let_def header_at_def message_valid_def rq_uint16_bytes
        message_efforts_def upt_rec rq_effort_def rq_int16_uint16 del: foldl_Cons)
qed

lemma newest_message_last:
  assumes "length m = 16" "header_at m 0" shows "newest_message (pre @ m) = Some (length pre)"
proof -
  have "length (pre @ m) - 15 = Suc (length pre)" using assms(1) by simp
  moreover have "header_at (pre @ m) (length pre)" using assms by (simp add: header_at_def nth_append)
  ultimately show ?thesis by (simp add: newest_message_def)
qed

lemma message_decoded:
  assumes "rq_wf c" "length vs = 6" "received_bytes c \<noteq> []"
    and "pending c @ received_bytes c = before @ stream_message vs"
    and "length (pending c) + length (received_bytes c) \<le> MP_BUFF_SIZE"
  defines "c' \<equiv> rq_com_listen_stream c"
  shows "rq_received_data c' = map (\<lambda>j. rnd32 (of_int (sint (vs ! j)) / (if j < 3 then 100 else 1000))) [0..<6] \<and>
    rq_valid_stream c' \<and> rq_new_message c' \<and> pending c' = []"
proof -
  note m = stream_message_facts [OF assms(2)]
  have q: "at_hand (pending c) (received_bytes c) = before @ stream_message vs"
    using assms(4,5) by (simp add: at_hand_def)
  show ?thesis
    using listen_stream_view [OF assms(1)] assms(3) newest_message_last [OF m(1,2)] m(1,3,4)
    by (simp add: q c'_def)
qed

text \<open>C23. What the sensor sends is what the driver reports: when the received bytes complete a message of
  the sensor and the buffer has room, the six efforts are exactly the raw values, rounded to single
  precision and scaled (hundredths for forces, thousandths for moments); the stream counts as valid,
  the message as new, and nothing is left over. It does not matter which bytes came before.\<close>

theorem stream_message_round_trip:
  assumes "rq_wf c" "length vs = 6" "received_bytes c \<noteq> []"
    and "pending c @ received_bytes c = before @ stream_message vs"
    and "length (pending c) + length (received_bytes c) \<le> MP_BUFF_SIZE"
  defines "c' \<equiv> rq_com_listen_stream c"
  shows "rq_received_data c' = map (\<lambda>j. rnd32 (of_int (sint (vs ! j)) / (if j < 3 then 100 else 1000))) [0..<6] \<and>
    rq_valid_stream c' \<and> rq_new_message c' \<and> pending c' = []"
  unfolding c'_def by (rule message_decoded [OF assms(1-5)])

section \<open>Silence\<close>

lemma listen_silence:
  assumes "rq_wf c" "received_bytes c = []"
  defines "c' \<equiv> rq_com_listen_stream c"
  shows "rq_wf c'" "rq_reads c' = stl (rq_reads c)"
    "rq_stream_detected c' \<longleftrightarrow> rq_stream_detected c \<and> rq_timer_for_stream_detection c \<le> 20"
    "rq_timer_for_stream_detection c' =
       (if rq_timer_for_stream_detection c > 20 then 20 else rq_timer_for_stream_detection c + 1)"
    "rq_valid_stream c' \<longleftrightarrow> rq_valid_stream c \<and> rq_timer_for_valid_stream c \<le> 40"
    "rq_timer_for_valid_stream c' = (if rq_timer_for_valid_stream c > 40 then 40 else rq_timer_for_valid_stream c + 1)"
proof -
  define c0 where "c0 = rq_com_count_valid (rq_com_count_stream (rq_com_zero c))"
  note b = before_receive [OF assms(1), folded c0_def]
  have rb: "[] = take MP_BUFF_SIZE (case shd (rq_reads c0) of None \<Rightarrow> [] | Some bs \<Rightarrow> bs)"
    using assms(2) by (simp add: received_bytes_def b(3))
  note r = receive_facts [OF b(1) refl rb]
  have c': "c' = rq_com_receive c0"
    using r(3) by (simp add: c'_def rq_com_listen_stream_def c0_def [symmetric] search_messages_idle not_le)
  show "rq_wf c'" "rq_reads c' = stl (rq_reads c)"
    "rq_stream_detected c' \<longleftrightarrow> rq_stream_detected c \<and> rq_timer_for_stream_detection c \<le> 20"
    "rq_timer_for_stream_detection c' =
       (if rq_timer_for_stream_detection c > 20 then 20 else rq_timer_for_stream_detection c + 1)"
    "rq_valid_stream c' \<longleftrightarrow> rq_valid_stream c \<and> rq_timer_for_valid_stream c \<le> 40"
    "rq_timer_for_valid_stream c' = (if rq_timer_for_valid_stream c > 40 then 40 else rq_timer_for_valid_stream c + 1)"
    using r b by (simp_all add: c')
qed

definition silent :: "u8 list option \<Rightarrow> bool" where
  "silent r \<longleftrightarrow> r = None \<or> r = Some []"

lemma silent_bytes: "silent (shd (rq_reads c)) \<Longrightarrow> received_bytes c = []"
  by (auto simp: silent_def received_bytes_def)

lemma listen_silences:
  assumes "rq_wf c" "\<forall>k<n. silent (rq_reads c !! k)" "rq_timer_for_stream_detection c = 0" "rq_timer_for_valid_stream c = 0"
  defines "cn \<equiv> (rq_com_listen_stream ^^ n) c"
  shows "rq_wf cn \<and> rq_reads cn = sdrop n (rq_reads c) \<and>
    (if n < 22 then rq_timer_for_stream_detection cn = int n \<and> rq_stream_detected cn = rq_stream_detected c
     else \<not> rq_stream_detected cn) \<and>
    (if n < 42 then rq_timer_for_valid_stream cn = int n \<and> rq_valid_stream cn = rq_valid_stream c
     else \<not> rq_valid_stream cn)"
  using assms(2) unfolding cn_def
proof (induction n)
  case 0
  then show ?case using assms by simp
next
  case (Suc n)
  let ?c = "(rq_com_listen_stream ^^ n) c"
  have "\<forall>k<n. silent (rq_reads c !! k)" "silent (rq_reads c !! n)" using Suc.prems by auto
  with Suc.IH have i: "rq_wf ?c" "rq_reads ?c = sdrop n (rq_reads c)"
    "if n < 22 then rq_timer_for_stream_detection ?c = int n \<and> rq_stream_detected ?c = rq_stream_detected c
     else \<not> rq_stream_detected ?c"
    "if n < 42 then rq_timer_for_valid_stream ?c = int n \<and> rq_valid_stream ?c = rq_valid_stream c
     else \<not> rq_valid_stream ?c" and s: "silent (shd (rq_reads ?c))" by auto
  note l = listen_silence [OF i(1) silent_bytes [OF s]]
  show ?case using l i(2-) by (auto split: if_splits)
qed

text \<open>A lost stream is noticed, and not too early: when no byte arrives any more, the stream counts
  as detected for exactly 21 calls and as lost from the 22nd on (at least 88 ms), and it counts as
  valid for 41 calls and as invalid from the 42nd on.\<close>

theorem silence_is_noticed:
  assumes "rq_wf c" "\<forall>k<n. silent (rq_reads c !! k)" "rq_timer_for_stream_detection c = 0" "rq_timer_for_valid_stream c = 0"
    and "rq_stream_detected c" "rq_valid_stream c"
  shows "(rq_stream_detected ((rq_com_listen_stream ^^ n) c) \<longleftrightarrow> n < 22) \<and>
    (rq_valid_stream ((rq_com_listen_stream ^^ n) c) \<longleftrightarrow> n < 42)"
  using listen_silences [OF assms(1-4)] assms(5,6) by (auto split: if_splits)

section \<open>Concrete runs\<close>

definition demo_reply :: rq_reply where
  "demo_reply = \<lparr>rp_buf = replicate MP_BUFF_SIZE 0, rp_length = 0, rp_old_length = 0, rp_counter_no_new_data = 0\<rparr>"

text \<open>The initial values of the static variables.\<close>

definition rq_com_initial :: "u8 list option stream \<Rightarrow> rq_com" where
  "rq_com_initial reads =
     \<lparr>rq_received_data = replicate 6 0, rq_received_data_offset = replicate 6 0, rq_computed_crc = 0, rq_crc = 0,
      rq_str_serial_number = '''', rq_str_production_year = '''', rq_str_firmware_version = '''',
      rq_msg_received = 0, rq_rcv_buff2 = replicate MP_BUFF_SIZE 0, rq_rcv_len = 0, rq_rcv_len2 = 0,
      rq_zero_force_flag = 0, rq_sensor_watchdog = 0, rq_stream_detected = False, rq_valid_stream = False,
      rq_new_message = False, rq_timer_for_stream_detection = 0, rq_timer_for_valid_stream = 0,
      rq_jam_counter = 0, rq_reply_03 = demo_reply, rq_reply_16 = demo_reply, rq_fd_connexion = -1,
      rq_reads = reads, rq_written = [], rq_closed = []\<rparr>"

lemma rq_com_initial_wf: "rq_wf (rq_com_initial reads)"
  by (simp add: rq_wf_def rq_com_initial_def)

theorem listen_stream_refines_witness:
  "rq_wf (rq_com_listen_stream (rq_com_initial (Some [0x20] ## sconst None)))"
  using listen_stream_refines [OF rq_com_initial_wf] by blast

theorem stream_message_round_trip_witness:
  "rq_received_data (rq_com_listen_stream (rq_com_initial (Some (stream_message [100, -200, 0, 1000, 0, 0]) ## sconst None)))
     = map rnd32 [1, -2, 0, 1, 0, 0]"
proof -
  let ?vs = "[100, -200, 0, 1000, 0, 0] :: u16 list"
  let ?c = "rq_com_initial (Some (stream_message ?vs) ## sconst None)"
  have l: "length (stream_message ?vs) = 16" by (simp add: stream_message_facts(1))
  have r: "received_bytes ?c = stream_message ?vs"
    using l by (simp add: received_bytes_def rq_com_initial_def MP_BUFF_SIZE_def)
  have "pending ?c = []" by (simp add: pending_def rq_com_initial_def)
  with r l have p: "received_bytes ?c \<noteq> []" "pending ?c @ received_bytes ?c = [] @ stream_message ?vs"
    "length (pending ?c) + length (received_bytes ?c) \<le> MP_BUFF_SIZE" by (auto simp: MP_BUFF_SIZE_def)
  have "length ?vs = 6" by simp
  from stream_message_round_trip [OF rq_com_initial_wf this p] show ?thesis by (simp add: upt_rec)
qed

theorem silence_is_noticed_witness:
  "\<not> rq_stream_detected ((rq_com_listen_stream ^^ 22)
     ((rq_com_initial (sconst None))\<lparr>rq_stream_detected := True, rq_valid_stream := True\<rparr>))"
proof -
  let ?c = "(rq_com_initial (sconst None))\<lparr>rq_stream_detected := True, rq_valid_stream := True\<rparr>"
  have "rq_wf ?c" "rq_timer_for_stream_detection ?c = 0" "rq_timer_for_valid_stream ?c = 0" "rq_stream_detected ?c"
    "rq_valid_stream ?c" "\<forall>k<22. silent (rq_reads ?c !! k)"
    by (simp_all add: rq_wf_def rq_com_initial_def silent_def)
  with silence_is_noticed [of ?c 22] show ?thesis by blast
qed

end
