(* ===== verification/Rq_Sensor_Modbus.thy ===== *)
theory Rq_Sensor_Modbus
  imports Rq_Sensor_Com "HOL-Library.Sublist"
begin

text \<open>
  The request side of \<^verbatim>\<open>robotiq_ft_sensor_hardware/src/rq_sensor_com.cpp\<close>: the two Modbus functions it
  uses (read with function 3, write with function 16) and their replies, the information strings,
  starting and stopping the stream, and the discovery of the sensor. An access outside an array, the
  use of a byte that was never written and the overflow of a signed product are explicit faults
  (\<open>Inl\<close>); \<open>None\<close> is a loop that never ends.
\<close>

datatype rq_fault = Out_of_bounds | Indeterminate_value | Signed_overflow

section \<open>Replies\<close>

text \<open>Reading behind the bytes collected so far, and dropping them after too many calls without news.\<close>

definition reply_read :: "rq_reply \<Rightarrow> rq_com \<Rightarrow> rq_fault + (int \<times> rq_reply) \<times> rq_com" where
  "reply_read r c =
     (case rq_com_read_port (nat (int MP_BUFF_SIZE - rp_length r)) c of ((ret, bs), c1) \<Rightarrow>
        if bs \<noteq> [] \<and> rp_length r < 0 then Inl Out_of_bounds
        else
          (let l = nat (rp_length r) in
           Inr ((ret, r\<lparr>rp_buf := take l (rp_buf r) @ bs @ drop (l + length bs) (rp_buf r)\<rparr>), c1)))"

definition reply_idle :: "rq_reply \<Rightarrow> rq_reply" where
  "reply_idle r =
     (let r1 = (if rp_length r = rp_old_length r then
                  (if rp_counter_no_new_data r < 5 then
                     r\<lparr>rp_counter_no_new_data := rp_counter_no_new_data r + 1\<rparr>
                   else r\<lparr>rp_length := 0\<rparr>)
                else r\<lparr>rp_counter_no_new_data := 0\<rparr>) in
      r1\<lparr>rp_old_length := rp_length r1\<rparr>)"

definition crc_field_ok :: "nat \<Rightarrow> u8 list \<Rightarrow> bool" where
  "crc_field_ok n buf \<longleftrightarrow> rq_com_compute_crc (Some buf) (int n - 2) = rq_uint16 (buf ! (n - 2)) (buf ! (n - 1))"

text \<open>The reply to a read: the bytes written to the caller's array, which has \<open>room\<close> elements; none if
  the result is 0.\<close>

definition fc_03_decode :: "nat \<Rightarrow> rq_reply \<Rightarrow> rq_fault + u8 list \<times> rq_reply" where
  "fc_03_decode room r =
     (let buf = rp_buf r; n = unat (buf ! 2); len = nat (rp_length r) in
      if rp_length r > 0 then
        (if rp_length r \<le> 5 then Inr ([], r)
         else if buf ! 1 \<noteq> 3 then Inr ([], r\<lparr>rp_length := 0\<rparr>)
         else if rp_length r < 5 + int n then Inr ([], r)
         else if \<not> crc_field_ok len buf then Inr ([], r\<lparr>rp_buf := buf[0 := 0], rp_length := 0\<rparr>)
         else if n > room then Inl Out_of_bounds
         else Inr (map (\<lambda>j. buf ! (j + 3)) [0..<n], r\<lparr>rp_buf := buf[0 := 0], rp_length := 0\<rparr>))
      else Inr ([], r))"

definition rq_com_wait_for_fc_03_echo :: "nat \<Rightarrow> rq_com \<Rightarrow> rq_fault + u8 list \<times> rq_com" where
  "rq_com_wait_for_fc_03_echo room c =
     (case reply_read (rq_reply_03 c) c of
        Inl e \<Rightarrow> Inl e
      | Inr ((ret, r), c1) \<Rightarrow>
          (let r1 = (if ret \<noteq> -1 then r\<lparr>rp_length := rp_length r + ret\<rparr> else r) in
           case fc_03_decode room (reply_idle r1) of
             Inl e \<Rightarrow> Inl e
           | Inr (bs, r2) \<Rightarrow> Inr (bs, c1\<lparr>rq_reply_03 := r2\<rparr>)))"

definition fc_16_decode :: "rq_reply \<Rightarrow> bool \<times> rq_reply" where
  "fc_16_decode r =
     (if rp_length r > 0 then
        (if rp_length r < 8 then (False, r)
         else if rp_buf r ! 1 = 16 then (crc_field_ok 8 (rp_buf r), r\<lparr>rp_length := 0\<rparr>)
         else (False, r\<lparr>rp_length := 0\<rparr>))
      else (False, r))"

definition rq_com_wait_for_fc_16_echo :: "rq_com \<Rightarrow> rq_fault + bool \<times> rq_com" where
  "rq_com_wait_for_fc_16_echo c =
     (case reply_read (rq_reply_16 c) c of
        Inl e \<Rightarrow> Inl e
      | Inr ((ret, r), c1) \<Rightarrow>
          (case fc_16_decode (reply_idle (r\<lparr>rp_length := rp_length r + ret\<rparr>)) of
             (valid, r2) \<Rightarrow> Inr (valid, c1\<lparr>rq_reply_16 := r2\<rparr>)))"

section \<open>Requests\<close>

definition with_crc :: "u8 list \<Rightarrow> u8 list" where
  "with_crc buf =
     (let CRC = rq_com_compute_crc (Some buf) (int (length buf)) in buf @ [ucast CRC, ucast (drop_bit 8 CRC)])"

definition fc_03_frame :: "u16 \<Rightarrow> u16 \<Rightarrow> u8 list" where
  "fc_03_frame base n =
     (let n = (if n mod 2 \<noteq> 0 then n + 1 else n) in
      with_crc [9, 3, ucast (drop_bit 8 base), ucast base, ucast (drop_bit 8 (n div 2)), ucast (n div 2)])"

definition rq_com_send_fc_03_request :: "u16 \<Rightarrow> u16 \<Rightarrow> rq_com \<Rightarrow> rq_com" where
  "rq_com_send_fc_03_request base n c = rq_com_write_port (fc_03_frame base n) c"

definition fc_16_frame :: "u32 \<Rightarrow> u8 list \<Rightarrow> u8 list" where
  "fc_16_frame base bytes =
     (let n = of_nat (length bytes) :: u32; n2 = (if n mod 2 \<noteq> 0 then n + 1 else n) in
      with_crc ([9, 16, ucast (drop_bit 8 base), ucast base, ucast (drop_bit 8 (n2 div 2)), ucast (n2 div 2), ucast n2] @
        bytes @ (if n \<noteq> n2 then [0] else [])))"

definition rq_com_send_fc_16_request :: "u32 \<Rightarrow> u8 list \<Rightarrow> rq_com \<Rightarrow> rq_fault + rq_com" where
  "rq_com_send_fc_16_request base bytes c =
     (if length (fc_16_frame base bytes) > MP_BUFF_SIZE then Inl Out_of_bounds
      else Inr (rq_com_write_port (fc_16_frame base bytes) c))"

text \<open>The retries of a read, at most \<open>k\<close> more.\<close>

fun fc_03_retry :: "nat \<Rightarrow> nat \<Rightarrow> rq_com \<Rightarrow> rq_fault + u8 list \<times> rq_com" where
  "fc_03_retry 0 room c = Inr ([], c)"
| "fc_03_retry (Suc k) room c =
     (case rq_com_wait_for_fc_03_echo room c of
        Inl e \<Rightarrow> Inl e
      | Inr (bs, c1) \<Rightarrow> if bs = [] then fc_03_retry k room c1 else Inr (bs, c1))"

text \<open>The registers read, or \<open>None\<close> for -1.\<close>

definition rq_com_send_fc_03 :: "u16 \<Rightarrow> u16 \<Rightarrow> rq_com \<Rightarrow> rq_fault + u16 list option \<times> rq_com" where
  "rq_com_send_fc_03 base n c =
     (case fc_03_retry 100 (unat n) (rq_com_send_fc_03_request base n c) of
        Inl e \<Rightarrow> Inl e
      | Inr (data_request, c1) \<Rightarrow>
          if data_request = [] then Inr (None, c1)
          else if length data_request < 2 * (unat n div 2) then Inl Indeterminate_value
          else Inr (Some (map (\<lambda>i. rq_uint16 (data_request ! (2 * i + 1)) (data_request ! (2 * i))) [0..<unat n div 2]), c1))"

fun fc_16_retry :: "nat \<Rightarrow> rq_com \<Rightarrow> rq_fault + bool \<times> rq_com" where
  "fc_16_retry 0 c = Inr (False, c)"
| "fc_16_retry (Suc k) c =
     (case rq_com_wait_for_fc_16_echo c of
        Inl e \<Rightarrow> Inl e
      | Inr (valid, c1) \<Rightarrow> if \<not> valid then fc_16_retry k c1 else Inr (True, c1))"

text \<open>\<open>True\<close> for 0, \<open>False\<close> for -1.\<close>

definition rq_com_send_fc_16 :: "u32 \<Rightarrow> nat \<Rightarrow> u16 list \<Rightarrow> rq_com \<Rightarrow> rq_fault + bool \<times> rq_com" where
  "rq_com_send_fc_16 base n data c =
     (if (n + 1) div 2 > length data then Inl Out_of_bounds
      else
        (let data_request = map (\<lambda>i. if i mod 2 = 0 then ucast (drop_bit 8 (data ! (i div 2)))
                                     else ucast (data ! (i div 2) AND 0xFF)) [0..<n] in
         case rq_com_send_fc_16_request base data_request c of
           Inl e \<Rightarrow> Inl e
         | Inr c1 \<Rightarrow> fc_16_retry 100 c1))"

section \<open>Information strings\<close>

definition chr_of :: "u16 \<Rightarrow> char" where
  "chr_of x = char_of (unat (ucast x :: u8))"

text \<open>The conversions \<^verbatim>\<open>%hhu\<close>, \<^verbatim>\<open>%u\<close> and \<^verbatim>\<open>%.4lu\<close>.\<close>

definition dec_byte :: "u16 \<Rightarrow> string" where
  "dec_byte x = dec (unat (ucast x :: u8))"

definition dec4 :: "nat \<Rightarrow> string" where
  "dec4 n = replicate (4 - length (dec n)) CHR ''0'' @ dec n"

definition REGISTER_SELECT_OUTPUT :: u32 where "REGISTER_SELECT_OUTPUT = 410"
definition REGISTER_SERIAL_NUMBER :: u16 where "REGISTER_SERIAL_NUMBER = 510"
definition REGISTER_PRODUCTION_YEAR :: u16 where "REGISTER_PRODUCTION_YEAR = 514"
definition REGISTER_FIRMWARE_VERSION :: u16 where "REGISTER_FIRMWARE_VERSION = 500"

definition firmware_string :: "u16 list \<Rightarrow> string" where
  "firmware_string r =
     [chr_of (drop_bit 8 (r ! 0)), chr_of (r ! 0 AND 0xFF), chr_of (drop_bit 8 (r ! 1)), CHR ''-''] @
     dec_byte (r ! 1 AND 0xFF) @ ''.'' @ dec_byte (drop_bit 8 (r ! 2)) @ ''.'' @ dec_byte (r ! 2 AND 0xFF)"

text \<open>The serial number is computed in \<^verbatim>\<open>int\<close>: it overflows from \<open>2 ^ 31\<close> on.\<close>

definition serial_value :: "u16 list \<Rightarrow> nat" where
  "serial_value r = unat (drop_bit 8 (r ! 3)) * 256 * 256 * 256 + unat (r ! 3 AND 0xFF) * 256 * 256 +
     unat (drop_bit 8 (r ! 2)) * 256 + unat (r ! 2 AND 0xFF)"

definition serial_string :: "u16 list \<Rightarrow> rq_fault + string" where
  "serial_string r =
     (if serial_value r \<ge> 2 ^ 31 then Inl Signed_overflow
      else if serial_value r = 0 then Inr ''UNKNOWN''
      else Inr ([chr_of (drop_bit 8 (r ! 0)), chr_of (r ! 0 AND 0xFF), chr_of (drop_bit 8 (r ! 1)), CHR ''-''] @
        dec4 (serial_value r)))"

definition read_firmware_version :: "rq_com \<Rightarrow> rq_fault + rq_com" where
  "read_firmware_version c =
     (case rq_com_send_fc_03 REGISTER_FIRMWARE_VERSION 6 c of
        Inl e \<Rightarrow> Inl e
      | Inr (None, c1) \<Rightarrow> Inr c1
      | Inr (Some r, c1) \<Rightarrow> Inr (c1\<lparr>rq_str_firmware_version := firmware_string r\<rparr>))"

definition read_production_year :: "rq_com \<Rightarrow> rq_fault + rq_com" where
  "read_production_year c =
     (case rq_com_send_fc_03 REGISTER_PRODUCTION_YEAR 2 c of
        Inl e \<Rightarrow> Inl e
      | Inr (None, c1) \<Rightarrow> Inr c1
      | Inr (Some r, c1) \<Rightarrow> Inr (c1\<lparr>rq_str_production_year := dec (unat (r ! 0))\<rparr>))"

definition read_serial_number :: "rq_com \<Rightarrow> rq_fault + rq_com" where
  "read_serial_number c =
     (case rq_com_send_fc_03 REGISTER_SERIAL_NUMBER 8 c of
        Inl e \<Rightarrow> Inl e
      | Inr (None, c1) \<Rightarrow> Inr c1
      | Inr (Some r, c1) \<Rightarrow>
          (case serial_string r of Inl e \<Rightarrow> Inl e | Inr s \<Rightarrow> Inr (c1\<lparr>rq_str_serial_number := s\<rparr>)))"

definition rq_sensor_com_read_info_high_lvl :: "rq_com \<Rightarrow> rq_fault + rq_com" where
  "rq_sensor_com_read_info_high_lvl c =
     (case read_firmware_version c of
        Inl e \<Rightarrow> Inl e
      | Inr c1 \<Rightarrow> (case read_production_year c1 of Inl e \<Rightarrow> Inl e | Inr c2 \<Rightarrow> read_serial_number c2))"

section \<open>Starting and stopping the stream\<close>

definition rq_com_send_jam_signal :: "rq_com \<Rightarrow> rq_com" where
  "rq_com_send_jam_signal c = rq_com_write_port (replicate 50 0xFF) c"

partial_function (option) rq_com_stop_stream_after_boot :: "rq_com \<Rightarrow> rq_com option" where
  "rq_com_stop_stream_after_boot c =
     (if rq_stream_detected c then
        (let c1 = c\<lparr>rq_jam_counter := rq_jam_counter c + 1\<rparr> in
         rq_com_stop_stream_after_boot
           (if rq_jam_counter c1 = 1 then rq_com_send_jam_signal c1
            else (rq_com_listen_stream c1)\<lparr>rq_jam_counter := 0\<rparr>))
      else Some c)"

text \<open>The loop after a failed request. \<^verbatim>\<open>retries\<close> is not changed in it.\<close>

partial_function (option) start_stream_loop :: "nat \<Rightarrow> rq_com \<Rightarrow> (int \<times> rq_com) option" where
  "start_stream_loop retries c =
     (if retries < 5 then
        (let c1 = rq_com_listen_stream c in
         if rq_stream_detected c1 then Some (0, c1) else start_stream_loop retries c1)
      else Some (-1, c))"

definition rq_com_start_stream :: "rq_com \<Rightarrow> (rq_fault + int \<times> rq_com) option" where
  "rq_com_start_stream c =
     (case rq_com_send_fc_16 REGISTER_SELECT_OUTPUT 2 [0x0200] c of
        Inl e \<Rightarrow> Some (Inl e)
      | Inr (True, c1) \<Rightarrow> Some (Inr (0, c1))
      | Inr (False, c1) \<Rightarrow> map_option Inr (start_stream_loop 0 c1))"

section \<open>Discovery\<close>

fun listen_until_detected :: "nat \<Rightarrow> rq_com \<Rightarrow> rq_com" where
  "listen_until_detected 0 c = c"
| "listen_until_detected (Suc k) c =
     (if \<not> rq_stream_detected c then listen_until_detected k (rq_com_listen_stream c) else c)"

text \<open>The result is whether the device is a sensor.\<close>

definition rq_com_tentative_connexion :: "rq_com \<Rightarrow> (rq_fault + bool \<times> rq_com) option" where
  "rq_com_tentative_connexion c =
     (let c1 = rq_com_listen_stream (listen_until_detected 5 c) in
      case (if rq_stream_detected c1 then rq_com_stop_stream_after_boot c1 else Some c1) of
        None \<Rightarrow> None
      | Some c2 \<Rightarrow> Some
          (case rq_com_send_fc_03 REGISTER_FIRMWARE_VERSION 2 c2 of
             Inl e \<Rightarrow> Inl e
           | Inr (None, c3) \<Rightarrow> Inr (False, c3)
           | Inr (Some firmware_version, c3) \<Rightarrow> Inr (drop_bit 8 (firmware_version ! 0) = 70, c3)))"

text \<open>What the operating system answers for one device: the result of \<^verbatim>\<open>open\<close>, the attributes of
  \<^verbatim>\<open>tcgetattr\<close> if it succeeds, and whether \<^verbatim>\<open>tcsetattr\<close> succeeds. The flag values are those of Linux.\<close>

record rq_device =
  dev_fd :: int
  dev_tty :: "termios option"
  dev_set_ok :: bool

definition serial_attributes :: "termios \<Rightarrow> termios" where
  "serial_attributes tty = tty
     \<lparr>c_ospeed := 19200, c_ispeed := 19200,
      c_cflag := (((c_cflag tty OR (0x800 OR 0x80)) AND NOT 0x30 OR 0x30) AND NOT 0x40) AND NOT 0x100,
      c_lflag := c_lflag tty AND NOT (2 OR 8 OR 0x10 OR 1),
      c_iflag := (c_iflag tty AND NOT 0x100 AND NOT 0x10) AND NOT (0x400 OR 0x1000 OR 0x800),
      c_vmin := 0, c_vtime := 1\<rparr>"

definition set_com_attribs :: "rq_device \<Rightarrow> int \<times> termios option" where
  "set_com_attribs dev =
     (case dev_tty dev of
        None \<Rightarrow> (-1, None)
      | Some tty \<Rightarrow> if \<not> dev_set_ok dev then (-1, Some tty) else (0, Some (serial_attributes tty)))"

definition rq_com_identify_device :: "string \<Rightarrow> rq_device \<Rightarrow> rq_com \<Rightarrow> (rq_fault + bool \<times> rq_com) option" where
  "rq_com_identify_device d_name dev c =
     (if length (''/dev/'' @ d_name) + 1 > 20 \<or> length (''/dev/'' @ d_name) + 1 > 15 then Some (Inl Out_of_bounds)
      else
        (let c1 = c\<lparr>rq_fd_connexion := dev_fd dev\<rparr>;
             close = (\<lambda>c. c\<lparr>rq_closed := rq_closed c @ [rq_fd_connexion c]\<rparr>) in
         if dev_fd dev = -1 then Some (Inr (False, c1))
         else if fst (set_com_attribs dev) = -1 then Some (Inr (False, close c1))
         else
           (case rq_com_tentative_connexion c1 of
              None \<Rightarrow> None
            | Some (Inl e) \<Rightarrow> Some (Inl e)
            | Some (Inr (True, c2)) \<Rightarrow> Some (Inr (True, c2))
            | Some (Inr (False, c2)) \<Rightarrow> Some (Inr (False, close c2)))))"

fun c_strstr :: "string \<Rightarrow> string \<Rightarrow> bool" where
  "c_strstr [] pat = (pat = [])"
| "c_strstr (ch # s) pat = (take (length pat) (ch # s) = pat \<or> c_strstr s pat)"

fun scan_devices :: "(string \<times> rq_device) list \<Rightarrow> rq_com \<Rightarrow> (rq_fault + bool \<times> rq_com) option" where
  "scan_devices [] c = Some (Inr (False, c))"
| "scan_devices ((d_name, dev) # rest) c =
     (if c_strstr d_name ''ttyS'' \<or> c_strstr d_name ''ttyUSB'' then
        (case rq_com_identify_device d_name dev c of
           None \<Rightarrow> None
         | Some (Inl e) \<Rightarrow> Some (Inl e)
         | Some (Inr (True, c1)) \<Rightarrow> Some (Inr (True, c1))
         | Some (Inr (False, c1)) \<Rightarrow> scan_devices rest c1)
      else scan_devices rest c)"

text \<open>\<^verbatim>\<open>rq_sensor_com()\<close>: \<open>dir\<close> holds the entries of \<^verbatim>\<open>/sys/class/tty/\<close>, if it can be opened. The
  result is 0 or -1.\<close>

definition rq_sensor_com_scan :: "(string \<times> rq_device) list option \<Rightarrow> rq_com \<Rightarrow> (rq_fault + int \<times> rq_com) option" where
  "rq_sensor_com_scan dir c =
     (let c1 = c\<lparr>rq_closed := rq_closed c @ [rq_fd_connexion c]\<rparr> in
      case dir of
        None \<Rightarrow> Some (Inr (-1, c1))
      | Some entries \<Rightarrow>
          map_option (\<lambda>r. case r of Inl e \<Rightarrow> Inl e | Inr (found, c2) \<Rightarrow> Inr (if found then 0 else -1, c2))
            (scan_devices entries c1))"

text \<open>\<^verbatim>\<open>rq_sensor_com(ftdi_id)\<close>.\<close>

definition rq_sensor_com_at :: "string \<Rightarrow> rq_device \<Rightarrow> rq_com \<Rightarrow> (rq_fault + int \<times> rq_com) option" where
  "rq_sensor_com_at ftdi_id dev c =
     map_option (\<lambda>r. case r of Inl e \<Rightarrow> Inl e | Inr (found, c1) \<Rightarrow> Inr (if found then 0 else -1, c1))
       (rq_com_identify_device ftdi_id dev c)"

section \<open>Reading registers\<close>

definition read_bytes :: "u8 list option \<Rightarrow> u8 list" where
  "read_bytes r = (case r of None \<Rightarrow> [] | Some bs \<Rightarrow> bs)"

text \<open>The bytes collected for a reply are consecutive bytes of those that arrived.\<close>

definition collected :: "u8 list \<Rightarrow> rq_reply \<Rightarrow> bool" where
  "collected arrived r \<longleftrightarrow> length (rp_buf r) = MP_BUFF_SIZE \<and> 0 \<le> rp_length r \<and> rp_length r \<le> int MP_BUFF_SIZE \<and>
     (\<exists>before after. arrived = before @ take (nat (rp_length r)) (rp_buf r) @ after \<and>
        (after = [] \<or> rp_length r = int MP_BUFF_SIZE))"

text \<open>A reply to a read request: the function code, the checksum over all but the last two bytes, and
  the data it carries.\<close>

definition read_reply :: "u8 list \<Rightarrow> u8 list \<Rightarrow> bool" where
  "read_reply reply bs \<longleftrightarrow> 5 + length bs \<le> length reply \<and> reply ! 1 = 3 \<and> unat (reply ! 2) = length bs \<and>
     bs = take (length bs) (drop 3 reply) \<and>
     crc_of (take (length reply - 2) reply) = rq_uint16 (reply ! (length reply - 2)) (reply ! (length reply - 1))"

lemma collected_cleared: "length (rp_buf r) = MP_BUFF_SIZE \<Longrightarrow> rp_length r = 0 \<Longrightarrow> collected arrived r"
  by (auto simp: collected_def)

lemma reply_idle_collected:
  assumes "collected arrived r" shows "collected arrived (reply_idle r)"
proof -
  have "rp_length (reply_idle r) = rp_length r \<or> rp_length (reply_idle r) = 0" "rp_buf (reply_idle r) = rp_buf r"
    by (auto simp: reply_idle_def Let_def)
  then show ?thesis using assms collected_cleared [of "reply_idle r" arrived] unfolding collected_def by metis
qed

lemma reply_read_collected:
  assumes "collected arrived r" "reply_read r c = Inr ((ret, r'), c')"
  defines "r1 \<equiv> (if ret \<noteq> -1 then r'\<lparr>rp_length := rp_length r' + ret\<rparr> else r')"
  shows "collected (arrived @ read_bytes (shd (rq_reads c))) r1" "rq_reads c' = stl (rq_reads c)"
    "rq_written c' = rq_written c" "rq_reply_03 c' = rq_reply_03 c" "rq_reply_16 c' = rq_reply_16 c"
proof -
  let ?l = "nat (rp_length r)"
  obtain before after where inv: "length (rp_buf r) = MP_BUFF_SIZE" "0 \<le> rp_length r" "rp_length r \<le> int MP_BUFF_SIZE"
    "arrived = before @ take ?l (rp_buf r) @ after" "after = [] \<or> rp_length r = int MP_BUFF_SIZE"
    using assms(1) unfolding collected_def by blast
  have room: "nat (int MP_BUFF_SIZE - rp_length r) = MP_BUFF_SIZE - ?l" using inv(2) by linarith
  define bs where "bs = take (MP_BUFF_SIZE - ?l) (read_bytes (shd (rq_reads c)))"
  have rd: "rq_com_read_port (MP_BUFF_SIZE - ?l) c =
      ((if shd (rq_reads c) = None then -1 else int (length bs), bs), c\<lparr>rq_reads := stl (rq_reads c)\<rparr>)"
    by (auto simp: rq_com_read_port_def bs_def read_bytes_def split: option.split)
  have eq: "ret = (if shd (rq_reads c) = None then -1 else int (length bs))"
    "r' = r\<lparr>rp_buf := take ?l (rp_buf r) @ bs @ drop (?l + length bs) (rp_buf r)\<rparr>"
    "c' = c\<lparr>rq_reads := stl (rq_reads c)\<rparr>"
    using assms(2) inv(2) unfolding reply_read_def room rd by (auto simp: Let_def)
  then show "rq_reads c' = stl (rq_reads c)" "rq_written c' = rq_written c" "rq_reply_03 c' = rq_reply_03 c"
    "rq_reply_16 c' = rq_reply_16 c" by simp_all
  have lb: "length bs \<le> MP_BUFF_SIZE - ?l" by (simp add: bs_def)
  have ll: "?l \<le> MP_BUFF_SIZE" using inv(3) by linarith
  have none: "bs = []" if "shd (rq_reads c) = None" using that by (simp add: bs_def read_bytes_def)
  have buf: "rp_buf r1 = take ?l (rp_buf r) @ bs @ drop (?l + length bs) (rp_buf r)" "rp_length r1 = int (?l + length bs)"
    using inv(2) none by (auto simp: r1_def eq split: if_splits)
  have len: "length (rp_buf r1) = MP_BUFF_SIZE" using inv(1) ll lb by (simp add: buf(1))
  have tk: "take (nat (rp_length r1)) (rp_buf r1) = take ?l (rp_buf r) @ bs" using inv(1) ll by (simp add: buf)
  have bound: "0 \<le> rp_length r1" "rp_length r1 \<le> int MP_BUFF_SIZE" using lb ll unfolding buf(2) by linarith+
  show "collected (arrived @ read_bytes (shd (rq_reads c))) r1"
  proof (cases "after = []")
    case True
    have split: "read_bytes (shd (rq_reads c)) = bs @ drop (MP_BUFF_SIZE - ?l) (read_bytes (shd (rq_reads c)))"
      by (simp add: bs_def)
    have "drop (MP_BUFF_SIZE - ?l) (read_bytes (shd (rq_reads c))) = [] \<or> rp_length r1 = int MP_BUFF_SIZE"
      using ll by (auto simp: buf(2) bs_def)
    then show ?thesis unfolding collected_def tk
      by (intro conjI len bound exI [of _ before] exI [of _ "drop (MP_BUFF_SIZE - ?l) (read_bytes (shd (rq_reads c)))"])
        (use inv(4) True split in simp_all)
  next
    case False
    then have full: "rp_length r = int MP_BUFF_SIZE" using inv(5) by simp
    then have "bs = []" by (simp add: bs_def)
    then show ?thesis unfolding collected_def tk
      by (intro conjI len bound exI [of _ before] exI [of _ "after @ read_bytes (shd (rq_reads c))"])
        (use inv(4) full buf(2) in simp_all)
  qed
qed

lemma fc_03_decode_facts:
  assumes "collected arrived r" "fc_03_decode room r = Inr (bs, r')"
  shows "collected arrived r'" "bs \<noteq> [] \<Longrightarrow> length bs \<le> room \<and> (\<exists>reply. sublist reply arrived \<and> read_reply reply bs)"
proof -
  let ?n = "nat (rp_length r)" and ?buf = "rp_buf r"
  have len: "length ?buf = MP_BUFF_SIZE" "?n \<le> MP_BUFF_SIZE" using assms(1) by (auto simp: collected_def)
  show "collected arrived r'"
    using assms collected_cleared [of "r\<lparr>rp_length := 0\<rparr>"] collected_cleared [of "r\<lparr>rp_buf := ?buf[0 := 0], rp_length := 0\<rparr>"] len
    by (auto simp: fc_03_decode_def Let_def split: if_splits)
  assume ne: "bs \<noteq> []"
  then have d: "5 < rp_length r" "?buf ! 1 = 3" "5 + int (unat (?buf ! 2)) \<le> rp_length r" "crc_field_ok ?n ?buf"
    "unat (?buf ! 2) \<le> room" "bs = map (\<lambda>j. ?buf ! (j + 3)) [0..<unat (?buf ! 2)]"
    using assms(2) by (auto simp: fc_03_decode_def Let_def not_less split: if_splits)
  let ?reply = "take ?n ?buf"
  have n: "5 + unat (?buf ! 2) \<le> ?n" "5 < ?n" using d(1,3) by linarith+
  have "sublist ?reply arrived" using assms(1) by (auto simp: collected_def)
  moreover have "read_reply ?reply bs" unfolding read_reply_def
  proof (intro conjI)
    show "5 + length bs \<le> length ?reply" "?reply ! 1 = 3" "unat (?reply ! 2) = length bs"
      using d(2,6) n len by simp_all
    show "bs = take (length bs) (drop 3 ?reply)"
      using d(6) n len by (auto intro!: nth_equalityI simp: add.commute)
    have "nat (int ?n - 2) = ?n - 2" by linarith
    then show "crc_of (take (length ?reply - 2) ?reply) =
        rq_uint16 (?reply ! (length ?reply - 2)) (?reply ! (length ?reply - 1))"
      using d(4) n len by (simp add: crc_field_ok_def min_absorb1 del: min_less_iff_conj)
  qed
  ultimately show "length bs \<le> room \<and> (\<exists>reply. sublist reply arrived \<and> read_reply reply bs)" using d(5,6) by auto
qed

lemma fc_03_echo_facts:
  assumes "collected arrived (rq_reply_03 c)" "rq_com_wait_for_fc_03_echo room c = Inr (bs, c')"
  shows "collected (arrived @ read_bytes (shd (rq_reads c))) (rq_reply_03 c')" "rq_reads c' = stl (rq_reads c)"
    "rq_written c' = rq_written c" "bs \<noteq> [] \<Longrightarrow> length bs \<le> room \<and>
      (\<exists>reply. sublist reply (arrived @ read_bytes (shd (rq_reads c))) \<and> read_reply reply bs)"
proof -
  obtain ret r c1 where 1: "reply_read (rq_reply_03 c) c = Inr ((ret, r), c1)"
    using assms(2) by (auto simp: rq_com_wait_for_fc_03_echo_def split: sum.splits)
  define r1 where "r1 = (if ret \<noteq> -1 then r\<lparr>rp_length := rp_length r + ret\<rparr> else r)"
  obtain r2 where 2: "fc_03_decode room (reply_idle r1) = Inr (bs, r2)" and c': "c' = c1\<lparr>rq_reply_03 := r2\<rparr>"
    using assms(2) unfolding rq_com_wait_for_fc_03_echo_def 1 by (auto simp: r1_def [symmetric] Let_def split: sum.splits)
  note rr = reply_read_collected [OF assms(1) 1, folded r1_def]
  note df = fc_03_decode_facts [OF reply_idle_collected [OF rr(1)] 2]
  show "collected (arrived @ read_bytes (shd (rq_reads c))) (rq_reply_03 c')" "rq_reads c' = stl (rq_reads c)"
    "rq_written c' = rq_written c" "bs \<noteq> [] \<Longrightarrow> length bs \<le> room \<and>
      (\<exists>reply. sublist reply (arrived @ read_bytes (shd (rq_reads c))) \<and> read_reply reply bs)"
    using df rr by (simp_all add: c')
qed

lemma fc_03_retry_facts:
  assumes "collected arrived (rq_reply_03 c)" "fc_03_retry k room c = Inr (bs, c')"
  shows "rq_written c' = rq_written c \<and> (\<exists>m. collected (arrived @ concat (map read_bytes (stake m (rq_reads c)))) (rq_reply_03 c') \<and>
    (bs \<noteq> [] \<longrightarrow> length bs \<le> room \<and>
      (\<exists>reply. sublist reply (arrived @ concat (map read_bytes (stake m (rq_reads c)))) \<and> read_reply reply bs)))"
  using assms
proof (induction k arbitrary: arrived c)
  case 0
  then show ?case by (auto intro: exI [of _ 0])
next
  case (Suc k)
  obtain bs1 c1 where e: "rq_com_wait_for_fc_03_echo room c = Inr (bs1, c1)"
    using Suc.prems(2) by (auto split: sum.splits)
  note ef = fc_03_echo_facts [OF Suc.prems(1) e]
  show ?case
  proof (cases "bs1 = []")
    case True
    then have "fc_03_retry k room c1 = Inr (bs, c')" using Suc.prems(2) e by simp
    from Suc.IH [OF ef(1) this] obtain m where m: "rq_written c' = rq_written c1"
      "collected ((arrived @ read_bytes (shd (rq_reads c))) @ concat (map read_bytes (stake m (rq_reads c1)))) (rq_reply_03 c')"
      "bs \<noteq> [] \<longrightarrow> length bs \<le> room \<and> (\<exists>reply. sublist reply
         ((arrived @ read_bytes (shd (rq_reads c))) @ concat (map read_bytes (stake m (rq_reads c1)))) \<and> read_reply reply bs)"
      by blast
    have "(arrived @ read_bytes (shd (rq_reads c))) @ concat (map read_bytes (stake m (rq_reads c1))) =
        arrived @ concat (map read_bytes (stake (Suc m) (rq_reads c)))" using ef(2) by simp
    with m ef(3) show ?thesis by metis
  next
    case False
    then have "bs = bs1" "c' = c1" using Suc.prems(2) e by auto
    then show ?thesis using ef by (auto intro!: exI [of _ 1])
  qed
qed

text \<open>C28. What the driver takes for registers came from the sensor: a successful read wrote exactly the
  request frame, and the registers are the first data bytes, as big-endian pairs, of a reply that
  arrived as consecutive bytes, has the function code, a matching checksum, and at least as many data
  bytes as were asked for and no more than the caller's array holds. The start of the reply may have
  been left by an earlier read.\<close>

theorem registers_come_from_reply:
  assumes "rq_com_send_fc_03 base n c = Inr (Some regs, c')" and "collected left (rq_reply_03 c)"
  shows "rq_written c' = rq_written c @ [fc_03_frame base n] \<and> length regs = unat n div 2 \<and>
    (\<exists>m reply bs. sublist reply (left @ concat (map read_bytes (stake m (rq_reads c)))) \<and> read_reply reply bs \<and>
      2 * length regs \<le> length bs \<and> length bs \<le> unat n \<and>
      (\<forall>i < length regs. regs ! i = rq_uint16 (bs ! (2 * i + 1)) (bs ! (2 * i))))"
proof -
  let ?c = "rq_com_send_fc_03_request base n c"
  have c: "collected left (rq_reply_03 ?c)" "rq_written ?c = rq_written c @ [fc_03_frame base n]" "rq_reads ?c = rq_reads c"
    using assms(2) by (simp_all add: rq_com_send_fc_03_request_def rq_com_write_port_def)
  obtain bs where r: "fc_03_retry 100 (unat n) ?c = Inr (bs, c')" and b: "bs \<noteq> []" "2 * (unat n div 2) \<le> length bs"
    "regs = map (\<lambda>i. rq_uint16 (bs ! (2 * i + 1)) (bs ! (2 * i))) [0..<unat n div 2]"
    using assms(1) unfolding rq_com_send_fc_03_def by (auto split: sum.splits if_splits)
  from fc_03_retry_facts [OF c(1) r] b(1) obtain m reply where
    m: "rq_written c' = rq_written ?c" "length bs \<le> unat n"
      "sublist reply (left @ concat (map read_bytes (stake m (rq_reads c))))" "read_reply reply bs"
    unfolding c(3) by blast
  show ?thesis using m b(2) c(2) unfolding b(3) by auto
qed

section \<open>Faults\<close>

lemma crc_of_with_crc: "crc_field_ok (length (with_crc m)) (with_crc m)"
  by (simp add: crc_field_ok_def with_crc_def Let_def nth_append rq_uint16_bytes)

lemma take_with_crc: "length (with_crc m) = length m + 2"
  by (simp add: with_crc_def Let_def)

text \<open>A reply that arrives in one piece.\<close>

lemma fc_03_echo_prompt:
  assumes "rq_reply_03 c = demo_reply" "d \<noteq> []" "length d < 256"
    and "shd (rq_reads c) = Some (with_crc ([9, 3, of_nat (length d)] @ d))"
  shows "rq_com_wait_for_fc_03_echo room c =
    (if length d > room then Inl Out_of_bounds
     else Inr (d, c\<lparr>rq_reads := stl (rq_reads c), rq_reply_03 := rq_reply_03
       (snd (projr (rq_com_wait_for_fc_03_echo room c)))\<rparr>))"
proof -
  let ?f = "with_crc ([9, 3, of_nat (length d)] @ d)"
  have l: "length ?f = length d + 5" by (simp add: take_with_crc)
  define buf where "buf = ?f @ drop (length ?f) (replicate MP_BUFF_SIZE 0)"
  have "take MP_BUFF_SIZE ?f = ?f" using l assms(3) by (simp add: MP_BUFF_SIZE_def)
  then have r: "reply_read demo_reply c = Inr ((int (length ?f), demo_reply\<lparr>rp_buf := buf\<rparr>), c\<lparr>rq_reads := stl (rq_reads c)\<rparr>)"
    using assms(4) unfolding reply_read_def rq_com_read_port_def by (simp add: demo_reply_def buf_def Let_def)
  define r1 where "r1 = demo_reply\<lparr>rp_buf := buf, rp_length := int (length ?f), rp_old_length := int (length ?f)\<rparr>"
  have idle: "reply_idle (demo_reply\<lparr>rp_buf := buf, rp_length := int (length ?f)\<rparr>) = r1"
    using l by (simp add: reply_idle_def demo_reply_def Let_def r1_def)
  have b: "buf ! 1 = 3" "buf ! 2 = of_nat (length d)" by (simp_all add: buf_def with_crc_def Let_def nth_append)
  have "crc_field_ok (length ?f) buf = crc_field_ok (length ?f) ?f"
    using l by (simp add: crc_field_ok_def buf_def nth_append)
  then have crc: "crc_field_ok (length ?f) buf" using crc_of_with_crc by simp
  have n5: "nat (int (length d) + 5) = length d + 5" by linarith
  have u: "unat (of_nat (length d) :: u8) = length d" using assms(3) by (simp add: unsigned_of_nat take_bit_nat_eq_self)
  have data: "map (\<lambda>j. buf ! (j + 3)) [0..<length d] = d"
    by (rule nth_equalityI) (simp_all add: buf_def with_crc_def Let_def nth_append)
  have "fc_03_decode room r1 = (if length d > room then Inl Out_of_bounds
      else Inr (d, r1\<lparr>rp_buf := buf[0 := 0], rp_length := 0\<rparr>))"
    using assms(2) crc b u l n5 data by (auto simp: fc_03_decode_def Let_def r1_def)
  then show ?thesis
    using r idle by (simp add: rq_com_wait_for_fc_03_echo_def assms(1) demo_reply_def)
qed

lemma fc_03_prompt:
  assumes "rq_reply_03 c = demo_reply" "d \<noteq> []" "length d < 256"
    and "shd (rq_reads c) = Some (with_crc ([9, 3, of_nat (length d)] @ d))"
  shows "unat n < length d \<Longrightarrow> rq_com_send_fc_03 base n c = Inl Out_of_bounds"
    "unat n = length d \<Longrightarrow> \<exists>c'. rq_com_send_fc_03 base n c =
       Inr (Some (map (\<lambda>i. rq_uint16 (d ! (2 * i + 1)) (d ! (2 * i))) [0..<length d div 2]), c')"
proof -
  let ?c = "rq_com_send_fc_03_request base n c"
  have c: "rq_reply_03 ?c = demo_reply" "shd (rq_reads ?c) = Some (with_crc ([9, 3, of_nat (length d)] @ d))"
    using assms(1,4) by (simp_all add: rq_com_send_fc_03_request_def rq_com_write_port_def)
  note e = fc_03_echo_prompt [OF c(1) assms(2,3) c(2), of "unat n"]
  show "unat n < length d \<Longrightarrow> rq_com_send_fc_03 base n c = Inl Out_of_bounds"
    using e fc_03_retry.simps(2) [of 99 "unat n" ?c] by (simp add: rq_com_send_fc_03_def)
  assume n: "unat n = length d"
  obtain c1 where "rq_com_wait_for_fc_03_echo (unat n) ?c = Inr (d, c1)" using e n by auto
  then show "\<exists>c'. rq_com_send_fc_03 base n c =
       Inr (Some (map (\<lambda>i. rq_uint16 (d ! (2 * i + 1)) (d ! (2 * i))) [0..<length d div 2]), c')"
    using assms(2) n fc_03_retry.simps(2) [of 99 "unat n" ?c] by (simp add: rq_com_send_fc_03_def)
qed

text \<open>C29. Two replies make the driver write outside its arrays: a well-formed reply to a read that
  carries more data than was asked for is copied whole into the array of the requested size; and
  after a read error the length of the write acknowledgement is -1, so that the next byte is stored
  before the buffer.\<close>

theorem bad_replies_corrupt_memory:
  assumes "rq_reply_03 c = demo_reply" "unat n < length d" "length d < 256"
    and "shd (rq_reads c) = Some (with_crc ([9, 3, of_nat (length d)] @ d))"
    and "rq_reply_16 c1 = demo_reply" "rq_reads c1 = None ## Some (b # bs) ## rest"
  shows "rq_com_send_fc_03 base n c = Inl Out_of_bounds \<and> rq_com_send_fc_16 addr 2 [data] c1 = Inl Out_of_bounds"
proof
  have "d \<noteq> []" using assms(2) by auto
  then show "rq_com_send_fc_03 base n c = Inl Out_of_bounds" using fc_03_prompt(1) [OF assms(1) _ assms(3,4,2)] by blast
next
  define c2 where "c2 = rq_com_write_port (fc_16_frame addr (map (\<lambda>i. if i mod 2 = 0 then ucast (drop_bit 8 ([data] ! (i div 2)))
      else ucast ([data] ! (i div 2) AND 0xFF)) [0..<2])) c1"
  have c2: "rq_reply_16 c2 = demo_reply" "rq_reads c2 = None ## Some (b # bs) ## rest"
    using assms(5,6) by (simp_all add: c2_def rq_com_write_port_def)
  define r where "r = demo_reply\<lparr>rp_length := -1, rp_old_length := -1\<rparr>"
  define c3 where "c3 = c2\<lparr>rq_reads := Some (b # bs) ## rest, rq_reply_16 := r\<rparr>"
  have 1: "rq_com_wait_for_fc_16_echo c2 = Inr (False, c3)"
    unfolding rq_com_wait_for_fc_16_echo_def reply_read_def rq_com_read_port_def c2 c3_def r_def
    by (simp add: demo_reply_def reply_idle_def Let_def fc_16_decode_def)
  have 2: "rq_com_wait_for_fc_16_echo c3 = Inl Out_of_bounds"
    unfolding rq_com_wait_for_fc_16_echo_def reply_read_def rq_com_read_port_def c3_def r_def
    by (simp add: demo_reply_def MP_BUFF_SIZE_def)
  have "length (fc_16_frame addr bs) \<le> MP_BUFF_SIZE" if "length bs = 2" for bs
    using that by (simp add: fc_16_frame_def Let_def take_with_crc MP_BUFF_SIZE_def)
  then have "rq_com_send_fc_16_request addr (map (\<lambda>i. if i mod 2 = 0 then ucast (drop_bit 8 ([data] ! (i div 2)))
      else ucast ([data] ! (i div 2) AND 0xFF)) [0..<2]) c1 = Inr c2"
    by (simp add: rq_com_send_fc_16_request_def c2_def not_less)
  then show "rq_com_send_fc_16 addr 2 [data] c1 = Inl Out_of_bounds"
    unfolding rq_com_send_fc_16_def Let_def using 1 2 fc_16_retry.simps(2) [of 99 c2] fc_16_retry.simps(2) [of 98 c3] by simp
qed

section \<open>Starting the stream\<close>

definition silent_port :: "rq_com \<Rightarrow> bool" where
  "silent_port c \<longleftrightarrow> rq_reads c = sconst (Some [])"

lemma same_fields:
  "rp_length r = n \<Longrightarrow> r\<lparr>rp_length := n\<rparr> = r" "r\<lparr>rp_buf := rp_buf r\<rparr> = r" "rq_reads c = s \<Longrightarrow> c\<lparr>rq_reads := s\<rparr> = c"
  by (cases r; simp)+

lemma fc_16_retry_silent:
  assumes "silent_port c" "rp_length (rq_reply_16 c) = 0" "rp_old_length (rq_reply_16 c) = 0"
  shows "\<exists>c'. fc_16_retry k c = Inr (False, c') \<and> silent_port c' \<and> (rq_wf c \<longrightarrow> rq_wf c') \<and>
    rq_stream_detected c' = rq_stream_detected c"
  using assms
proof (induction k arbitrary: c)
  case (Suc k)
  define r where "r = reply_idle (rq_reply_16 c)"
  have r: "rp_length r = 0" "rp_old_length r = 0" using Suc.prems(2,3) by (auto simp: r_def reply_idle_def Let_def)
  have p: "reply_read (rq_reply_16 c) c = Inr ((0, rq_reply_16 c), c)"
    using Suc.prems by (simp add: reply_read_def rq_com_read_port_def silent_port_def Let_def same_fields)
  have "fc_16_decode r = (False, r)" using r(1) by (simp add: fc_16_decode_def)
  then have "rq_com_wait_for_fc_16_echo c = Inr (False, c\<lparr>rq_reply_16 := r\<rparr>)"
    using Suc.prems(2) by (simp add: rq_com_wait_for_fc_16_echo_def p same_fields r_def [symmetric])
  moreover have "silent_port (c\<lparr>rq_reply_16 := r\<rparr>)" using Suc.prems(1) by (simp add: silent_port_def)
  ultimately show ?case using Suc.IH [of "c\<lparr>rq_reply_16 := r\<rparr>"] r by (auto simp: rq_wf_def)
qed auto

lemma listen_silent_port:
  assumes "rq_wf c" "silent_port c"
  shows "rq_wf (rq_com_listen_stream c)" "silent_port (rq_com_listen_stream c)"
    "rq_stream_detected (rq_com_listen_stream c) \<longleftrightarrow> rq_stream_detected c \<and> rq_timer_for_stream_detection c \<le> 20"
    "rq_timer_for_stream_detection (rq_com_listen_stream c) =
       (if rq_timer_for_stream_detection c > 20 then 20 else rq_timer_for_stream_detection c + 1)"
  using listen_silence [OF assms(1) silent_bytes] assms(2) by (simp_all add: silent_port_def silent_def)

lemma start_stream_loop_result:
  assumes "start_stream_loop k c = Some q"
  shows "k < 5 \<longrightarrow> fst q = 0 \<and> \<not> (rq_wf c \<and> silent_port c \<and> \<not> rq_stream_detected c)"
proof (rule start_stream_loop.raw_induct [where P =
      "\<lambda>k c q. k < 5 \<longrightarrow> fst q = 0 \<and> \<not> (rq_wf c \<and> silent_port c \<and> \<not> rq_stream_detected c)", OF _ assms])
  fix f :: "nat \<Rightarrow> rq_com \<Rightarrow> (int \<times> rq_com) option" and k c q
  let ?c = "rq_com_listen_stream c"
  assume IH: "\<And>k c q. f k c = Some q \<Longrightarrow> k < 5 \<longrightarrow> fst q = 0 \<and> \<not> (rq_wf c \<and> silent_port c \<and> \<not> rq_stream_detected c)"
    and eq: "(if k < 5 then let c1 = ?c in if rq_stream_detected c1 then Some (0, c1) else f k c1 else Some (-1, c)) = Some q"
  show "k < 5 \<longrightarrow> fst q = 0 \<and> \<not> (rq_wf c \<and> silent_port c \<and> \<not> rq_stream_detected c)"
  proof
    assume k: "k < 5"
    show "fst q = 0 \<and> \<not> (rq_wf c \<and> silent_port c \<and> \<not> rq_stream_detected c)"
    proof (cases "rq_stream_detected ?c")
      case True
      then show ?thesis using eq k listen_silent_port(3) [of c] by (auto simp: Let_def)
    next
      case False
      then have "f k ?c = Some q" using eq k by (simp add: Let_def)
      from IH [OF this] k False show ?thesis using listen_silent_port(1,2) [of c] by blast
    qed
  qed
qed

text \<open>Starting the stream never fails and may never end: whenever \<^verbatim>\<open>rq_com_start_stream\<close> returns, it
  returns 0, because the loop after a failed request does not count its retries; on a port where
  nothing answers and no stream runs it does not return at all.\<close>

theorem start_stream_never_fails:
  "(rq_com_start_stream c = Some (Inr (r, c')) \<longrightarrow> r = 0) \<and>
   (rq_wf c \<and> silent_port c \<and> \<not> rq_stream_detected c \<and> rp_length (rq_reply_16 c) = 0 \<and>
      rp_old_length (rq_reply_16 c) = 0 \<longrightarrow> rq_com_start_stream c = None)"
proof (intro conjI impI)
  assume "rq_com_start_stream c = Some (Inr (r, c'))"
  then show "r = 0" using start_stream_loop_result [of 0]
    by (fastforce simp: rq_com_start_stream_def split: sum.splits bool.splits)
next
  assume a: "rq_wf c \<and> silent_port c \<and> \<not> rq_stream_detected c \<and> rp_length (rq_reply_16 c) = 0 \<and> rp_old_length (rq_reply_16 c) = 0"
  define c1 where "c1 = rq_com_write_port (fc_16_frame REGISTER_SELECT_OUTPUT (map (\<lambda>i. if i mod 2 = 0
      then ucast (drop_bit 8 ([0x0200 :: u16] ! (i div 2))) else ucast ([0x0200 :: u16] ! (i div 2) AND 0xFF)) [0..<2])) c"
  have "length (fc_16_frame REGISTER_SELECT_OUTPUT bs) \<le> MP_BUFF_SIZE" if "length bs = 2" for bs
    using that by (simp add: fc_16_frame_def Let_def take_with_crc MP_BUFF_SIZE_def)
  then have s: "rq_com_send_fc_16 REGISTER_SELECT_OUTPUT 2 [0x0200] c = fc_16_retry 100 c1"
    by (simp add: rq_com_send_fc_16_def rq_com_send_fc_16_request_def Let_def c1_def leD)
  have c1: "silent_port c1" "rp_length (rq_reply_16 c1) = 0" "rp_old_length (rq_reply_16 c1) = 0" "rq_wf c1"
    "\<not> rq_stream_detected c1"
    using a by (auto simp: c1_def rq_com_write_port_def silent_port_def rq_wf_def)
  obtain c2 where r: "fc_16_retry 100 c1 = Inr (False, c2)" and c2: "silent_port c2" "rq_wf c2" "\<not> rq_stream_detected c2"
    using fc_16_retry_silent [OF c1(1-3), of 100] c1(4,5) by blast
  then have "start_stream_loop 0 c2 = None" using start_stream_loop_result [of 0 c2] by (cases "start_stream_loop 0 c2") auto
  with r show "rq_com_start_stream c = None" unfolding rq_com_start_stream_def s by simp
qed

text \<open>Stopping the stream after boot, in contrast, ends on a port that has fallen silent.\<close>

lemma stop_stream_returns:
  assumes "rq_wf c" "silent_port c"
  shows "\<exists>c'. rq_com_stop_stream_after_boot c = Some c' \<and> \<not> rq_stream_detected c'"
  using assms
proof (induction "2 * nat (22 - rq_timer_for_stream_detection c) + (if rq_jam_counter c = 0 then 1 else 0) +
    (if rq_stream_detected c then 10 else 0)" arbitrary: c rule: less_induct)
  case less
  show ?case
  proof (cases "rq_stream_detected c")
    case False
    then show ?thesis by (subst rq_com_stop_stream_after_boot.simps) simp
  next
    case True
    define c1 where "c1 = c\<lparr>rq_jam_counter := rq_jam_counter c + 1\<rparr>"
    have c1: "rq_wf c1" "silent_port c1" "rq_stream_detected c1"
      "rq_timer_for_stream_detection c1 = rq_timer_for_stream_detection c"
      using less.prems True by (simp_all add: c1_def rq_wf_def silent_port_def)
    let ?n = "if rq_jam_counter c1 = 1 then rq_com_send_jam_signal c1 else (rq_com_listen_stream c1)\<lparr>rq_jam_counter := 0\<rparr>"
    have "\<exists>c'. rq_com_stop_stream_after_boot ?n = Some c' \<and> \<not> rq_stream_detected c'"
    proof (rule less.hyps)
      show "rq_wf ?n" "silent_port ?n"
        using c1 listen_silent_port [OF c1(1,2)]
        by (auto simp: rq_com_send_jam_signal_def rq_com_write_port_def rq_wf_def silent_port_def)
      show "2 * nat (22 - rq_timer_for_stream_detection ?n) + (if rq_jam_counter ?n = 0 then 1 else 0) +
          (if rq_stream_detected ?n then 10 else 0) < 2 * nat (22 - rq_timer_for_stream_detection c) +
          (if rq_jam_counter c = 0 then 1 else 0) + (if rq_stream_detected c then 10 else 0)"
        using True listen_silent_port(3,4) [OF c1(1,2)] c1(3,4)
        by (auto simp: rq_com_send_jam_signal_def rq_com_write_port_def c1_def)
    qed
    then show ?thesis using True by (subst rq_com_stop_stream_after_boot.simps) (simp add: Let_def c1_def split: if_splits)
  qed
qed

section \<open>Information strings fit\<close>

lemma dec_length: "n < 10 ^ Suc k \<Longrightarrow> length (dec n) \<le> Suc k"
proof (induction k arbitrary: n)
  case 0
  then show ?case by (subst dec.simps) simp
next
  case (Suc k)
  then have "n div 10 < 10 ^ Suc k" by simp
  from Suc.IH [OF this] show ?case by (subst dec.simps) simp
qed

lemma information_strings_fit:
  "length (firmware_string r) < 20" "length (dec (unat (x :: u16))) < 20"
  "serial_string r = Inr s \<Longrightarrow> length s < 20"
proof -
  have b: "length (dec_byte x) \<le> 3" for x
    using dec_length [of "unat (ucast x :: u8)" 2] unat_u8_less [of "ucast x"] by (simp add: dec_byte_def)
  show "length (firmware_string r) < 20"
    using b [of "r ! 1 AND 0xFF"] b [of "drop_bit 8 (r ! 2)"] b [of "r ! 2 AND 0xFF"] by (simp add: firmware_string_def)
  show "length (dec (unat (x :: u16))) < 20" using dec_length [of "unat x" 4] unat_u16_less [of x] by simp
  assume s: "serial_string r = Inr s"
  have "length (dec (serial_value r)) \<le> 10" if "serial_value r < 2 ^ 31" using that dec_length [of "serial_value r" 9] by simp
  then show "length s < 20" using s by (auto simp: serial_string_def dec4_def not_le split: if_splits)
qed

section \<open>Concrete runs\<close>

theorem registers_come_from_reply_witness:
  "\<exists>c'. rq_com_send_fc_03 500 2 (rq_com_initial (Some (with_crc [9, 3, 2, 0x46, 0x54]) ## sconst None)) =
     Inr (Some [rq_uint16 0x54 0x46], c') \<and> rq_written c' = [fc_03_frame 500 2]"
proof -
  let ?c = "rq_com_initial (Some (with_crc [9, 3, 2, 0x46, 0x54]) ## sconst None)"
  have c: "rq_reply_03 ?c = demo_reply" "rq_written ?c = []" by (simp_all add: rq_com_initial_def)
  then have "collected [] (rq_reply_03 ?c)" by (simp add: collected_def demo_reply_def)
  moreover obtain c' where p: "rq_com_send_fc_03 500 2 ?c = Inr (Some [rq_uint16 0x54 0x46], c')"
    using fc_03_prompt(2) [OF c(1), of "[0x46, 0x54]" 2 500] by (auto simp: rq_com_initial_def)
  ultimately show ?thesis using registers_come_from_reply [OF p, of "[]"] c(2) by auto
qed

theorem bad_replies_corrupt_memory_witness:
  "rq_com_send_fc_03 500 2 (rq_com_initial (Some (with_crc [9, 3, 4, 0, 0, 0, 0]) ## sconst None)) = Inl Out_of_bounds \<and>
   rq_com_send_fc_16 410 2 [0x0200] (rq_com_initial (None ## Some [9] ## sconst None)) = Inl Out_of_bounds"
  by (rule bad_replies_corrupt_memory [where d = "[0, 0, 0, 0]" and b = 9 and bs = "[]" and rest = "sconst None"])
    (simp_all add: rq_com_initial_def)

theorem start_stream_never_fails_witness:
  "rq_com_start_stream (rq_com_initial (sconst (Some []))) = None"
  using start_stream_never_fails [of "rq_com_initial (sconst (Some []))"] rq_com_initial_wf
  by (simp add: silent_port_def rq_com_initial_def demo_reply_def)

end
