(* ===== verification/Rq_Sensor_State.thy ===== *)
theory Rq_Sensor_State
  imports Rq_Sensor_Modbus
begin

text \<open>
  The state machine of the force/torque sensor driver,
  \<^verbatim>\<open>robotiq_ft_sensor_hardware/src/rq_sensor_state.cpp\<close>, over the communication layer. Every attempt
  to connect takes the next entry of a script: what the directory of serial devices holds, or what
  the system answers for the configured device. The number of retries is an \<^verbatim>\<open>unsigned int\<close>.
\<close>

datatype rq_sensor_state_values = RQ_STATE_INIT | RQ_STATE_READ_INFO | RQ_STATE_START_STREAM | RQ_STATE_RUN

record rq_sensor =
  rs_current_state :: rq_sensor_state_values
  rs_retries :: u32
  rs_com :: rq_com
  rs_directories :: "(string \<times> rq_device) list option stream"
  rs_devices :: "rq_device stream"

definition rq_state_init_com_scan :: "rq_sensor \<Rightarrow> (rq_fault + int \<times> rq_sensor) option" where
  "rq_state_init_com_scan s =
     (let s1 = s\<lparr>rs_directories := stl (rs_directories s)\<rparr> in
      map_option
        (\<lambda>r. case r of
           Inl e \<Rightarrow> Inl e
         | Inr (ret, com) \<Rightarrow>
             (if ret = -1 then Inr (-1, s1\<lparr>rs_com := com\<rparr>)
              else Inr (0, s1\<lparr>rs_com := com, rs_current_state := RQ_STATE_READ_INFO\<rparr>)))
        (rq_sensor_com_scan (shd (rs_directories s)) (rs_com s)))"

definition rq_state_init_com_at :: "string \<Rightarrow> rq_sensor \<Rightarrow> (rq_fault + int \<times> rq_sensor) option" where
  "rq_state_init_com_at ftdi_id s =
     (let s1 = s\<lparr>rs_devices := stl (rs_devices s)\<rparr> in
      map_option
        (\<lambda>r. case r of
           Inl e \<Rightarrow> Inl e
         | Inr (ret, com) \<Rightarrow>
             (if ret = -1 then Inr (-1, s1\<lparr>rs_com := com\<rparr>)
              else Inr (0, s1\<lparr>rs_com := com, rs_current_state := RQ_STATE_READ_INFO\<rparr>)))
        (rq_sensor_com_at ftdi_id (shd (rs_devices s)) (rs_com s)))"

definition rq_state_read_info_high_lvl :: "rq_sensor \<Rightarrow> rq_fault + rq_sensor" where
  "rq_state_read_info_high_lvl s =
     (case rq_sensor_com_read_info_high_lvl (rs_com s) of
        Inl e \<Rightarrow> Inl e
      | Inr com \<Rightarrow> Inr (s\<lparr>rs_com := com, rs_current_state := RQ_STATE_START_STREAM\<rparr>))"

definition rq_state_start_stream :: "rq_sensor \<Rightarrow> (rq_fault + rq_sensor) option" where
  "rq_state_start_stream s =
     map_option
       (\<lambda>r. case r of
          Inl e \<Rightarrow> Inl e
        | Inr (ret, com) \<Rightarrow>
            (let s1 = (if ret = -1 then s\<lparr>rs_com := com, rs_current_state := RQ_STATE_INIT\<rparr> else s\<lparr>rs_com := com\<rparr>) in
             Inr (s1\<lparr>rs_current_state := RQ_STATE_RUN\<rparr>)))
       (rq_com_start_stream (rs_com s))"

definition rq_state_run :: "u32 \<Rightarrow> rq_sensor \<Rightarrow> rq_sensor" where
  "rq_state_run max_retries s =
     (let s1 = s\<lparr>rs_com := rq_com_listen_stream (rs_com s)\<rparr> in
      if \<not> rq_com_get_valid_stream (rs_com s1) then
        (let s2 = s1\<lparr>rs_retries := rs_retries s1 + 1\<rparr> in
         if rs_retries s2 \<ge> max_retries then s2\<lparr>rs_current_state := RQ_STATE_INIT, rs_retries := 0\<rparr> else s2)
      else s1\<lparr>rs_retries := 0\<rparr>)"

text \<open>The two forms of \<^verbatim>\<open>rq_sensor_state\<close> differ in how they connect.\<close>

definition rq_sensor_step ::
  "(rq_sensor \<Rightarrow> (rq_fault + int \<times> rq_sensor) option) \<Rightarrow> u32 \<Rightarrow> rq_sensor \<Rightarrow> (rq_fault + int \<times> rq_sensor) option" where
  "rq_sensor_step init_com max_retries s =
     (case rs_current_state s of
        RQ_STATE_INIT \<Rightarrow> init_com s
      | RQ_STATE_READ_INFO \<Rightarrow>
          Some (case rq_state_read_info_high_lvl s of Inl e \<Rightarrow> Inl e | Inr s1 \<Rightarrow> Inr (0, s1))
      | RQ_STATE_START_STREAM \<Rightarrow>
          map_option (\<lambda>r. case r of Inl e \<Rightarrow> Inl e | Inr s1 \<Rightarrow> Inr (0, s1)) (rq_state_start_stream s)
      | RQ_STATE_RUN \<Rightarrow> Some (Inr (0, rq_state_run max_retries s)))"

definition rq_sensor_state_scan :: "u32 \<Rightarrow> rq_sensor \<Rightarrow> (rq_fault + int \<times> rq_sensor) option" where
  "rq_sensor_state_scan max_retries s = rq_sensor_step rq_state_init_com_scan max_retries s"

definition rq_sensor_state_at :: "u32 \<Rightarrow> string \<Rightarrow> rq_sensor \<Rightarrow> (rq_fault + int \<times> rq_sensor) option" where
  "rq_sensor_state_at max_retries ftdi_id s = rq_sensor_step (rq_state_init_com_at ftdi_id) max_retries s"

section \<open>Accessors\<close>

definition rq_sensor_get_current_state :: "rq_sensor \<Rightarrow> rq_sensor_state_values" where
  "rq_sensor_get_current_state s = rs_current_state s"

definition rq_state_got_new_message :: "rq_sensor \<Rightarrow> bool \<times> rq_sensor" where
  "rq_state_got_new_message s =
     (case rq_com_got_new_message (rs_com s) of (b, com) \<Rightarrow> (b, s\<lparr>rs_com := com\<rparr>))"

definition rq_state_do_zero_force_flag :: "rq_sensor \<Rightarrow> rq_sensor" where
  "rq_state_do_zero_force_flag s = s\<lparr>rs_com := rq_com_do_zero_force_flag (rs_com s)\<rparr>"

definition rq_state_get_received_data :: "u8 \<Rightarrow> rq_sensor \<Rightarrow> rat" where
  "rq_state_get_received_data i s = (if i \<le> 5 then rq_com_get_received_data i (rs_com s) else 0)"

text \<open>The numeric command: the answer and whether the command is valid.\<close>

definition rq_state_get_command_id :: "u8 \<Rightarrow> rq_sensor \<Rightarrow> (string \<times> bool) \<times> rq_sensor" where
  "rq_state_get_command_id command s =
     (if command = 1 then ((rq_com_get_str_serial_number (rs_com s), True), s)
      else if command = 2 then ((rq_com_get_str_firmware_version (rs_com s), True), s)
      else if command = 4 then ((rq_com_get_str_production_year (rs_com s), True), s)
      else if command = 8 then ((''Done'', True), rq_state_do_zero_force_flag s)
      else ((''Unsupported command_id'', False), s))"

text \<open>The named command: the answer, or \<open>None\<close> where the buffer is not written.\<close>

definition rq_state_get_command_name :: "string \<Rightarrow> rq_sensor \<Rightarrow> string option" where
  "rq_state_get_command_name name s =
     (if c_strstr name ''SNU'' then Some (rq_com_get_str_serial_number (rs_com s))
      else if c_strstr name ''FWV'' then Some (rq_com_get_str_firmware_version (rs_com s))
      else if c_strstr name ''PYE'' then Some (rq_com_get_str_production_year (rs_com s))
      else None)"

section \<open>The state machine\<close>

definition may_follow :: "rq_sensor_state_values \<Rightarrow> rq_sensor_state_values \<Rightarrow> bool" where
  "may_follow a b \<longleftrightarrow> (a, b) \<in> {(RQ_STATE_INIT, RQ_STATE_INIT), (RQ_STATE_INIT, RQ_STATE_READ_INFO),
     (RQ_STATE_READ_INFO, RQ_STATE_START_STREAM), (RQ_STATE_START_STREAM, RQ_STATE_RUN),
     (RQ_STATE_RUN, RQ_STATE_RUN), (RQ_STATE_RUN, RQ_STATE_INIT)}"

lemma map_option_sum [simp]:
  "map_option (case_sum Inl g) x = Some (Inr y) \<longleftrightarrow> (\<exists>b. x = Some (Inr b) \<and> g b = Inr y)"
  by (cases x) (auto split: sum.splits)

lemma init_com_result:
  assumes "rq_state_init_com_scan s = Some (Inr (ret, s')) \<or> rq_state_init_com_at ftdi_id s = Some (Inr (ret, s'))"
  shows "ret = -1 \<and> rs_current_state s' = rs_current_state s \<or> ret = 0 \<and> rs_current_state s' = RQ_STATE_READ_INFO"
  using assms by (auto simp: rq_state_init_com_scan_def rq_state_init_com_at_def Let_def
      split: sum.splits if_splits iff del: map_option_eq_Some)

lemma state_run_result:
  "rs_current_state s = RQ_STATE_RUN \<Longrightarrow> rs_current_state (rq_state_run m s) \<in> {RQ_STATE_RUN, RQ_STATE_INIT}"
  by (simp add: rq_state_run_def Let_def)

lemma sensor_step_follows:
  assumes "rq_sensor_state_scan m s = Some (Inr (ret, s')) \<or> rq_sensor_state_at m ftdi_id s = Some (Inr (ret, s'))"
  shows "may_follow (rs_current_state s) (rs_current_state s')"
    "ret = -1 \<longleftrightarrow> rs_current_state s = RQ_STATE_INIT \<and> rs_current_state s' = RQ_STATE_INIT"
proof -
  have "may_follow (rs_current_state s) (rs_current_state s') \<and>
    (ret = -1 \<longleftrightarrow> rs_current_state s = RQ_STATE_INIT \<and> rs_current_state s' = RQ_STATE_INIT)"
  proof (cases "rs_current_state s")
    case RQ_STATE_INIT
    then show ?thesis using assms init_com_result [of s ret s' ftdi_id]
      by (auto simp: rq_sensor_state_scan_def rq_sensor_state_at_def rq_sensor_step_def may_follow_def)
  next
    case RQ_STATE_READ_INFO
    then show ?thesis using assms
      by (auto simp: rq_sensor_state_scan_def rq_sensor_state_at_def rq_sensor_step_def may_follow_def
          rq_state_read_info_high_lvl_def split: sum.splits)
  next
    case RQ_STATE_START_STREAM
    then show ?thesis using assms
      by (auto simp: rq_sensor_state_scan_def rq_sensor_state_at_def rq_sensor_step_def may_follow_def
          rq_state_start_stream_def Let_def split: sum.splits iff del: map_option_eq_Some)
  next
    case RQ_STATE_RUN
    then show ?thesis using assms state_run_result [OF RQ_STATE_RUN, of m]
      by (auto simp: rq_sensor_state_scan_def rq_sensor_state_at_def rq_sensor_step_def may_follow_def)
  qed
  then show "may_follow (rs_current_state s) (rs_current_state s')"
    "ret = -1 \<longleftrightarrow> rs_current_state s = RQ_STATE_INIT \<and> rs_current_state s' = RQ_STATE_INIT" by auto
qed

section \<open>A sensor that falls silent\<close>

lemma state_runs_silent:
  assumes "rq_wf (rs_com s)" "\<forall>k. silent (rq_reads (rs_com s) !! k)" "rq_timer_for_stream_detection (rs_com s) = 0"
    "rq_timer_for_valid_stream (rs_com s) = 0" "rq_valid_stream (rs_com s)" "rs_current_state s = RQ_STATE_RUN"
    "rs_retries s = 0" "n < 41 + unat m"
  shows "rs_com ((rq_state_run m ^^ n) s) = (rq_com_listen_stream ^^ n) (rs_com s) \<and>
    rs_current_state ((rq_state_run m ^^ n) s) = RQ_STATE_RUN \<and> rs_retries ((rq_state_run m ^^ n) s) = of_nat (n - 41)"
  using assms(8)
proof (induction n)
  case 0
  then show ?case using assms by simp
next
  case (Suc n)
  define t where "t = (rq_state_run m ^^ n) s"
  have i: "rs_com t = (rq_com_listen_stream ^^ n) (rs_com s)" "rs_current_state t = RQ_STATE_RUN"
    "rs_retries t = of_nat (n - 41)" using Suc by (auto simp: t_def)
  have st: "(rq_state_run m ^^ Suc n) s = rq_state_run m t" by (simp add: t_def)
  have v: "rq_valid_stream ((rq_com_listen_stream ^^ Suc n) (rs_com s)) \<longleftrightarrow> Suc n < 42"
    using listen_silences [of "rs_com s" "Suc n"] assms(1-5) by (simp split: if_splits)
  show ?case
  proof (cases "Suc n < 42")
    case True
    then show ?thesis unfolding st using v i by (simp add: rq_state_run_def Let_def rq_com_get_valid_stream_def)
  next
    case False
    have b: "n - 41 + 1 < unat m" using Suc.prems False by simp
    then have "n - 41 + 1 < 2 ^ 32" using unsigned_less [of m, where 'a = nat] by simp
    then have "unat (of_nat (n - 41 + 1) :: u32) = n - 41 + 1" by (simp only: unsigned_of_nat) (simp add: take_bit_nat_eq_self)
    then have "of_nat (n - 41 + 1) < m" using b by (simp add: word_less_nat_alt)
    moreover have "n - 41 + 1 = Suc n - 41" using False by simp
    moreover have "of_nat (n - 41) + 1 = (of_nat (n - 41 + 1) :: u32)" by (simp add: add.commute)
    ultimately show ?thesis unfolding st using v i False
      by (simp add: rq_state_run_def Let_def rq_com_get_valid_stream_def not_le)
  qed
qed

text \<open>C27. A sensor that falls silent is initialised again after a fixed time: from the last valid message
  on, \<^verbatim>\<open>rq_sensor_state\<close> stays in the running state for exactly 41 calls more than the configured
  number of retries allows, and the call after that returns it to the initial state with the retries
  cleared, whichever way it connects.\<close>

theorem silent_sensor_is_reinitialised:
  assumes "rq_wf (rs_com s)" "\<forall>k. silent (rq_reads (rs_com s) !! k)" "rq_timer_for_stream_detection (rs_com s) = 0"
    and "rq_timer_for_valid_stream (rs_com s) = 0" "rq_valid_stream (rs_com s)" "rs_current_state s = RQ_STATE_RUN"
    and "rs_retries s = 0" "0 < m" "n < 41 + unat m"
  defines "sn \<equiv> (rq_state_run m ^^ n) s"
  shows "rs_current_state sn = RQ_STATE_RUN \<and>
    rq_sensor_state_scan m sn = Some (Inr (0, rq_state_run m sn)) \<and>
    rq_sensor_state_at m ftdi_id sn = Some (Inr (0, rq_state_run m sn)) \<and>
    (n = 40 + unat m \<longrightarrow> rs_current_state (rq_state_run m sn) = RQ_STATE_INIT \<and> rs_retries (rq_state_run m sn) = 0)"
proof -
  note i = state_runs_silent [OF assms(1-7,9), folded sn_def]
  have "rs_current_state (rq_state_run m sn) = RQ_STATE_INIT \<and> rs_retries (rq_state_run m sn) = 0" if n: "n = 40 + unat m"
  proof -
    have pos: "0 < unat m" using assms(8) by (simp add: word_gt_0 unat_gt_0)
    have "\<not> rq_valid_stream ((rq_com_listen_stream ^^ Suc n) (rs_com s))"
      using listen_silences [of "rs_com s" "Suc n"] assms(1-5) n pos by (simp split: if_splits)
    moreover have "of_nat (n - 41) + 1 = m"
    proof -
      have "of_nat (n - 41) + 1 = (of_nat (Suc (n - 41)) :: u32)" by (simp add: add.commute)
      also have "Suc (n - 41) = unat m" using n pos by simp
      finally show ?thesis by simp
    qed
    ultimately show ?thesis using i by (simp add: rq_state_run_def Let_def rq_com_get_valid_stream_def)
  qed
  then show ?thesis using i by (simp add: rq_sensor_state_scan_def rq_sensor_state_at_def rq_sensor_step_def)
qed

definition demo_sensor :: rq_sensor where
  "demo_sensor = \<lparr>rs_current_state = RQ_STATE_RUN, rs_retries = 0,
     rs_com = (rq_com_initial (sconst None))\<lparr>rq_valid_stream := True\<rparr>, rs_directories = sconst None,
     rs_devices = sconst \<lparr>dev_fd = -1, dev_tty = None, dev_set_ok = False\<rparr>\<rparr>"

theorem silent_sensor_is_reinitialised_witness:
  "rs_current_state ((rq_state_run 100 ^^ 141) demo_sensor) = RQ_STATE_INIT"
proof -
  have "rq_wf (rs_com demo_sensor)" "\<forall>k. silent (rq_reads (rs_com demo_sensor) !! k)"
    "rq_timer_for_stream_detection (rs_com demo_sensor) = 0" "rq_timer_for_valid_stream (rs_com demo_sensor) = 0"
    "rq_valid_stream (rs_com demo_sensor)" "rs_current_state demo_sensor = RQ_STATE_RUN" "rs_retries demo_sensor = 0"
    "0 < (100 :: u32)" "140 < 41 + unat (100 :: u32)"
    by (simp_all add: demo_sensor_def rq_com_initial_def rq_wf_def silent_def)
  from silent_sensor_is_reinitialised [OF this, of "''ttyUSB0''"] show ?thesis
    using funpow.simps(2) [of 140 "rq_state_run 100"] by simp
qed

end
