(* ===== verification/Number_Parsing.thy ===== *)
theory Number_Parsing
  imports Fp
begin

text \<open>
  The conversions of the standard library that read the hardware parameters: \<^verbatim>\<open>std::stoi\<close>,
  \<^verbatim>\<open>std::stoul\<close> and \<^verbatim>\<open>std::stod\<close> in the C locale, with the exceptions they throw, and the lookup
  of a parameter.
\<close>

datatype conversion_error = Not_a_number | Number_out_of_range

type_synonym parameters = "string \<rightharpoonup> string"

definition code :: "char \<Rightarrow> nat" where "code ch = of_char ch"

definition is_space :: "char \<Rightarrow> bool" where
  "is_space ch \<longleftrightarrow> code ch = 32 \<or> 9 \<le> code ch \<and> code ch \<le> 13"

definition lower :: "char \<Rightarrow> char" where
  "lower ch = (if 65 \<le> code ch \<and> code ch \<le> 90 then char_of (code ch + 32) else ch)"

text \<open>The value of a digit; anything else is at least 36.\<close>

definition digit_value :: "char \<Rightarrow> nat" where
  "digit_value ch =
     (let n = code (lower ch) in if 48 \<le> n \<and> n \<le> 57 then n - 48 else if 97 \<le> n \<and> n \<le> 122 then n - 87 else 36)"

definition digits :: "nat \<Rightarrow> string \<Rightarrow> string" where
  "digits base s = takeWhile (\<lambda>ch. digit_value ch < base) s"

definition value_of :: "nat \<Rightarrow> string \<Rightarrow> nat" where
  "value_of base ds = foldl (\<lambda>n ch. base * n + digit_value ch) 0 ds"

text \<open>An optional sign.\<close>

definition sign_of :: "string \<Rightarrow> bool \<times> string" where
  "sign_of s = (case s of [] \<Rightarrow> (False, []) | ch # r \<Rightarrow>
     if ch = CHR ''-'' then (True, r) else if ch = CHR ''+'' then (False, r) else (False, s))"

text \<open>A hexadecimal prefix counts only before a hexadecimal digit.\<close>

definition skip_prefix :: "string \<Rightarrow> string" where
  "skip_prefix s = (if map lower (take 2 s) = ''0x'' \<and> digits 16 (drop 2 s) \<noteq> [] then drop 2 s else s)"

definition stoi :: "string \<Rightarrow> conversion_error + int" where
  "stoi str =
     (case sign_of (dropWhile is_space str) of (neg, u) \<Rightarrow>
        let ds = digits 10 u; n = (if neg then - int (value_of 10 ds) else int (value_of 10 ds)) in
        if ds = [] then Inl Not_a_number
        else if n < - (2 ^ 31) \<or> 2 ^ 31 \<le> n then Inl Number_out_of_range
        else Inr n)"

text \<open>\<^verbatim>\<open>std::stoul\<close> in base 10 or 16; a minus sign negates the \<^verbatim>\<open>unsigned long\<close>.\<close>

definition stoul :: "nat \<Rightarrow> string \<Rightarrow> conversion_error + 64 word" where
  "stoul base str =
     (case sign_of (dropWhile is_space str) of (neg, u) \<Rightarrow>
        let ds = digits base (if base = 16 then skip_prefix u else u); n = value_of base ds in
        if ds = [] then Inl Not_a_number
        else if 2 ^ 64 \<le> n then Inl Number_out_of_range
        else Inr (if neg then - of_nat n else of_nat n))"

text \<open>An exponent, if there is a complete one.\<close>

definition exponent_of :: "char \<Rightarrow> string \<Rightarrow> int" where
  "exponent_of mark s =
     (if s = [] \<or> lower (hd s) \<noteq> mark then 0
      else (case sign_of (tl s) of (neg, u) \<Rightarrow>
        let ds = digits 10 u in if neg then - int (value_of 10 ds) else int (value_of 10 ds)))"

text \<open>A number in the given base: its exact value, or \<open>None\<close> if there is no digit. A hexadecimal number
  has a binary exponent.\<close>

definition real_of :: "nat \<Rightarrow> string \<Rightarrow> rat option" where
  "real_of base s =
     (let whole = digits base s; r = drop (length whole) s;
          frac = (if r \<noteq> [] \<and> hd r = CHR ''.'' then digits base (tl r) else []);
          r1 = (if r \<noteq> [] \<and> hd r = CHR ''.'' then drop (Suc (length frac)) r else r);
          e = (if base = 16 then exponent_of CHR ''p'' r1 else exponent_of CHR ''e'' r1) in
      if whole @ frac = [] then None
      else Some (of_nat (value_of base (whole @ frac)) / of_nat base ^ length frac * (if base = 16 then 2 else 10) powi e))"

text \<open>\<^verbatim>\<open>std::stod\<close>: a number that overflows, or that underflows with a loss, is out of range.\<close>

definition finite_stod :: "rat \<Rightarrow> conversion_error + double" where
  "finite_stod x =
     (case mk x of
        Fin y \<Rightarrow> if \<bar>x\<bar> < 2 powi (- 1022) \<and> y \<noteq> x then Inl Number_out_of_range else Inr (Fin y)
      | _ \<Rightarrow> Inl Number_out_of_range)"

definition stod :: "string \<Rightarrow> conversion_error + double" where
  "stod str =
     (case sign_of (dropWhile is_space str) of (neg, u) \<Rightarrow>
        if map lower (take 3 u) = ''inf'' then Inr (if neg then NInf else PInf)
        else if map lower (take 3 u) = ''nan'' then Inr NaN
        else
          (case (if map lower (take 2 u) = ''0x'' \<and> real_of 16 (drop 2 u) \<noteq> None then real_of 16 (drop 2 u)
                 else real_of 10 u) of
             None \<Rightarrow> Inl Not_a_number
           | Some x \<Rightarrow> finite_stod (if neg then - x else x)))"

text \<open>Reading a parameter with \<^verbatim>\<open>operator[]\<close>: a missing one is empty.\<close>

definition parameter :: "parameters \<Rightarrow> string \<Rightarrow> string" where
  "parameter ps name = (case ps name of None \<Rightarrow> '''' | Some v \<Rightarrow> v)"

text \<open>A parameter with a default for a missing one.\<close>

definition parameter_or :: "parameters \<Rightarrow> string \<Rightarrow> (string \<Rightarrow> conversion_error + 'a) \<Rightarrow> 'a \<Rightarrow> conversion_error + 'a" where
  "parameter_or ps name conv def = (case ps name of None \<Rightarrow> Inr def | Some v \<Rightarrow> conv v)"

section \<open>Examples\<close>

lemma number_examples:
  "stoi '' -42x'' = Inr (-42)" "stoi ''2147483648'' = Inl Number_out_of_range" "stoi '''' = Inl Not_a_number"
  "stoul 16 ''0x09'' = Inr 9" "stoul 10 ''115200'' = Inr 115200"
  by (simp_all add: stoi_def stoul_def sign_of_def digits_def digit_value_def value_of_def is_space_def code_def
      lower_def skip_prefix_def Let_def)

lemma real_example: "real_of 10 ''0.85e1'' = Some 8.5"
  by (simp add: real_of_def digits_def digit_value_def value_of_def exponent_of_def sign_of_def code_def lower_def
      Let_def power_int_def)

end
