(* ===== verification/Ft_Sensor.thy ===== *)
theory Ft_Sensor
  imports Rq_Sensor_State Number_Parsing
begin

text \<open>
  The two users of the force/torque sensor driver: the hardware component
  (\<^verbatim>\<open>robotiq_ft_sensor_hardware.hpp\<close> and \<^verbatim>\<open>.cpp\<close>) and the standalone node
  (\<^verbatim>\<open>robotiq_ft_sensor_standalone_node.cpp\<close>), with the functions both copy: the choice of the state
  machine, the wait for a connection and the decoder of text commands. The answers of
  \<^verbatim>\<open>rclcpp::ok()\<close> are a script.
\<close>

section \<open>Shared functions\<close>

definition sensor_state_machine :: "int \<Rightarrow> string \<Rightarrow> rq_sensor \<Rightarrow> (rq_fault + int \<times> rq_sensor) option" where
  "sensor_state_machine max_retries ftdi_id s =
     (if ftdi_id = '''' then rq_sensor_state_scan (of_int max_retries) s
      else rq_sensor_state_at (of_int max_retries) ftdi_id s)"

partial_function (option) wait_for_other_connection ::
  "int \<Rightarrow> string \<Rightarrow> bool stream \<Rightarrow> rq_sensor \<Rightarrow> (rq_fault + bool stream \<times> rq_sensor) option" where
  "wait_for_other_connection max_retries ftdi_id ok s =
     (if \<not> shd ok then Some (Inr (stl ok, s))
      else
        (case sensor_state_machine max_retries ftdi_id s of
           None \<Rightarrow> None
         | Some (Inl e) \<Rightarrow> Some (Inl e)
         | Some (Inr (ret, s1)) \<Rightarrow>
             if ret = 0 then Some (Inr (stl ok, s1))
             else wait_for_other_connection max_retries ftdi_id (stl ok) s1))"

text \<open>One run of the state machine, and the wait if it fails: \<^verbatim>\<open>ret_\<close>, the script and the sensor.\<close>

definition step_or_wait ::
  "int \<Rightarrow> string \<Rightarrow> bool stream \<Rightarrow> rq_sensor \<Rightarrow> (rq_fault + (int \<times> bool stream) \<times> rq_sensor) option" where
  "step_or_wait max_retries ftdi_id ok s =
     (case sensor_state_machine max_retries ftdi_id s of
        None \<Rightarrow> None
      | Some (Inl e) \<Rightarrow> Some (Inl e)
      | Some (Inr (ret, s1)) \<Rightarrow>
          if ret = -1 then
            map_option (\<lambda>r. case r of Inl e \<Rightarrow> Inl e | Inr (ok1, s2) \<Rightarrow> Inr ((ret, ok1), s2))
              (wait_for_other_connection max_retries ftdi_id ok s1)
          else Some (Inr ((ret, ok), s1)))"

text \<open>The three runs at the start: connect, read the information, start the stream.\<close>

definition start_sensor ::
  "int \<Rightarrow> string \<Rightarrow> bool stream \<Rightarrow> rq_sensor \<Rightarrow> (rq_fault + (int \<times> bool stream) \<times> rq_sensor) option" where
  "start_sensor max_retries ftdi_id ok s =
     (case step_or_wait max_retries ftdi_id ok s of
        Some (Inr ((_, ok1), s1)) \<Rightarrow>
          (case step_or_wait max_retries ftdi_id ok1 s1 of
             Some (Inr ((_, ok2), s2)) \<Rightarrow> step_or_wait max_retries ftdi_id ok2 s2
           | r \<Rightarrow> r)
      | r \<Rightarrow> r)"

text \<open>The decoder of text commands: the answer, or \<open>None\<close> if the caller's buffer is not written.
  \<open>beyond\<close> is what lies behind \<^verbatim>\<open>get_or_set\<close> in memory, which is not terminated.\<close>

definition decode_message_and_do :: "string \<Rightarrow> string \<Rightarrow> rq_sensor \<Rightarrow> string option \<times> rq_sensor" where
  "decode_message_and_do beyond buff s =
     (let b = c_string buff in
      if length b \<noteq> 7 then (None, s)
      else
        (let get_or_set = take 3 b @ beyond; nom_var = take 3 (drop 4 b) in
         if c_strstr get_or_set ''GET'' then (rq_state_get_command_name nom_var s, s)
         else if c_strstr get_or_set ''SET'' then
           (if c_strstr nom_var ''ZRO'' then (Some ''Done'', rq_state_do_zero_force_flag s) else (None, s))
         else (None, s)))"

text \<open>The six components as the driver reports them.\<close>

definition ft_data :: "rq_sensor \<Rightarrow> rat list" where
  "ft_data s = map (\<lambda>i. rq_state_get_received_data i s) [0, 1, 2, 3, 4, 5]"

section \<open>The hardware component\<close>

record ft_hardware =
  fh_sensor :: rq_sensor
  fh_name :: string
  fh_interfaces :: "string list"
  fh_use_fake_mode :: bool
  fh_max_retries :: int
  fh_read_rate :: int
  fh_ftdi_id :: string
  fh_hw_sensor_states :: "double list"
  fh_sensor_readings :: "double list"
  fh_ret :: int
  fh_active :: bool
  fh_ok :: "bool stream"

text \<open>\<open>base_ok\<close> is the result of the base class; the sensors are named, with the names of their state
  interfaces. The result is an exception of \<^verbatim>\<open>stoi\<close>, or whether initialisation succeeded.\<close>

definition ft_on_init ::
  "bool \<Rightarrow> parameters \<Rightarrow> (string \<times> string list) list \<Rightarrow> ft_hardware \<Rightarrow> conversion_error + bool \<times> ft_hardware" where
  "ft_on_init base_ok ps sensors h =
     (if \<not> base_ok then Inr (False, h)
      else
        (let h1 = h\<lparr>fh_use_fake_mode := (parameter ps ''use_fake_mode'' = ''True'' \<or> parameter ps ''use_fake_mode'' = ''true'')\<rparr> in
         case stoi (parameter ps ''max_retries'') of
           Inl e \<Rightarrow> Inl e
         | Inr max_retries \<Rightarrow>
             (case stoi (parameter ps ''read_rate'') of
                Inl e \<Rightarrow> Inl e
              | Inr read_rate \<Rightarrow>
                  (let id = parameter ps ''ftdi_id'';
                       h2 = h1\<lparr>fh_max_retries := max_retries, fh_read_rate := read_rate,
                               fh_ftdi_id := (if length id = 1 then '''' else id)\<rparr> in
                   if length sensors \<noteq> 1 then Inr (False, h2)
                   else
                     (let h3 = h2\<lparr>fh_name := fst (sensors ! 0), fh_interfaces := snd (sensors ! 0)\<rparr> in
                      Inr (length (snd (sensors ! 0)) = 6, h3))))))"

text \<open>The exported interfaces: the sensor, the interface and the element of \<^verbatim>\<open>hw_sensor_states_\<close>.\<close>

definition ft_export_state_interfaces :: "ft_hardware \<Rightarrow> (string \<times> string \<times> nat) list" where
  "ft_export_state_interfaces h = map (\<lambda>j. (fh_name h, fh_interfaces h ! j, j)) [0..<length (fh_interfaces h)]"

definition ft_read_background :: "ft_hardware \<Rightarrow> (rq_fault + ft_hardware) option" where
  "ft_read_background h =
     (if fh_use_fake_mode h then Some (Inr h)
      else
        map_option
          (\<lambda>r. case r of
             Inl e \<Rightarrow> Inl e
           | Inr ((ret, ok), s) \<Rightarrow>
               (let h1 = h\<lparr>fh_ret := ret, fh_ok := ok, fh_sensor := s\<rparr> in
                if rq_sensor_get_current_state s = RQ_STATE_RUN then
                  (case rq_state_got_new_message s of (got, s1) \<Rightarrow>
                     let h2 = h1\<lparr>fh_sensor := s1\<rparr> in
                     Inr (if got then h2\<lparr>fh_sensor_readings := map Fin (ft_data s1)\<rparr> else h2))
                else Inr h1))
          (step_or_wait (fh_max_retries h) (fh_ftdi_id h) (fh_ok h) (fh_sensor h)))"

definition ft_on_activate :: "ft_hardware \<Rightarrow> (rq_fault + ft_hardware) option" where
  "ft_on_activate h =
     (let finish = (\<lambda>h. h\<lparr>fh_hw_sensor_states := replicate 6 NaN, fh_sensor_readings := replicate 6 NaN, fh_active := True\<rparr>) in
      if fh_use_fake_mode h then Some (Inr (finish h))
      else
        map_option
          (\<lambda>r. case r of
             Inl e \<Rightarrow> Inl e
           | Inr ((ret, ok), s) \<Rightarrow> Inr (finish (h\<lparr>fh_ret := ret, fh_ok := ok, fh_sensor := s\<rparr>)))
          (start_sensor (fh_max_retries h) (fh_ftdi_id h) (fh_ok h) (fh_sensor h)))"

text \<open>\<^verbatim>\<open>set_zero\<close>, the callback of the service of the internal node.\<close>

definition ft_set_zero :: "string \<Rightarrow> ft_hardware \<Rightarrow> ft_hardware" where
  "ft_set_zero beyond h = h\<lparr>fh_sensor := snd (decode_message_and_do beyond ''SET ZRO'' (fh_sensor h))\<rparr>"

text \<open>What the node thread is executing when the executor is cancelled: nothing, the timer callback, or the
  service callback. \<^verbatim>\<open>cancel\<close> ends \<^verbatim>\<open>spin\<close> after the callback under way, so joining the thread waits for
  that callback; \<open>None\<close> is a join that never returns. There is no thread before activation, and
  deactivating then uses a null pointer. (A cancel that comes before the new thread has entered
  \<^verbatim>\<open>spin\<close> is a matter of the library and not modelled.)\<close>

datatype executor_work = No_callback | Background_read | Zero_service string

definition ft_run_callback :: "executor_work \<Rightarrow> ft_hardware \<Rightarrow> (rq_fault + ft_hardware) option" where
  "ft_run_callback work h =
     (case work of
        No_callback \<Rightarrow> Some (Inr h)
      | Background_read \<Rightarrow> ft_read_background h
      | Zero_service beyond \<Rightarrow> Some (Inr (ft_set_zero beyond h)))"

datatype ft_deactivation = Null_pointer | Callback_fault rq_fault | Deactivated ft_hardware

definition ft_on_deactivate :: "executor_work \<Rightarrow> ft_hardware \<Rightarrow> ft_deactivation option" where
  "ft_on_deactivate work h =
     (if \<not> fh_active h then Some Null_pointer
      else
        map_option (\<lambda>r. case r of Inl e \<Rightarrow> Callback_fault e | Inr h1 \<Rightarrow> Deactivated (h1\<lparr>fh_active := False\<rparr>))
          (ft_run_callback work h))"

definition ft_read :: "ft_hardware \<Rightarrow> ft_hardware" where
  "ft_read h = h\<lparr>fh_hw_sensor_states := (if fh_use_fake_mode h then replicate 6 (Fin 0) else fh_sensor_readings h)\<rparr>"

text \<open>The interface with numeric commands, of which the component makes no use.\<close>

definition ft_decode_request :: "u8 \<Rightarrow> ft_hardware \<Rightarrow> (string \<times> bool) \<times> ft_hardware" where
  "ft_decode_request command_id h =
     (case rq_state_get_command_id command_id (fh_sensor h) of (answer, s) \<Rightarrow> (answer, h\<lparr>fh_sensor := s\<rparr>))"

section \<open>The standalone node\<close>

record ft_node =
  fn_sensor :: rq_sensor
  fn_max_retries :: int
  fn_ftdi_id :: string
  fn_ret :: int
  fn_started :: bool
  fn_published :: "rat list list"
  fn_ok :: "bool stream"

definition fn_initialize :: "int option \<Rightarrow> string option \<Rightarrow> ft_node \<Rightarrow> (rq_fault + ft_node) option" where
  "fn_initialize max_retries ftdi_id n =
     (let n1 = n\<lparr>fn_max_retries := (case max_retries of None \<Rightarrow> 100 | Some m \<Rightarrow> m),
                 fn_ftdi_id := (case ftdi_id of None \<Rightarrow> '''' | Some i \<Rightarrow> i)\<rparr> in
      map_option
        (\<lambda>r. case r of
           Inl e \<Rightarrow> Inl e
         | Inr ((ret, ok), s) \<Rightarrow> Inr (n1\<lparr>fn_ret := ret, fn_ok := ok, fn_sensor := s, fn_started := True\<rparr>))
        (start_sensor (fn_max_retries n1) (fn_ftdi_id n1) (fn_ok n1) (fn_sensor n1)))"

definition fn_set_zero :: "string \<Rightarrow> ft_node \<Rightarrow> ft_node" where
  "fn_set_zero beyond n = n\<lparr>fn_sensor := snd (decode_message_and_do beyond ''SET ZRO'' (fn_sensor n))\<rparr>"

text \<open>The interface with numeric commands: the answer and whether the command is valid.\<close>

definition fn_decode_request :: "u8 \<Rightarrow> ft_node \<Rightarrow> (string \<times> bool) \<times> ft_node" where
  "fn_decode_request command_id n =
     (case rq_state_get_command_id command_id (fn_sensor n) of (answer, s) \<Rightarrow> (answer, n\<lparr>fn_sensor := s\<rparr>))"

text \<open>The service: the response is the answer (\<open>None\<close> for a buffer that was never written) and, for a
  numeric command, whether it is valid.\<close>

definition fn_receiver_callback :: "string \<Rightarrow> string \<Rightarrow> u8 \<Rightarrow> ft_node \<Rightarrow> (string option \<times> bool) \<times> ft_node" where
  "fn_receiver_callback beyond command command_id n =
     (if command \<noteq> '''' then
        (case decode_message_and_do beyond command (fn_sensor n) of (res, s) \<Rightarrow> ((res, False), n\<lparr>fn_sensor := s\<rparr>))
      else
        (case fn_decode_request command_id n of ((res, success), n1) \<Rightarrow> ((Some res, success), n1)))"

definition fn_update :: "ft_node \<Rightarrow> (rq_fault + ft_node) option" where
  "fn_update n =
     map_option
       (\<lambda>r. case r of
          Inl e \<Rightarrow> Inl e
        | Inr ((ret, ok), s) \<Rightarrow>
            (let n1 = n\<lparr>fn_ret := ret, fn_ok := ok, fn_sensor := s\<rparr> in
             if rq_sensor_get_current_state s = RQ_STATE_RUN then
               (let msg = ft_data s in
                case rq_state_got_new_message s of (got, s1) \<Rightarrow>
                  let n2 = n1\<lparr>fn_sensor := s1\<rparr> in
                  Inr (if got then n2\<lparr>fn_published := fn_published n2 @ [msg]\<rparr> else n2))
             else Inr n1))
       (step_or_wait (fn_max_retries n) (fn_ftdi_id n) (fn_ok n) (fn_sensor n))"

section \<open>From the wire to the interface\<close>

definition scaled_effort :: "u16 list \<Rightarrow> nat \<Rightarrow> rat" where
  "scaled_effort vs j = rnd32 (of_int (sint (vs ! j)) / (if j < 3 then 100 else 1000))"

lemma upt6: "[0..<6] = [0, 1, 2, 3, 4, 5 :: nat]"
  by (simp add: upt_rec numeral_eq_Suc)

text \<open>The offsets the next message is decoded with: a pending zero request takes the last values.\<close>

definition offsets_in_force :: "rq_com \<Rightarrow> rat list" where
  "offsets_in_force c = (if rq_zero_force_flag c = 1 then rq_received_data c else rq_received_data_offset c)"

lemma ft_data_after_message:
  fixes m :: u32
  assumes "rq_wf (rs_com s)" "length vs = 6" "received_bytes (rs_com s) \<noteq> []"
    and "pending (rs_com s) @ received_bytes (rs_com s) = before @ stream_message vs"
    and "length (pending (rs_com s)) + length (received_bytes (rs_com s)) \<le> MP_BUFF_SIZE"
  defines "s' \<equiv> rq_state_run m s"
  shows "rq_new_message (rs_com s')" "rs_current_state s' = rs_current_state s"
    "rq_received_data_offset (rs_com s') = offsets_in_force (rs_com s)"
    "ft_data s' = map (\<lambda>j. rnd32 (scaled_effort vs j - offsets_in_force (rs_com s) ! j)) [0..<6]"
proof -
  note rt = message_decoded [OF assms(1-5)]
  have off: "rq_received_data_offset (rq_com_listen_stream (rs_com s)) = offsets_in_force (rs_com s)"
    using listen_stream_view [OF assms(1)] by (simp add: offsets_in_force_def)
  have run: "s' = s\<lparr>rs_com := rq_com_listen_stream (rs_com s), rs_retries := 0\<rparr>"
    using rt by (simp add: s'_def rq_state_run_def Let_def rq_com_get_valid_stream_def)
  show "rq_new_message (rs_com s')" "rs_current_state s' = rs_current_state s" using rt by (simp_all add: run)
  show "rq_received_data_offset (rs_com s') = offsets_in_force (rs_com s)" by (simp add: run off)
  show "ft_data s' = map (\<lambda>j. rnd32 (scaled_effort vs j - offsets_in_force (rs_com s) ! j)) [0..<6]"
    using rt off by (simp add: run ft_data_def rq_state_get_received_data_def rq_com_get_received_data_def
        scaled_effort_def upt6)
qed

lemma interface_after_message:
  assumes "\<not> fh_use_fake_mode h" "fh_sensor h = s" "fn_sensor n = s" "rs_current_state s = RQ_STATE_RUN"
    and "rq_wf (rs_com s)" "length vs = 6" "received_bytes (rs_com s) \<noteq> []"
    and "pending (rs_com s) @ received_bytes (rs_com s) = before @ stream_message vs"
    and "length (pending (rs_com s)) + length (received_bytes (rs_com s)) \<le> MP_BUFF_SIZE"
  defines "off \<equiv> offsets_in_force (rs_com s)"
  defines "values \<equiv> map (\<lambda>j. rnd32 (scaled_effort vs j - off ! j)) [0..<6]"
  shows "\<exists>h'. ft_read_background h = Some (Inr h') \<and> fh_hw_sensor_states (ft_read h') = map Fin values \<and>
      rq_received_data_offset (rs_com (fh_sensor h')) = off"
    "\<exists>n'. fn_update n = Some (Inr n') \<and> fn_published n' = fn_published n @ [values] \<and>
      rq_received_data_offset (rs_com (fn_sensor n')) = off"
proof -
  note d = ft_data_after_message [OF assms(5-9)]
  have step: "step_or_wait m i ok s = Some (Inr ((0, ok), rq_state_run (of_int m) s))" for m i ok
    using assms(4) by (simp add: step_or_wait_def sensor_state_machine_def rq_sensor_state_scan_def
        rq_sensor_state_at_def rq_sensor_step_def)
  have same: "ft_data (s'\<lparr>rs_com := rs_com s'\<lparr>rq_new_message := False\<rparr>\<rparr>) = ft_data s'" for s' :: rq_sensor
    by (simp add: ft_data_def rq_state_get_received_data_def rq_com_get_received_data_def)
  show "\<exists>h'. ft_read_background h = Some (Inr h') \<and> fh_hw_sensor_states (ft_read h') = map Fin values \<and>
      rq_received_data_offset (rs_com (fh_sensor h')) = off"
    "\<exists>n'. fn_update n = Some (Inr n') \<and> fn_published n' = fn_published n @ [values] \<and>
      rq_received_data_offset (rs_com (fn_sensor n')) = off"
    using assms(1-4) d
    by (simp_all add: ft_read_background_def fn_update_def step rq_sensor_get_current_state_def rq_state_got_new_message_def
        rq_com_got_new_message_def ft_read_def Let_def same values_def off_def)
qed

text \<open>C24. What the sensor sends reaches the interface of the component and the topic of the node: when the
  driver runs and the received bytes complete a message, one background call and one \<^verbatim>\<open>read\<close> leave in
  \<^verbatim>\<open>hw_sensor_states_\<close>, and one \<^verbatim>\<open>update\<close> publishes, exactly the six scaled values of that message less
  the stored offsets.\<close>

theorem message_reaches_the_interface:
  assumes "\<not> fh_use_fake_mode h" "fh_sensor h = s" "fn_sensor n = s" "rs_current_state s = RQ_STATE_RUN"
    and "rq_wf (rs_com s)" "length vs = 6" "received_bytes (rs_com s) \<noteq> []"
    and "pending (rs_com s) @ received_bytes (rs_com s) = before @ stream_message vs"
    and "length (pending (rs_com s)) + length (received_bytes (rs_com s)) \<le> MP_BUFF_SIZE"
    and "rq_zero_force_flag (rs_com s) \<noteq> 1"
  defines "values \<equiv> map (\<lambda>j. rnd32 (scaled_effort vs j - rq_received_data_offset (rs_com s) ! j)) [0..<6]"
  shows "(\<exists>h'. ft_read_background h = Some (Inr h') \<and> fh_hw_sensor_states (ft_read h') = map Fin values) \<and>
    (\<exists>n'. fn_update n = Some (Inr n') \<and> fn_published n' = fn_published n @ [values])"
  using interface_after_message [OF assms(1-9)] assms(10) unfolding values_def offsets_in_force_def by (simp; blast)

text \<open>C25. A request for zero takes effect with the next message: after the numeric command, the text command, or
  the service of the hardware component, the next message is published and exposed less the values
  last received, so that an unchanged load reads zero, and these values stay the offsets. The text
  command works only if the memory behind an array without terminator does not happen to hold a GET.\<close>

theorem zero_request_takes_effect:
  assumes "\<not> fh_use_fake_mode h" "fh_sensor h = s" "fn_sensor n = s" "rs_current_state s = RQ_STATE_RUN"
    and "rq_wf (rs_com s)" "length vs = 6" "received_bytes (rs_com s) \<noteq> []"
    and "pending (rs_com s) @ received_bytes (rs_com s) = before @ stream_message vs"
    and "length (pending (rs_com s)) + length (received_bytes (rs_com s)) \<le> MP_BUFF_SIZE"
    and "\<not> c_strstr (''SET'' @ beyond) ''GET''"
    and "n1 \<in> {snd (fn_receiver_callback beyond '''' 8 n), snd (fn_receiver_callback beyond ''SET ZRO'' 0 n)}"
  defines "ref \<equiv> rq_received_data (rs_com s)"
  defines "values \<equiv> map (\<lambda>j. rnd32 (scaled_effort vs j - ref ! j)) [0..<6]"
  shows "(\<exists>n'. fn_update n1 = Some (Inr n') \<and> fn_published n' = fn_published n @ [values] \<and>
      rq_received_data_offset (rs_com (fn_sensor n')) = ref) \<and>
    (\<exists>h'. ft_read_background (ft_set_zero beyond h) = Some (Inr h') \<and> fh_hw_sensor_states (ft_read h') = map Fin values \<and>
      rq_received_data_offset (rs_com (fh_sensor h')) = ref) \<and>
    (ref = map (scaled_effort vs) [0..<6] \<longrightarrow> values = replicate 6 0)"
proof -
  let ?z = "rq_state_do_zero_force_flag s"
  have zero: "snd (decode_message_and_do beyond ''SET ZRO'' s) = ?z"
    using assms(10) by (simp add: decode_message_and_do_def Let_def c_string_def)
  have n1: "fn_sensor n1 = ?z" "fn_published n1 = fn_published n"
    using assms(3,11) zero by (auto simp: fn_receiver_callback_def fn_decode_request_def rq_state_get_command_id_def
        split: prod.splits)
  have h1: "\<not> fh_use_fake_mode (ft_set_zero beyond h)" "fh_sensor (ft_set_zero beyond h) = ?z"
    using assms(1,2) zero by (simp_all add: ft_set_zero_def)
  have z: "rs_current_state ?z = RQ_STATE_RUN" "rq_wf (rs_com ?z)" "received_bytes (rs_com ?z) = received_bytes (rs_com s)"
    "pending (rs_com ?z) = pending (rs_com s)" "offsets_in_force (rs_com ?z) = ref"
    using assms(4,5) by (simp_all add: rq_state_do_zero_force_flag_def rq_com_do_zero_force_flag_def rq_wf_def
        received_bytes_def pending_def offsets_in_force_def ref_def)
  have "values = replicate 6 0" if "ref = map (scaled_effort vs) [0..<6]"
    by (simp add: values_def that rnd32_def upt6 numeral_eq_Suc)
  then show ?thesis
    using interface_after_message [OF h1(1,2) n1(1) z(1,2) assms(6), of before] assms(7-9) n1(2)
    unfolding z values_def by simp
qed

definition demo_ft_node :: ft_node where
  "demo_ft_node = \<lparr>fn_sensor = demo_sensor\<lparr>rs_com := rq_com_initial (Some (stream_message [100, -200, 0, 1000, 0, 0]) ## sconst None)\<rparr>,
     fn_max_retries = 100, fn_ftdi_id = '''', fn_ret = 0, fn_started = True, fn_published = [], fn_ok = sconst True\<rparr>"

definition demo_ft_hardware :: ft_hardware where
  "demo_ft_hardware = \<lparr>fh_sensor = fn_sensor demo_ft_node, fh_name = ''ft'', fh_interfaces = replicate 6 '''',
     fh_use_fake_mode = False, fh_max_retries = 100, fh_read_rate = 10, fh_ftdi_id = '''',
     fh_hw_sensor_states = replicate 6 NaN, fh_sensor_readings = replicate 6 NaN, fh_ret = 0, fh_active = True,
     fh_ok = sconst True\<rparr>"

abbreviation demo_efforts :: "u16 list" where "demo_efforts \<equiv> [100, -200, 0, 1000, 0, 0]"

lemma demo_message:
  defines "s \<equiv> fn_sensor demo_ft_node"
  shows "rs_current_state s = RQ_STATE_RUN" "rq_wf (rs_com s)" "received_bytes (rs_com s) \<noteq> []"
    "pending (rs_com s) @ received_bytes (rs_com s) = [] @ stream_message demo_efforts"
    "length (pending (rs_com s)) + length (received_bytes (rs_com s)) \<le> MP_BUFF_SIZE"
    "rq_zero_force_flag (rs_com s) \<noteq> 1" "rq_received_data_offset (rs_com s) = replicate 6 0"
proof -
  have l: "length (stream_message demo_efforts) = 16" by (simp add: stream_message_facts(1))
  have c: "rs_com s = rq_com_initial (Some (stream_message demo_efforts) ## sconst None)" "rs_current_state s = RQ_STATE_RUN"
    by (simp_all add: s_def demo_ft_node_def demo_sensor_def)
  have r: "received_bytes (rs_com s) = stream_message demo_efforts"
    using l unfolding c by (simp add: received_bytes_def rq_com_initial_def MP_BUFF_SIZE_def)
  have p: "pending (rs_com s) = []" unfolding c by (simp add: pending_def rq_com_initial_def)
  show "rs_current_state s = RQ_STATE_RUN" by fact
  show "rq_wf (rs_com s)" unfolding c by (rule rq_com_initial_wf)
  show "received_bytes (rs_com s) \<noteq> []" "pending (rs_com s) @ received_bytes (rs_com s) = [] @ stream_message demo_efforts"
    "length (pending (rs_com s)) + length (received_bytes (rs_com s)) \<le> MP_BUFF_SIZE"
    using l p r by (auto simp: MP_BUFF_SIZE_def)
  show "rq_zero_force_flag (rs_com s) \<noteq> 1" "rq_received_data_offset (rs_com s) = replicate 6 0"
    unfolding c by (simp_all add: rq_com_initial_def)
qed

theorem message_reaches_the_interface_witness:
  "\<exists>n'. fn_update demo_ft_node = Some (Inr n') \<and> fn_published n' = [map (rnd32 \<circ> rnd32) [1, -2, 0, 1, 0, 0]]"
proof -
  have "\<not> fh_use_fake_mode demo_ft_hardware" "fh_sensor demo_ft_hardware = fn_sensor demo_ft_node" "length demo_efforts = 6"
    by (simp_all add: demo_ft_hardware_def)
  from message_reaches_the_interface [OF this(1,2) refl demo_message(1,2) this(3) demo_message(3-6)]
  show ?thesis unfolding demo_message(7) by (auto simp: demo_ft_node_def scaled_effort_def upt6)
qed

text \<open>A sensor whose last message carried the same efforts.\<close>

theorem zero_request_takes_effect_witness:
  "\<exists>n n'. fn_update (snd (fn_receiver_callback [] '''' 8 n)) = Some (Inr n') \<and> fn_published n' = [replicate 6 0]"
proof -
  let ?f = "\<lambda>s. s\<lparr>rs_com := rs_com s\<lparr>rq_received_data := map (scaled_effort demo_efforts) [0..<6]\<rparr>\<rparr>"
  define n where "n = demo_ft_node\<lparr>fn_sensor := ?f (fn_sensor demo_ft_node)\<rparr>"
  define h where "h = demo_ft_hardware\<lparr>fh_sensor := fn_sensor n\<rparr>"
  have r: "rs_current_state (fn_sensor n) = RQ_STATE_RUN" "rq_wf (rs_com (fn_sensor n))" "received_bytes (rs_com (fn_sensor n)) \<noteq> []"
    "pending (rs_com (fn_sensor n)) @ received_bytes (rs_com (fn_sensor n)) = [] @ stream_message demo_efforts"
    "length (pending (rs_com (fn_sensor n))) + length (received_bytes (rs_com (fn_sensor n))) \<le> MP_BUFF_SIZE"
    using demo_message(1-5) by (simp_all add: n_def rq_wf_def received_bytes_def pending_def)
  have h: "\<not> fh_use_fake_mode h" "fh_sensor h = fn_sensor n" "length demo_efforts = 6" "\<not> c_strstr (''SET'' @ []) ''GET''"
    by (simp_all add: h_def demo_ft_hardware_def)
  have "fn_published n = []" "rq_received_data (rs_com (fn_sensor n)) = map (scaled_effort demo_efforts) [0..<6]"
    by (simp_all add: n_def demo_ft_node_def)
  then have "\<exists>n'. fn_update (snd (fn_receiver_callback [] '''' 8 n)) = Some (Inr n') \<and> fn_published n' = [replicate 6 0]"
    using zero_request_takes_effect [OF h(1,2) refl r(1,2) h(3) r(3-5) h(4) insertI1] by auto
  then show ?thesis by blast
qed

end
