(* ===== verification/Ft_Connection.thy ===== *)
theory Ft_Connection
  imports Ft_Sensor
begin

text \<open>
  What becomes of the component and the node of the force/torque sensor while the sensor is not there:
  \<^verbatim>\<open>wait_for_other_connection\<close> tries again until the state machine succeeds or the middleware shuts down.
\<close>

section \<open>A sensor that is not there\<close>

text \<open>No serial device of the directory, or not the configured one, can be opened. Longer names would not
  fit the array they are copied to.\<close>

definition unopenable :: "string \<times> rq_device \<Rightarrow> bool" where
  "unopenable e \<longleftrightarrow> (c_strstr (fst e) ''ttyS'' \<or> c_strstr (fst e) ''ttyUSB'' \<longrightarrow> length (fst e) \<le> 9 \<and> dev_fd (snd e) = -1)"

definition absent :: "string \<Rightarrow> rq_sensor \<Rightarrow> bool" where
  "absent ftdi_id s \<longleftrightarrow> rs_current_state s = RQ_STATE_INIT \<and>
     (if ftdi_id = '''' then \<forall>dir \<in> sset (rs_directories s). case dir of None \<Rightarrow> True | Some es \<Rightarrow> list_all unopenable es
      else length ftdi_id \<le> 9 \<and> (\<forall>dev \<in> sset (rs_devices s). dev_fd dev = -1))"

lemma scan_unopenable: "list_all unopenable es \<Longrightarrow> \<exists>c'. scan_devices es c = Some (Inr (False, c'))"
proof (induction es arbitrary: c)
  case (Cons e es)
  obtain name dev where e: "e = (name, dev)" by fastforce
  show ?case
  proof (cases "c_strstr name ''ttyS'' \<or> c_strstr name ''ttyUSB''")
    case True
    then have "length name \<le> 9" "dev_fd dev = -1" using Cons.prems by (auto simp: e unopenable_def)
    then have "rq_com_identify_device name dev c = Some (Inr (False, c\<lparr>rq_fd_connexion := -1\<rparr>))"
      by (simp add: rq_com_identify_device_def Let_def)
    then show ?thesis using Cons True by (simp add: e)
  next
    case False
    then show ?thesis using Cons by (simp add: e)
  qed
qed simp

lemma sset_stl: "x \<in> sset (stl s) \<Longrightarrow> x \<in> sset s"
  by (cases s) auto

lemma absent_fails:
  assumes "absent i s"
  shows "\<exists>s'. sensor_state_machine m i s = Some (Inr (-1, s')) \<and> absent i s'"
proof (cases "i = ''''")
  case True
  let ?s1 = "s\<lparr>rs_directories := stl (rs_directories s)\<rparr>"
  have a: "case shd (rs_directories s) of None \<Rightarrow> True | Some es \<Rightarrow> list_all unopenable es"
    using assms True shd_sset by (auto simp: absent_def)
  have "\<exists>c. rq_sensor_com_scan (shd (rs_directories s)) (rs_com s) = Some (Inr (-1, c))"
    using a scan_unopenable by (fastforce simp: rq_sensor_com_scan_def Let_def split: option.splits)
  then obtain c where "rq_sensor_com_scan (shd (rs_directories s)) (rs_com s) = Some (Inr (-1, c))" ..
  then have "sensor_state_machine m i s = Some (Inr (-1, ?s1\<lparr>rs_com := c\<rparr>))"
    using assms True by (simp add: absent_def sensor_state_machine_def rq_sensor_state_scan_def rq_sensor_step_def
        rq_state_init_com_scan_def Let_def)
  moreover have "absent i (?s1\<lparr>rs_com := c\<rparr>)" using assms True by (fastforce simp: absent_def dest: sset_stl)
  ultimately show ?thesis by blast
next
  case False
  let ?s1 = "s\<lparr>rs_devices := stl (rs_devices s)\<rparr>"
  have "dev_fd (shd (rs_devices s)) = -1" "length i \<le> 9" using assms False shd_sset by (auto simp: absent_def)
  then have "rq_sensor_com_at i (shd (rs_devices s)) (rs_com s) = Some (Inr (-1, (rs_com s)\<lparr>rq_fd_connexion := -1\<rparr>))"
    by (simp add: rq_sensor_com_at_def rq_com_identify_device_def Let_def)
  then have "sensor_state_machine m i s = Some (Inr (-1, ?s1\<lparr>rs_com := (rs_com s)\<lparr>rq_fd_connexion := -1\<rparr>\<rparr>))"
    using assms False by (simp add: absent_def sensor_state_machine_def rq_sensor_state_at_def rq_sensor_step_def
        rq_state_init_com_at_def Let_def)
  moreover have "absent i (?s1\<lparr>rs_com := (rs_com s)\<lparr>rq_fd_connexion := -1\<rparr>\<rparr>)" using assms False by (fastforce simp: absent_def dest: sset_stl)
  ultimately show ?thesis by blast
qed

section \<open>The wait\<close>

text \<open>The wait ends when \<^verbatim>\<open>rclcpp::ok()\<close> does, and only then.\<close>

lemma wait_until_not_ok:
  "absent i s \<Longrightarrow> \<not> ok !! n \<Longrightarrow> \<exists>ok' s'. wait_for_other_connection m i ok s = Some (Inr (ok', s')) \<and> absent i s' \<and>
     (\<exists>k. ok' = sdrop (Suc k) ok \<and> \<not> ok !! k)"
proof (induction n arbitrary: ok s)
  case 0
  then show ?case by (subst wait_for_other_connection.simps) (auto intro: exI [of _ 0])
next
  case (Suc n)
  show ?case
  proof (cases "shd ok")
    case False
    then show ?thesis using Suc.prems by (subst wait_for_other_connection.simps) (auto intro: exI [of _ 0])
  next
    case True
    obtain s1 where s1: "sensor_state_machine m i s = Some (Inr (-1, s1))" "absent i s1"
      using absent_fails [OF Suc.prems(1)] by blast
    from Suc.IH [OF s1(2), of "stl ok"] Suc.prems(2) obtain ok' s' k where
      "wait_for_other_connection m i (stl ok) s1 = Some (Inr (ok', s'))" "absent i s'" "ok' = sdrop (Suc k) (stl ok)" "\<not> stl ok !! k"
      by auto
    then show ?thesis using True s1 by (subst wait_for_other_connection.simps) (auto intro!: exI [of _ "Suc k"])
  qed
qed

lemma wait_returns_only:
  assumes "wait_for_other_connection m i ok s = Some r"
  shows "absent i s \<longrightarrow> (\<exists>n. \<not> ok !! n)"
proof (rule wait_for_other_connection.raw_induct [where P = "\<lambda>m i ok s r. absent i s \<longrightarrow> (\<exists>n. \<not> ok !! n)", OF _ assms])
  fix f :: "int \<Rightarrow> string \<Rightarrow> bool stream \<Rightarrow> rq_sensor \<Rightarrow> (rq_fault + bool stream \<times> rq_sensor) option" and m i ok s r
  assume IH: "\<And>m i ok s r. f m i ok s = Some r \<Longrightarrow> absent i s \<longrightarrow> (\<exists>n. \<not> ok !! n)"
    and eq: "(if \<not> shd ok then Some (Inr (stl ok, s))
      else
        (case sensor_state_machine m i s of
           None \<Rightarrow> None
         | Some (Inl e) \<Rightarrow> Some (Inl e)
         | Some (Inr (ret, s1)) \<Rightarrow> if ret = 0 then Some (Inr (stl ok, s1)) else f m i (stl ok) s1)) = Some r"
  show "absent i s \<longrightarrow> (\<exists>n. \<not> ok !! n)"
  proof
    assume "absent i s"
    then obtain s1 where s1: "sensor_state_machine m i s = Some (Inr (-1, s1))" "absent i s1" using absent_fails by blast
    show "\<exists>n. \<not> ok !! n"
    proof (cases "shd ok")
      case True
      then have "f m i (stl ok) s1 = Some r" using eq s1(1) by simp
      from IH [OF this] s1(2) obtain n where "\<not> stl ok !! n" by blast
      then show ?thesis by (intro exI [of _ "Suc n"]) simp
    qed (intro exI [of _ 0], simp)
  qed
qed

definition stays_down :: "bool stream \<Rightarrow> bool" where
  "stays_down ok \<longleftrightarrow> (\<forall>n. \<not> ok !! n \<longrightarrow> \<not> ok !! Suc n)"

lemma stays_down_sdrop: "stays_down ok \<Longrightarrow> stays_down (sdrop k ok)"
  by (simp add: stays_down_def sdrop_snth)

lemma step_absent:
  assumes "absent i s" "stays_down ok"
  shows "(\<exists>ok' s'. step_or_wait m i ok s = Some (Inr ((-1, ok'), s')) \<and> absent i s' \<and> stays_down ok' \<and> \<not> shd ok' \<and> (\<exists>n. \<not> ok !! n)) \<or>
    step_or_wait m i ok s = None \<and> (\<forall>n. ok !! n)"
proof -
  obtain s1 where s1: "sensor_state_machine m i s = Some (Inr (-1, s1))" "absent i s1" using absent_fails [OF assms(1)] by blast
  show ?thesis
  proof (cases "\<exists>n. \<not> ok !! n")
    case True
    then obtain n where "\<not> ok !! n" ..
    from wait_until_not_ok [OF s1(2) this] obtain ok' s' k where w: "wait_for_other_connection m i ok s1 = Some (Inr (ok', s'))"
      "absent i s'" "ok' = sdrop (Suc k) ok" "\<not> ok !! k" by blast
    have "stays_down ok'" using stays_down_sdrop [OF assms(2), of "Suc k"] w(3) by simp
    moreover have "\<not> shd ok'" using w(3,4) assms(2) sdrop_snth [of "Suc k" ok 0] by (simp add: stays_down_def)
    ultimately show ?thesis using w s1 by (auto simp: step_or_wait_def)
  next
    case False
    then have "wait_for_other_connection m i ok s1 = None"
      using wait_returns_only s1(2) by (cases "wait_for_other_connection m i ok s1") blast+
    then show ?thesis using False s1 by (simp add: step_or_wait_def)
  qed
qed

lemma step_absent_returns:
  assumes "absent i s" "stays_down ok" "\<exists>n. \<not> ok !! n"
  obtains ok' s' where "step_or_wait m i ok s = Some (Inr ((-1, ok'), s'))" "absent i s'" "stays_down ok'" "\<exists>n. \<not> ok' !! n"
proof -
  obtain ok' s' where *: "step_or_wait m i ok s = Some (Inr ((-1, ok'), s'))" "absent i s'" "stays_down ok'" "\<not> shd ok'"
    using step_absent [OF assms(1,2), of m] assms(3) by blast
  show thesis by (rule that [OF *(1-3)]) (use *(4) in \<open>auto intro: exI [of _ 0]\<close>)
qed

lemma start_absent:
  assumes "absent i s" "stays_down ok"
  shows "start_sensor m i ok s \<noteq> None \<longleftrightarrow> (\<exists>n. \<not> ok !! n)"
proof (cases "\<exists>n. \<not> ok !! n")
  case True
  obtain ok1 s1 where 1: "step_or_wait m i ok s = Some (Inr ((-1, ok1), s1))" "absent i s1" "stays_down ok1" "\<exists>n. \<not> ok1 !! n"
    using step_absent_returns [OF assms True] .
  obtain ok2 s2 where 2: "step_or_wait m i ok1 s1 = Some (Inr ((-1, ok2), s2))" "absent i s2" "stays_down ok2" "\<exists>n. \<not> ok2 !! n"
    using step_absent_returns [OF 1(2-4)] .
  obtain ok3 s3 where "step_or_wait m i ok2 s2 = Some (Inr ((-1, ok3), s3))" using step_absent_returns [OF 2(2-4)] .
  then show ?thesis using 1(1) 2(1) True by (simp add: start_sensor_def)
next
  case False
  then show ?thesis using step_absent [OF assms, of m] by (auto simp: start_sensor_def)
qed

lemma step_absent_silent:
  assumes "absent i s" "stays_down ok" "step_or_wait m i ok s = Some r"
  obtains ok' s' where "r = Inr ((-1, ok'), s')" "rs_current_state s' = RQ_STATE_INIT"
  using step_absent [OF assms(1,2), of m] assms(3) by (auto simp: absent_def)

text \<open>C26. Without a sensor nothing returns: activating the component, initialising the node, and the
  timer callback of the component that finds the sensor gone return exactly when the middleware shuts
  down; activating then reports success. Deactivating while that callback is under way joins the thread
  that executes it, so it does not return before the middleware shuts down either, whereas it returns at
  once if no callback is under way.\<close>

theorem no_sensor_blocks:
  assumes "absent i s" "stays_down ok"
    and "\<not> fh_use_fake_mode h" "fh_sensor h = s" "fh_ftdi_id h = i" "fh_ok h = ok" "fn_sensor n = s" "fn_ok n = ok"
  shows "(ft_on_activate h \<noteq> None \<longleftrightarrow> (\<exists>k. \<not> ok !! k)) \<and> (ft_read_background h \<noteq> None \<longleftrightarrow> (\<exists>k. \<not> ok !! k)) \<and>
    (fn_initialize m (Some i) n \<noteq> None \<longleftrightarrow> (\<exists>k. \<not> ok !! k)) \<and>
    (\<forall>h'. ft_on_activate h = Some (Inr h') \<longrightarrow> fh_active h') \<and>
    (fh_active h \<longrightarrow>
      ((\<exists>k. \<not> ok !! k) \<longleftrightarrow> (\<exists>h'. ft_on_deactivate Background_read h = Some (Deactivated h') \<and> \<not> fh_active h')) \<and>
      (ft_on_deactivate Background_read h = None \<longleftrightarrow> (\<forall>k. ok !! k)) \<and>
      (\<exists>h'. ft_on_deactivate No_callback h = Some (Deactivated h') \<and> \<not> fh_active h'))"
proof -
  have b: "ft_read_background h \<noteq> None \<longleftrightarrow> (\<exists>k. \<not> ok !! k)"
    using step_absent [OF assms(1,2), of "fh_max_retries h"] assms(3-6) by (auto simp: ft_read_background_def)
  have quiet: "\<exists>h'. r = Inr h'" if r: "ft_read_background h = Some r" for r
  proof -
    obtain q where q: "step_or_wait (fh_max_retries h) i ok s = Some q"
      using r assms(3-6)
      by (cases "step_or_wait (fh_max_retries h) i ok s") (simp_all add: ft_read_background_def)
    then obtain ok' s' where "q = Inr ((-1, ok'), s')" "rs_current_state s' = RQ_STATE_INIT"
      using step_absent_silent [OF assms(1,2)] by blast
    then show ?thesis using r assms(3-6) q
      by (auto simp: ft_read_background_def Let_def rq_sensor_get_current_state_def split: prod.splits if_splits)
  qed
  have a: "fh_active h'" if "ft_on_activate h = Some (Inr h')" for h'
    using that by (auto simp: ft_on_activate_def Let_def split: if_splits prod.splits
        iff del: map_option_eq_Some)
  have d: "ft_on_deactivate Background_read h = None \<longleftrightarrow> (\<forall>k. ok !! k)"
    "(\<exists>k. \<not> ok !! k) \<longleftrightarrow> (\<exists>h'. ft_on_deactivate Background_read h = Some (Deactivated h') \<and> \<not> fh_active h')"
    "\<exists>h'. ft_on_deactivate No_callback h = Some (Deactivated h') \<and> \<not> fh_active h'" if "fh_active h"
    using that b quiet by (cases "ft_read_background h"; auto simp: ft_on_deactivate_def ft_run_callback_def)+
  have "ft_on_activate h \<noteq> None \<longleftrightarrow> (\<exists>k. \<not> ok !! k)" "fn_initialize m (Some i) n \<noteq> None \<longleftrightarrow> (\<exists>k. \<not> ok !! k)"
    using start_absent [OF assms(1,2)] assms(3-) by (simp_all add: ft_on_activate_def fn_initialize_def Let_def)
  then show ?thesis using a b d by blast
qed

theorem no_sensor_blocks_witness:
  "\<exists>h. absent '''' (fh_sensor h) \<and> ft_on_activate h = None \<and> ft_read_background h = None \<and>
     ft_on_deactivate Background_read h = None \<and> ft_on_deactivate No_callback h \<noteq> None"
proof -
  let ?s = "demo_sensor\<lparr>rs_current_state := RQ_STATE_INIT, rs_directories := sconst None\<rparr>"
  let ?h = "demo_ft_hardware\<lparr>fh_sensor := ?s\<rparr>" and ?n = "demo_ft_node\<lparr>fn_sensor := ?s\<rparr>"
  have a: "absent '''' ?s" "stays_down (sconst True)" by (simp_all add: absent_def stays_down_def)
  have "\<not> fh_use_fake_mode ?h" "fh_sensor ?h = ?s" "fh_ftdi_id ?h = ''''" "fh_ok ?h = sconst True" "fn_sensor ?n = ?s" "fn_ok ?n = sconst True"
    by (simp_all add: demo_ft_hardware_def demo_ft_node_def)
  note b = no_sensor_blocks [OF a this, where m = None]
  have "fh_active ?h" "\<forall>k. sconst True !! k" by (simp_all add: demo_ft_hardware_def)
  then show ?thesis using b a(1) by (intro exI [of _ ?h]) fastforce
qed

end
