(* ===== verification/Ft_Test_Nodes.thy ===== *)
theory Ft_Test_Nodes
  imports Ft_Sensor
begin

text \<open>
  The small clients of the force/torque sensor: the node that zeroes the sensor once
  (\<^verbatim>\<open>nodes/test_robotiq_ft_sensor_node.cpp\<close>), the publisher of a constant wrench
  (\<^verbatim>\<open>nodes/test_add_wrench_pub.cpp\<close>) and the follower of a wrench topic
  (\<^verbatim>\<open>wrench_simulator.hpp\<close>). The answers of \<^verbatim>\<open>wait_for_service\<close> and \<^verbatim>\<open>rclcpp::ok()\<close> are a script.
\<close>

section \<open>The zeroing client\<close>

record accessor_request =
  sa_command_id :: u8
  sa_command :: string

definition COMMAND_SET_ZERO :: u8 where
  "COMMAND_SET_ZERO = 8"

record test_sensor =
  ts_count :: int                      \<comment> \<open>\<^verbatim>\<open>int\<close>\<close>
  ts_service_done :: bool
  ts_requests :: "accessor_request list"
  ts_service :: "(bool \<times> bool) stream"  \<comment> \<open>whether the service is there, and \<^verbatim>\<open>ok()\<close> if not\<close>

definition RQTestSensor :: "(bool \<times> bool) stream \<Rightarrow> test_sensor" where
  "RQTestSensor service = \<lparr>ts_count = 0, ts_service_done = False, ts_requests = [], ts_service = service\<rparr>"

text \<open>The loop around \<^verbatim>\<open>wait_for_service\<close>: whether the service is there or the wait was interrupted.\<close>

partial_function (option) wait_for_service :: "(bool \<times> bool) stream \<Rightarrow> (bool \<times> (bool \<times> bool) stream) option" where
  "wait_for_service service =
     (case shd service of (available, ok) \<Rightarrow>
        if available then Some (True, stl service)
        else if \<not> ok then Some (False, stl service)
        else wait_for_service (stl service))"

text \<open>\<^verbatim>\<open>count += 1\<close> is undefined at the end of the range.\<close>

definition count_on :: "test_sensor \<Rightarrow> test_sensor option" where
  "count_on n = (if ts_count n = 2 ^ 31 - 1 then None else Some (n\<lparr>ts_count := ts_count n + 1\<rparr>))"

definition test_update :: "test_sensor \<Rightarrow> test_sensor option" where
  "test_update n =
     (if ts_count n = 50 then
        (case wait_for_service (ts_service n) of
           None \<Rightarrow> None
         | Some (False, service) \<Rightarrow> Some (n\<lparr>ts_service := service\<rparr>)
         | Some (True, service) \<Rightarrow>
             count_on (n\<lparr>ts_service := service,
               ts_requests := ts_requests n @ [\<lparr>sa_command_id = COMMAND_SET_ZERO, sa_command = ''SET ZRO''\<rparr>]\<rparr>))
      else count_on n)"

text \<open>The response callback; whether the future was ready within a second.\<close>

definition test_response :: "bool \<Rightarrow> test_sensor \<Rightarrow> test_sensor" where
  "test_response ready n = (if ready then n\<lparr>ts_service_done := True\<rparr> else n)"

datatype test_event = Update | Response bool

fun test_step :: "test_event \<Rightarrow> test_sensor \<Rightarrow> test_sensor option" where
  "test_step Update n = test_update n"
| "test_step (Response ready) n = Some (test_response ready n)"

section \<open>Wrenches\<close>

record wrench_stamped =
  ws_stamp :: int
  ws_frame_id :: string
  ws_force :: "double \<times> double \<times> double"
  ws_torque :: "double \<times> double \<times> double"

text \<open>The message of the timer, at the time of the clock of the node.\<close>

definition timer_callback :: "int \<Rightarrow> wrench_stamped" where
  "timer_callback stamp = \<lparr>ws_stamp = stamp, ws_frame_id = '''', ws_force = (Fin 1, Fin 1, Fin 1), ws_torque = (Fin 1, Fin 1, Fin 1)\<rparr>"

record wrench_simulator =
  sim_wrench :: wrench_stamped

definition simulator_initialize :: "int \<Rightarrow> wrench_simulator" where
  "simulator_initialize stamp =
     \<lparr>sim_wrench = \<lparr>ws_stamp = stamp, ws_frame_id = '''', ws_force = (Fin 0, Fin 0, Fin 0), ws_torque = (Fin 0, Fin 0, Fin 0)\<rparr>\<rparr>"

definition wrenchCB :: "wrench_stamped \<Rightarrow> wrench_simulator \<Rightarrow> wrench_simulator" where
  "wrenchCB msg w = w\<lparr>sim_wrench := msg\<rparr>"

definition read_wrench :: "wrench_simulator \<Rightarrow> wrench_stamped" where
  "read_wrench w = sim_wrench w"

lemma reads_last_wrench:
  "read_wrench (fold wrenchCB msgs (simulator_initialize t)) =
     (if msgs = [] then read_wrench (simulator_initialize t) else last msgs)"
  by (induction msgs rule: rev_induct) (simp_all add: read_wrench_def wrenchCB_def)

section \<open>One request\<close>

text \<open>The request is out exactly when the count has passed 50, which the updates reach one by one.\<close>

definition counted :: "test_sensor \<Rightarrow> bool" where
  "counted n \<longleftrightarrow> 0 \<le> ts_count n \<and>
     ts_requests n = (if 50 < ts_count n then [\<lparr>sa_command_id = COMMAND_SET_ZERO, sa_command = ''SET ZRO''\<rparr>] else [])"

lemma test_step_counted:
  assumes "counted n" "test_step e n = Some n'" shows "counted n'"
proof (cases e)
  case Update
  show ?thesis
  proof (cases "ts_count n = 50")
    case True
    then show ?thesis using assms Update
      by (auto simp: counted_def test_update_def count_on_def split: option.splits prod.splits bool.splits if_splits)
  next
    case False
    then show ?thesis using assms Update by (auto simp: counted_def test_update_def count_on_def split: if_splits)
  qed
qed (use assms in \<open>auto simp: counted_def test_response_def split: if_splits\<close>)

lemma zero_request_answered:
  assumes "\<not> c_strstr (''SET'' @ beyond) ''GET''"
  shows "fn_receiver_callback beyond ''SET ZRO'' COMMAND_SET_ZERO node =
    ((Some ''Done'', False), node\<lparr>fn_sensor := rq_state_do_zero_force_flag (fn_sensor node)\<rparr>)"
  using assms by (simp add: fn_receiver_callback_def decode_message_and_do_def c_string_def Let_def)

text \<open>The client zeroes the sensor once: however its updates and the responses interleave and whenever
  the service is there, it has sent no request up to the fiftieth update and exactly one after it; and
  the node that serves it arms the zeroing of the next message, but says that it did not succeed,
  because the request fills in the deprecated command beside the new one.\<close>

theorem zero_is_requested_once:
  assumes "run_steps test_step es (RQTestSensor service) = Some n" "\<not> c_strstr (''SET'' @ beyond) ''GET''"
  shows "length (ts_requests n) = (if 50 < ts_count n then 1 else 0) \<and> ts_count n \<le> int (length (filter (\<lambda>e. e = Update) es)) \<and>
    (\<forall>r \<in> set (ts_requests n). \<exists>node'. fn_receiver_callback beyond (sa_command r) (sa_command_id r) node = ((Some ''Done'', False), node') \<and>
      rq_zero_force_flag (rs_com (fn_sensor node')) = 1)"
proof -
  have "counted (RQTestSensor service)" by (simp add: counted_def RQTestSensor_def)
  then have c: "counted n" using run_steps_invariant [where I = counted, OF assms(1)] test_step_counted by blast
  have up: "ts_count n \<le> ts_count m + int (length (filter (\<lambda>e. e = Update) es))"
    if "run_steps test_step es m = Some n" for m
    using that
  proof (induction es arbitrary: m)
    case (Cons e es)
    then obtain m1 where m1: "test_step e m = Some m1" "run_steps test_step es m1 = Some n" by (auto split: option.splits)
    have "ts_count m1 \<le> ts_count m + (if e = Update then 1 else 0)" using m1(1)
      by (cases e) (auto simp: test_update_def count_on_def test_response_def split: option.splits prod.splits bool.splits if_splits)
    then show ?case using Cons.IH [OF m1(2)] by (auto split: if_splits)
  qed simp
  from up [OF assms(1)] have "ts_count n \<le> int (length (filter (\<lambda>e. e = Update) es))" by (simp add: RQTestSensor_def)
  then show ?thesis using c zero_request_answered [OF assms(2), of node]
    by (auto simp: counted_def rq_state_do_zero_force_flag_def rq_com_do_zero_force_flag_def)
qed

theorem zero_is_requested_once_witness:
  "\<exists>n. run_steps test_step (replicate 51 Update) (RQTestSensor (sconst (True, True))) = Some n \<and> length (ts_requests n) = 1"
proof -
  let ?n = "\<lambda>k. (RQTestSensor (sconst (True, True)))\<lparr>ts_count := k\<rparr>"
  have r: "run_steps test_step (replicate k Update) (?n (50 - int k)) = Some (?n 50)" if "k \<le> 50" for k
    using that by (induction k) (auto simp: test_update_def count_on_def RQTestSensor_def)
  have "\<exists>n. test_update (?n 50) = Some n \<and> ts_count n = 51"
    by (simp add: test_update_def count_on_def RQTestSensor_def wait_for_service.simps)
  then obtain n where n: "test_update (?n 50) = Some n" "ts_count n = 51" by blast
  have z: "?n (50 - int 50) = RQTestSensor (sconst (True, True))" by (simp add: RQTestSensor_def)
  have "replicate 51 Update = replicate 50 Update @ [Update]" by (simp add: replicate_append_same flip: replicate_Suc)
  then have run: "run_steps test_step (replicate 51 Update) (RQTestSensor (sconst (True, True))) = Some n"
    using r [of 50, simplified z] n(1) by (simp add: run_steps_append)
  then show ?thesis using zero_is_requested_once [OF run, of "''''"] n(2) by simp
qed

end
