(* ===== verification/Serial_Port.thy ===== *)
theory Serial_Port
  imports Prelude
begin

text \<open>
  \<^verbatim>\<open>DefaultSerial\<close> of \<^verbatim>\<open>robotiq_driver/src/default_serial.cpp\<close>, the implementation of the
  \<^verbatim>\<open>Serial\<close> interface over the third-party \<^verbatim>\<open>serial::Serial\<close> library. What the library
  does is not code of the repository: each of its calls takes the next entry of a script (an
  arbitrary stream, one per kind of call), so every behaviour of a port is some script. What the
  code does with an entry, the short-read and short-write checks in particular, is modelled as
  written. \<open>sp_sent\<close> logs the buffers handed to the library, in order.
\<close>

datatype exn =
    IOException                \<comment> \<open>\<^verbatim>\<open>serial::IOException\<close>\<close>
  | OtherException string      \<comment> \<open>any other exception of the library\<close>
  | DriverException string     \<comment> \<open>\<^verbatim>\<open>robotiq_driver::DriverException\<close>, with its \<^verbatim>\<open>what()\<close>\<close>

datatype write_event = Wrote nat | Write_throws exn

datatype read_event = Read_bytes "u8 list" | Read_throws exn

record serial_port =
  sp_open :: bool
  sp_port :: string
  sp_timeout :: u32
  sp_baudrate :: u32
  sp_opens :: "exn option stream"
  sp_writes :: "write_event stream"
  sp_reads :: "read_event stream"
  sp_sent :: "u8 list list"

definition serial_open :: "serial_port \<Rightarrow> (exn + unit) \<times> serial_port" where
  "serial_open s =
     (case shd (sp_opens s) of
        None \<Rightarrow> (Inr (), s\<lparr>sp_opens := stl (sp_opens s), sp_open := True\<rparr>)
      | Some e \<Rightarrow> (Inl e, s\<lparr>sp_opens := stl (sp_opens s)\<rparr>))"

definition serial_is_open :: "serial_port \<Rightarrow> bool" where
  "serial_is_open s = sp_open s"

definition serial_close :: "serial_port \<Rightarrow> serial_port" where
  "serial_close s = s\<lparr>sp_open := False\<rparr>"

text \<open>The library appends at most \<open>n\<close> bytes to \<^verbatim>\<open>data\<close> and returns how many.\<close>

definition serial_read :: "nat \<Rightarrow> serial_port \<Rightarrow> (exn + u8 list) \<times> serial_port" where
  "serial_read n s =
     (let s' = s\<lparr>sp_reads := stl (sp_reads s)\<rparr> in
      case shd (sp_reads s) of
        Read_throws e \<Rightarrow> (Inl e, s')
      | Read_bytes bs \<Rightarrow>
          (let data = take n bs; bytes_read = length data in
           if bytes_read \<noteq> n then (Inl IOException, s') else (Inr data, s')))"

definition serial_write :: "u8 list \<Rightarrow> serial_port \<Rightarrow> (exn + unit) \<times> serial_port" where
  "serial_write data s =
     (let s' = s\<lparr>sp_writes := stl (sp_writes s), sp_sent := sp_sent s @ [data]\<rparr> in
      case shd (sp_writes s) of
        Write_throws e \<Rightarrow> (Inl e, s')
      | Wrote num_bytes_written \<Rightarrow>
          (if num_bytes_written \<noteq> length data then (Inl IOException, s') else (Inr (), s')))"

definition serial_set_port :: "string \<Rightarrow> serial_port \<Rightarrow> serial_port" where
  "serial_set_port p s = s\<lparr>sp_port := p\<rparr>"

definition serial_get_port :: "serial_port \<Rightarrow> string" where
  "serial_get_port s = sp_port s"

definition serial_set_timeout :: "int \<Rightarrow> serial_port \<Rightarrow> serial_port" where
  "serial_set_timeout ms s = s\<lparr>sp_timeout := word_of_int ms\<rparr>"

definition serial_get_timeout :: "serial_port \<Rightarrow> int" where
  "serial_get_timeout s = uint (sp_timeout s)"

definition serial_set_baudrate :: "u32 \<Rightarrow> serial_port \<Rightarrow> serial_port" where
  "serial_set_baudrate b s = s\<lparr>sp_baudrate := b\<rparr>"

definition serial_get_baudrate :: "serial_port \<Rightarrow> u32" where
  "serial_get_baudrate s = sp_baudrate s"

section \<open>What a read and a write guarantee\<close>

lemma serial_read_length: "serial_read n s = (Inr data, s') \<Longrightarrow> length data = n"
  by (auto simp: serial_read_def Let_def split: read_event.splits if_splits)

lemma serial_read_sent [frame_simps]: "serial_read n s = (r, s') \<Longrightarrow> sp_sent s' = sp_sent s"
  by (auto simp: serial_read_def Let_def split: read_event.splits if_splits)

lemma serial_write_sent: "serial_write data s = (r, s') \<Longrightarrow> sp_sent s' = sp_sent s @ [data]"
  by (auto simp: serial_write_def Let_def split: write_event.splits if_splits)

lemma serial_timeout_roundtrip:
  "0 \<le> ms \<Longrightarrow> ms < 2 ^ 32 \<Longrightarrow> serial_get_timeout (serial_set_timeout ms s) = ms"
  by (simp add: serial_get_timeout_def serial_set_timeout_def unsigned_of_int take_bit_int_eq_self)

lemma serial_transfer_open:
  shows serial_read_open: "serial_read n s = (q, s') \<Longrightarrow> sp_open s' = sp_open s"
    and serial_write_open: "serial_write data s = (r, s') \<Longrightarrow> sp_open s' = sp_open s"
  by (auto simp: serial_read_def serial_write_def Let_def split: read_event.splits write_event.splits if_splits)

section \<open>The interface\<close>

text \<open>
  The virtual functions of \<^verbatim>\<open>robotiq_driver/include/robotiq_driver/serial.hpp\<close>, as a record of
  operations over the state of an implementation, and what its documentation promises: opening a
  port that reports success leaves it open, closing closes it, a read returns the bytes asked for or
  throws, transfers do not change whether the port is open, and the settings can be read back.
\<close>

record 's serial_ops =
  so_open :: "'s \<Rightarrow> (exn + unit) \<times> 's"
  so_is_open :: "'s \<Rightarrow> bool"
  so_close :: "'s \<Rightarrow> 's"
  so_read :: "nat \<Rightarrow> 's \<Rightarrow> (exn + u8 list) \<times> 's"
  so_write :: "u8 list \<Rightarrow> 's \<Rightarrow> (exn + unit) \<times> 's"
  so_set_port :: "string \<Rightarrow> 's \<Rightarrow> 's"
  so_get_port :: "'s \<Rightarrow> string"
  so_set_timeout :: "int \<Rightarrow> 's \<Rightarrow> 's"
  so_get_timeout :: "'s \<Rightarrow> int"
  so_set_baudrate :: "u32 \<Rightarrow> 's \<Rightarrow> 's"
  so_get_baudrate :: "'s \<Rightarrow> u32"

locale serial_interface =
  fixes ops :: "'s serial_ops"
  assumes open_opens: "so_open ops s = (Inr u, s') \<Longrightarrow> so_is_open ops s'"
    and close_closes: "\<not> so_is_open ops (so_close ops s)"
    and read_size: "so_read ops n s = (Inr bs, s') \<Longrightarrow> length bs = n"
    and read_open: "so_read ops n s = (q, s') \<Longrightarrow> so_is_open ops s' = so_is_open ops s"
    and write_open: "so_write ops data s = (r, s') \<Longrightarrow> so_is_open ops s' = so_is_open ops s"
    and port_kept: "so_get_port ops (so_set_port ops p s) = p"
    and timeout_kept: "0 \<le> ms \<Longrightarrow> ms < 2 ^ 32 \<Longrightarrow> so_get_timeout ops (so_set_timeout ops ms s) = ms"
    and baudrate_kept: "so_get_baudrate ops (so_set_baudrate ops b s) = b"
begin

text \<open>An exchange, as the drivers make it: a request and a response of known size.\<close>

lemma exchange_open:
  "so_write ops data s = (r, s1) \<Longrightarrow> so_read ops n s1 = (q, s2) \<Longrightarrow> so_is_open ops s2 = so_is_open ops s"
  using read_open write_open by metis

end

definition default_serial_ops :: "serial_port serial_ops" where
  "default_serial_ops =
     \<lparr>so_open = serial_open, so_is_open = serial_is_open, so_close = serial_close, so_read = serial_read,
      so_write = serial_write, so_set_port = serial_set_port, so_get_port = serial_get_port,
      so_set_timeout = serial_set_timeout, so_get_timeout = serial_get_timeout,
      so_set_baudrate = serial_set_baudrate, so_get_baudrate = serial_get_baudrate\<rparr>"

interpretation default_serial: serial_interface default_serial_ops
proof (unfold_locales, goal_cases)
  case (1 s u s')
  then show ?case by (auto simp: default_serial_ops_def serial_open_def serial_is_open_def split: option.splits)
next
  case (3 n s bs s')
  then show ?case using serial_read_length by (simp add: default_serial_ops_def)
next
  case (4 n s q s')
  then show ?case using serial_read_open by (simp add: default_serial_ops_def serial_is_open_def)
next
  case (5 data s r s')
  then show ?case using serial_write_open by (simp add: default_serial_ops_def serial_is_open_def)
qed (simp_all add: default_serial_ops_def serial_close_def serial_is_open_def serial_set_port_def serial_get_port_def
    serial_timeout_roundtrip serial_set_baudrate_def serial_get_baudrate_def)

end
