(* ===== verification/Gripper_Driver.thy ===== *)
theory Gripper_Driver
  imports Serial_Port
begin

text \<open>
  The \<^verbatim>\<open>Driver\<close> interface of \<^verbatim>\<open>robotiq_driver/include/robotiq_driver/driver.hpp\<close>: its four
  status enumerations, its virtual functions as a record of operations over the state of an
  implementation, and the contract that the hardware interface relies on. An operation that may
  throw returns a sum; \<^verbatim>\<open>activate\<close> may also never return, which is \<open>None\<close>.
\<close>

datatype activation_status = ACT_RESET | ACT_ACTIVE
datatype action_status = ACTION_STOPPED | ACTION_MOVING
datatype gripper_status = GRIPPER_RESET | GRIPPER_IN_PROGRESS | GRIPPER_COMPLETED
datatype object_detection_status =
    OBJ_MOVING | OBJECT_DETECTED_OPENING | OBJECT_DETECTED_CLOSING | AT_REQUESTED_POSITION

record 'd driver_ops =
  op_set_slave_address :: "u8 \<Rightarrow> 'd \<Rightarrow> 'd"
  op_connect :: "'d \<Rightarrow> (exn + bool) \<times> 'd"
  op_disconnect :: "'d \<Rightarrow> 'd"
  op_activate :: "'d \<Rightarrow> ((exn + unit) \<times> 'd) option"
  op_deactivate :: "'d \<Rightarrow> (exn + unit) \<times> 'd"
  op_set_gripper_position :: "u8 \<Rightarrow> 'd \<Rightarrow> (exn + unit) \<times> 'd"
  op_get_gripper_position :: "'d \<Rightarrow> (exn + u8) \<times> 'd"
  op_gripper_is_moving :: "'d \<Rightarrow> (exn + bool) \<times> 'd"
  op_set_speed :: "u8 \<Rightarrow> 'd \<Rightarrow> 'd"
  op_set_force :: "u8 \<Rightarrow> 'd \<Rightarrow> 'd"

text \<open>
  The contract: setting the speed or the force cannot fail, takes effect in the driver's commanded
  values, and no operation that talks to the gripper changes those values.
\<close>

locale gripper_driver =
  fixes ops :: "'d driver_ops"
    and speed :: "'d \<Rightarrow> u8"
    and force :: "'d \<Rightarrow> u8"
  assumes speed_set_speed: "speed (op_set_speed ops v d) = v"
    and force_set_speed: "force (op_set_speed ops v d) = force d"
    and force_set_force: "force (op_set_force ops v d) = v"
    and speed_set_force: "speed (op_set_force ops v d) = speed d"
    and activate_keeps: "op_activate ops d = Some (r, d') \<Longrightarrow> speed d' = speed d \<and> force d' = force d"
    and deactivate_keeps: "op_deactivate ops d = (r2, d') \<Longrightarrow> speed d' = speed d \<and> force d' = force d"
    and set_position_keeps:
      "op_set_gripper_position ops p d = (r3, d') \<Longrightarrow> speed d' = speed d \<and> force d' = force d"
    and get_position_keeps:
      "op_get_gripper_position ops d = (r4, d') \<Longrightarrow> speed d' = speed d \<and> force d' = force d"

text \<open>
  The contract about the link: connecting reports whether the link is up, and nothing but disconnecting
  takes it down.
\<close>

locale driver_link =
  fixes ops :: "'d driver_ops"
    and linked :: "'d \<Rightarrow> bool"
  assumes connect_links: "op_connect ops d = (Inr True, d') \<Longrightarrow> linked d'"
    and connect_stays: "op_connect ops d = (r1, d') \<Longrightarrow> linked d \<Longrightarrow> linked d'"
    and activate_stays: "op_activate ops d = Some (r2, d') \<Longrightarrow> linked d \<Longrightarrow> linked d'"
    and deactivate_stays: "op_deactivate ops d = (r3, d') \<Longrightarrow> linked d \<Longrightarrow> linked d'"
    and set_position_stays: "op_set_gripper_position ops p d = (r4, d') \<Longrightarrow> linked d \<Longrightarrow> linked d'"
    and get_position_stays: "op_get_gripper_position ops d = (r5, d') \<Longrightarrow> linked d \<Longrightarrow> linked d'"
    and set_speed_stays: "linked d \<Longrightarrow> linked (op_set_speed ops v d)"
    and set_force_stays: "linked d \<Longrightarrow> linked (op_set_force ops v d)"

end
