(* ===== verification/Crc_Utils.thy ===== *)
theory Crc_Utils
  imports Rq_Crc
begin

text \<open>
  The table-driven CRC-16/Modbus of \<^verbatim>\<open>robotiq_driver/src/crc_utils.cpp\<close>: the two tables as
  the source lists them, the loop body and the function \<^verbatim>\<open>compute_crc\<close>. The lemmas show that
  the tables are the eight-step bitwise CRC of each index, so the function computes the bitwise CRC
  of the sensor driver with its two bytes swapped, and that it inherits the checksum contract.
\<close>

definition kCRCHiTable :: "u8 list" where
  "kCRCHiTable = [
    0x00, 0xC1, 0x81, 0x40, 0x01, 0xC0, 0x80, 0x41,
    0x01, 0xC0, 0x80, 0x41, 0x00, 0xC1, 0x81, 0x40,
    0x01, 0xC0, 0x80, 0x41, 0x00, 0xC1, 0x81, 0x40,
    0x00, 0xC1, 0x81, 0x40, 0x01, 0xC0, 0x80, 0x41,
    0x01, 0xC0, 0x80, 0x41, 0x00, 0xC1, 0x81, 0x40,
    0x00, 0xC1, 0x81, 0x40, 0x01, 0xC0, 0x80, 0x41,
    0x00, 0xC1, 0x81, 0x40, 0x01, 0xC0, 0x80, 0x41,
    0x01, 0xC0, 0x80, 0x41, 0x00, 0xC1, 0x81, 0x40,
    0x01, 0xC0, 0x80, 0x41, 0x00, 0xC1, 0x81, 0x40,
    0x00, 0xC1, 0x81, 0x40, 0x01, 0xC0, 0x80, 0x41,
    0x00, 0xC1, 0x81, 0x40, 0x01, 0xC0, 0x80, 0x41,
    0x01, 0xC0, 0x80, 0x41, 0x00, 0xC1, 0x81, 0x40,
    0x00, 0xC1, 0x81, 0x40, 0x01, 0xC0, 0x80, 0x41,
    0x01, 0xC0, 0x80, 0x41, 0x00, 0xC1, 0x81, 0x40,
    0x01, 0xC0, 0x80, 0x41, 0x00, 0xC1, 0x81, 0x40,
    0x00, 0xC1, 0x81, 0x40, 0x01, 0xC0, 0x80, 0x41,
    0x01, 0xC0, 0x80, 0x41, 0x00, 0xC1, 0x81, 0x40,
    0x00, 0xC1, 0x81, 0x40, 0x01, 0xC0, 0x80, 0x41,
    0x00, 0xC1, 0x81, 0x40, 0x01, 0xC0, 0x80, 0x41,
    0x01, 0xC0, 0x80, 0x41, 0x00, 0xC1, 0x81, 0x40,
    0x00, 0xC1, 0x81, 0x40, 0x01, 0xC0, 0x80, 0x41,
    0x01, 0xC0, 0x80, 0x41, 0x00, 0xC1, 0x81, 0x40,
    0x01, 0xC0, 0x80, 0x41, 0x00, 0xC1, 0x81, 0x40,
    0x00, 0xC1, 0x81, 0x40, 0x01, 0xC0, 0x80, 0x41,
    0x00, 0xC1, 0x81, 0x40, 0x01, 0xC0, 0x80, 0x41,
    0x01, 0xC0, 0x80, 0x41, 0x00, 0xC1, 0x81, 0x40,
    0x01, 0xC0, 0x80, 0x41, 0x00, 0xC1, 0x81, 0x40,
    0x00, 0xC1, 0x81, 0x40, 0x01, 0xC0, 0x80, 0x41,
    0x01, 0xC0, 0x80, 0x41, 0x00, 0xC1, 0x81, 0x40,
    0x00, 0xC1, 0x81, 0x40, 0x01, 0xC0, 0x80, 0x41,
    0x00, 0xC1, 0x81, 0x40, 0x01, 0xC0, 0x80, 0x41,
    0x01, 0xC0, 0x80, 0x41, 0x00, 0xC1, 0x81, 0x40]"

definition kCRCLoTable :: "u8 list" where
  "kCRCLoTable = [
    0x00, 0xC0, 0xC1, 0x01, 0xC3, 0x03, 0x02, 0xC2,
    0xC6, 0x06, 0x07, 0xC7, 0x05, 0xC5, 0xC4, 0x04,
    0xCC, 0x0C, 0x0D, 0xCD, 0x0F, 0xCF, 0xCE, 0x0E,
    0x0A, 0xCA, 0xCB, 0x0B, 0xC9, 0x09, 0x08, 0xC8,
    0xD8, 0x18, 0x19, 0xD9, 0x1B, 0xDB, 0xDA, 0x1A,
    0x1E, 0xDE, 0xDF, 0x1F, 0xDD, 0x1D, 0x1C, 0xDC,
    0x14, 0xD4, 0xD5, 0x15, 0xD7, 0x17, 0x16, 0xD6,
    0xD2, 0x12, 0x13, 0xD3, 0x11, 0xD1, 0xD0, 0x10,
    0xF0, 0x30, 0x31, 0xF1, 0x33, 0xF3, 0xF2, 0x32,
    0x36, 0xF6, 0xF7, 0x37, 0xF5, 0x35, 0x34, 0xF4,
    0x3C, 0xFC, 0xFD, 0x3D, 0xFF, 0x3F, 0x3E, 0xFE,
    0xFA, 0x3A, 0x3B, 0xFB, 0x39, 0xF9, 0xF8, 0x38,
    0x28, 0xE8, 0xE9, 0x29, 0xEB, 0x2B, 0x2A, 0xEA,
    0xEE, 0x2E, 0x2F, 0xEF, 0x2D, 0xED, 0xEC, 0x2C,
    0xE4, 0x24, 0x25, 0xE5, 0x27, 0xE7, 0xE6, 0x26,
    0x22, 0xE2, 0xE3, 0x23, 0xE1, 0x21, 0x20, 0xE0,
    0xA0, 0x60, 0x61, 0xA1, 0x63, 0xA3, 0xA2, 0x62,
    0x66, 0xA6, 0xA7, 0x67, 0xA5, 0x65, 0x64, 0xA4,
    0x6C, 0xAC, 0xAD, 0x6D, 0xAF, 0x6F, 0x6E, 0xAE,
    0xAA, 0x6A, 0x6B, 0xAB, 0x69, 0xA9, 0xA8, 0x68,
    0x78, 0xB8, 0xB9, 0x79, 0xBB, 0x7B, 0x7A, 0xBA,
    0xBE, 0x7E, 0x7F, 0xBF, 0x7D, 0xBD, 0xBC, 0x7C,
    0xB4, 0x74, 0x75, 0xB5, 0x77, 0xB7, 0xB6, 0x76,
    0x72, 0xB2, 0xB3, 0x73, 0xB1, 0x71, 0x70, 0xB0,
    0x50, 0x90, 0x91, 0x51, 0x93, 0x53, 0x52, 0x92,
    0x96, 0x56, 0x57, 0x97, 0x55, 0x95, 0x94, 0x54,
    0x9C, 0x5C, 0x5D, 0x9D, 0x5F, 0x9F, 0x9E, 0x5E,
    0x5A, 0x9A, 0x9B, 0x5B, 0x99, 0x59, 0x58, 0x98,
    0x88, 0x48, 0x49, 0x89, 0x4B, 0x8B, 0x8A, 0x4A,
    0x4E, 0x8E, 0x8F, 0x4F, 0x8D, 0x4D, 0x4C, 0x8C,
    0x44, 0x84, 0x85, 0x45, 0x87, 0x47, 0x46, 0x86,
    0x82, 0x42, 0x43, 0x83, 0x41, 0x81, 0x80, 0x40]"

text \<open>The loop body; the state is the pair of the two accumulators \<open>(crc_hi, crc_lo)\<close>.\<close>

definition crc_step :: "u16 \<times> u16 \<Rightarrow> u8 \<Rightarrow> u16 \<times> u16" where
  "crc_step st byte =
     (case st of (crc_hi, crc_lo) \<Rightarrow>
        let index = (ucast (crc_lo XOR ucast byte) :: u8);
            crc_lo' = crc_hi XOR ucast (kCRCHiTable ! unat index);
            crc_hi' = ucast (kCRCLoTable ! unat index)
        in (crc_hi', crc_lo'))"

definition compute_crc :: "u8 list \<Rightarrow> u16" where
  "compute_crc cmd =
     (case foldl crc_step (0x00FF, 0x00FF) cmd of (crc_hi, crc_lo) \<Rightarrow> push_bit 8 crc_lo + crc_hi)"

section \<open>The tables are the bitwise CRC\<close>

lemma tables_length [simp]: "length kCRCHiTable = 256" "length kCRCLoTable = 256"
  by (simp_all add: kCRCHiTable_def kCRCLoTable_def)

text \<open>The tables, checked entry by entry from index \<open>i\<close> on.\<close>

fun tables_ok :: "u16 \<Rightarrow> u8 list \<Rightarrow> u8 list \<Rightarrow> bool" where
  "tables_ok i (hi # his) (lo # los) \<longleftrightarrow>
     (rq_crc_bit ^^ 8) i = push_bit 8 (ucast lo) OR ucast hi \<and> tables_ok (i + 1) his los"
| "tables_ok i _ _ \<longleftrightarrow> True"

lemma rq_crc_bit_numeral:
  "rq_crc_bit x = (if odd x then drop_bit 1 x XOR 0xA001 else drop_bit 1 x)"
  by (simp add: rq_crc_bit_alt bit_0)

lemma funpow_8: "(f ^^ 8) x = f (f (f (f (f (f (f (f x)))))))"
  by (simp add: eval_nat_numeral)

lemma tables_ok_nth:
  "tables_ok i his los \<Longrightarrow> k < length his \<Longrightarrow> k < length los \<Longrightarrow>
   (rq_crc_bit ^^ 8) (i + of_nat k) = push_bit 8 (ucast (los ! k)) OR ucast (his ! k)"
proof (induction i his los arbitrary: k rule: tables_ok.induct)
  case (1 i hi his lo los)
  show ?case
  proof (cases k)
    case 0
    with "1.prems" show ?thesis by (simp del: funpow.simps)
  next
    case (Suc m)
    with "1.prems" "1.IH" [of m] show ?thesis by (simp add: add.assoc del: funpow.simps)
  qed
qed auto

lemma tables_ok_all: "tables_ok 0 kCRCHiTable kCRCLoTable"
  by (simp add: kCRCHiTable_def kCRCLoTable_def funpow_8 rq_crc_bit_numeral)

lemma table_lookup:
  "(rq_crc_bit ^^ 8) (ucast (i :: u8)) =
     push_bit 8 (ucast (kCRCLoTable ! unat i)) OR ucast (kCRCHiTable ! unat i)"
  using tables_ok_nth [OF tables_ok_all, of "unat i"] by simp

text \<open>The two accumulators of the source hold the high and the low byte of the bitwise CRC.\<close>

definition crc_abs :: "u16 \<Rightarrow> u16 \<times> u16" where
  "crc_abs c = (ucast (ucast (drop_bit 8 c) :: u8), ucast (ucast c :: u8))"

definition swap16 :: "u16 \<Rightarrow> u16" where
  "swap16 c = push_bit 8 (ucast (ucast c :: u8)) OR ucast (ucast (drop_bit 8 c) :: u8)"

lemma crc_abs_inj: "crc_abs c = crc_abs d \<Longrightarrow> c = d"
  by (rule u16_eq_bytesI) (auto simp: crc_abs_def dest: ucast_u8_u16_inj)

lemma swap16_swap16 [simp]: "swap16 (swap16 c) = c"
  unfolding swap16_def by (rule bit_eqI) (auto simp: bit_simps)

lemma swap16_inj: "swap16 c = swap16 d \<Longrightarrow> c = d"
  by (metis swap16_swap16)

lemma rq_crc_byte_split:
  "rq_crc_byte c b = ucast (ucast (drop_bit 8 c) :: u8) XOR (rq_crc_bit ^^ 8) (ucast (ucast c XOR b :: u8))"
proof -
  have "c XOR ucast b =
      push_bit 8 (ucast (ucast (drop_bit 8 c) :: u8)) XOR ucast (ucast c XOR b :: u8)"
    by (rule bit_eqI) (auto simp: bit_simps dest: bit_u8_less)
  then show ?thesis by (simp only: rq_crc_byte_def rq_crc_bits_xor rq_crc_bits8_push)
qed

lemma crc_index: "(ucast (ucast (ucast (c :: u16) :: u8) XOR ucast b :: u16) :: u8) = ucast c XOR b"
  by (rule bit_eqI) (auto simp: bit_simps)

lemma crc_abs_split:
  "crc_abs (ucast (h :: u8) XOR (push_bit 8 (ucast (lo :: u8)) OR ucast (hi :: u8))) = (ucast lo, ucast h XOR ucast hi)"
  unfolding crc_abs_def
  by (simp, intro conjI bit_eqI) (auto simp: bit_simps dest: bit_u8_less)

lemma crc_step_sim: "crc_step (crc_abs c) b = crc_abs (rq_crc_byte c b)"
  unfolding rq_crc_byte_split table_lookup crc_abs_split
  by (simp add: crc_step_def crc_abs_def crc_index Let_def)

lemma foldl_crc_step: "foldl crc_step (crc_abs c) xs = crc_abs (foldl rq_crc_byte c xs)"
  by (induction xs arbitrary: c) (simp_all add: crc_step_sim)

lemma crc_init: "(0x00FF, 0x00FF) = crc_abs 0xFFFF"
  by (simp add: crc_abs_def)

lemma compute_crc_eq_swap: "compute_crc cmd = swap16 (crc_of cmd)"
  unfolding compute_crc_def crc_init foldl_crc_step
  by (simp add: crc_abs_def swap16_def u16_plus_eq_or)

interpretation table_crc: byte_checksum crc_step "\<lambda>st. \<exists>c. st = crc_abs c"
proof (unfold_locales, goal_cases)
  case (1 s b)
  then show ?case by (auto simp: crc_step_sim)
next
  case (2 s t b)
  then obtain c d where s: "s = crc_abs c" "t = crc_abs d" "crc_step s b = crc_step t b" by auto
  then have "rq_crc_byte c b = rq_crc_byte d b" by (auto simp: crc_step_sim dest: crc_abs_inj)
  then show ?case using s(1,2) by (auto dest: rq_crc.step_inj [OF TrueI TrueI])
next
  case (3 s b c b' c')
  then show ?case by (auto simp: crc_step_sim dest!: crc_abs_inj rq_crc.step_inj2 [OF TrueI])
qed

lemma compute_crc_eqD:
  assumes "compute_crc xs = compute_crc ys"
  shows "foldl crc_step (crc_abs 0xFFFF) xs = foldl crc_step (crc_abs 0xFFFF) ys"
  using assms by (auto simp: compute_crc_eq_swap foldl_crc_step dest: swap16_inj)

section \<open>Properties\<close>

text \<open>C1. The table-driven CRC is the bitwise CRC of the sensor driver with its two bytes swapped: for
  every message, \<^verbatim>\<open>compute_crc\<close> (high byte first on the wire) and \<^verbatim>\<open>rq_com_compute_crc\<close> (low
  byte first on the wire) stand for the same checksum.\<close>

theorem compute_crc_is_bitwise_crc:
  "compute_crc cmd = swap16 (rq_com_compute_crc (Some cmd) (int (length cmd)))"
  by (simp add: compute_crc_eq_swap)

text \<open>C2. Error detection: two messages that differ only within two neighbouring bytes never have
  the same \<^verbatim>\<open>compute_crc\<close>.\<close>

theorem compute_crc_detects_two_bytes:
  assumes "(b, c) \<noteq> (b', c')"
  shows "compute_crc (xs @ [b, c] @ ys) \<noteq> compute_crc (xs @ [b', c'] @ ys)"
  using table_crc.detects_two_bytes [of "crc_abs 0xFFFF" xs b c ys b' c'] assms
    compute_crc_eqD [of "xs @ [b, c] @ ys" "xs @ [b', c'] @ ys"] by auto

theorem compute_crc_detects_two_bytes_witness:
  "((0x10 :: u8, 0x03 :: u8) \<noteq> (0x10, 0x83)) \<and>
   compute_crc ([9] @ [0x10, 0x03] @ [0xE8]) \<noteq> compute_crc ([9] @ [0x10, 0x83] @ [0xE8])"
proof -
  have ne: "(0x10 :: u8, 0x03 :: u8) \<noteq> (0x10, 0x83)" by simp
  show ?thesis using ne compute_crc_detects_two_bytes [OF ne, of "[9]" "[0xE8]"] by simp
qed

end
