(* ===== verification/Data_Utils.thy ===== *)
theory Data_Utils
  imports Prelude
begin

text \<open>
  The formatting helpers of \<^verbatim>\<open>robotiq_driver/src/data_utils.cpp\<close>: hexadecimal and binary
  renderings used in logs and tests, and the split of a 16-bit register into its two bytes, on which
  every Modbus request of the two-finger driver rests. The lemmas give the length of a rendering,
  show that a rendering determines the data, and that the two bytes rebuild the register.
\<close>

definition vChars :: string where
  "vChars = ''0123456789ABCDEF''"

text \<open>The two overloads of \<^verbatim>\<open>to_hex\<close>; the accumulator is the string \<^verbatim>\<open>hex\<close>, the flag says
  whether the iterator stands at \<^verbatim>\<open>begin()\<close>.\<close>

fun to_hex_u8_loop :: "bool \<Rightarrow> string \<Rightarrow> u8 list \<Rightarrow> string" where
  "to_hex_u8_loop first hex [] = hex"
| "to_hex_u8_loop first hex (ch # rest) =
     to_hex_u8_loop False
       ((if first then hex else hex @ '' '') @ ''''
         @ [vChars ! unat (drop_bit 4 ch AND 0xF)] @ [vChars ! unat (ch AND 0xF)]) rest"

definition to_hex_u8 :: "u8 list \<Rightarrow> string" where
  "to_hex_u8 bytes = to_hex_u8_loop True '''' bytes"

fun to_hex_u16_loop :: "bool \<Rightarrow> string \<Rightarrow> u16 list \<Rightarrow> string" where
  "to_hex_u16_loop first hex [] = hex"
| "to_hex_u16_loop first hex (ch # rest) =
     to_hex_u16_loop False
       ((if first then hex else hex @ '' '') @ ''''
         @ [vChars ! unat (drop_bit 12 ch AND 0xF)] @ [vChars ! unat (drop_bit 8 ch AND 0xF)]
         @ [vChars ! unat (drop_bit 4 ch AND 0xF)] @ [vChars ! unat (ch AND 0xF)]) rest"

definition to_hex_u16 :: "u16 list \<Rightarrow> string" where
  "to_hex_u16 bytes = to_hex_u16_loop True '''' bytes"

definition to_binary_string :: "u8 \<Rightarrow> string" where
  "to_binary_string byte =
     map (\<lambda>i. if drop_bit i byte AND 1 \<noteq> 0 then CHR ''1'' else CHR ''0'') (rev [0..<8])"

definition get_msb :: "u16 \<Rightarrow> u8" where
  "get_msb value = ucast (drop_bit 8 value) AND 0xFF"

definition get_lsb :: "u16 \<Rightarrow> u8" where
  "get_lsb value = ucast (value AND 0xFF)"

section \<open>Bytes of a register\<close>

lemma get_msb_alt: "get_msb v = ucast (drop_bit 8 v)"
  unfolding get_msb_def by (rule bit_eqI) (auto simp: and_low_mask bit_simps dest: bit_u8_less)

lemma get_lsb_alt: "get_lsb v = ucast v"
  unfolding get_lsb_def by (rule bit_eqI) (auto simp: and_low_mask bit_simps)

lemma get_msb_lsb: "push_bit 8 (ucast (get_msb v)) OR ucast (get_lsb v) = (v :: u16)"
  using u16_bytes_split [of v] by (simp add: get_msb_alt get_lsb_alt)

lemma get_msb_inj: "get_msb v = get_msb w \<Longrightarrow> get_lsb v = get_lsb w \<Longrightarrow> v = w"
  by (metis get_msb_lsb)

lemma get_bytes_of_pair [simp]:
  "get_msb (push_bit 8 (ucast (h :: u8)) OR ucast (l :: u8)) = h"
  "get_lsb (push_bit 8 (ucast (h :: u8)) OR ucast (l :: u8)) = l"
  unfolding get_msb_alt get_lsb_alt
  by (rule bit_eqI, auto simp: bit_simps dest: bit_u8_less)+

section \<open>Renderings\<close>

lemma vChars_inj: "i < 16 \<Longrightarrow> j < 16 \<Longrightarrow> vChars ! i = vChars ! j \<Longrightarrow> i = j"
proof -
  have "distinct vChars" "length vChars = 16" by (simp_all add: vChars_def)
  then show "i < 16 \<Longrightarrow> j < 16 \<Longrightarrow> vChars ! i = vChars ! j \<Longrightarrow> i = j"
    by (simp add: nth_eq_iff_index_eq)
qed

lemma unat_nibble_less [simp]: "unat (take_bit 4 (x :: 'a :: len word)) < 16"
  using unat_take_bit_less [of 4 x] by simp

lemma vChars_nibble_eq:
  "vChars ! unat (take_bit 4 (x :: 'a :: len word)) = vChars ! unat (take_bit 4 (y :: 'a word))
     \<longleftrightarrow> take_bit 4 x = take_bit 4 y"
  using vChars_inj [of "unat (take_bit 4 x)" "unat (take_bit 4 y)"] by (auto simp: word_unat_eq_iff)

text \<open>What one element contributes, and the whole text as its concatenation with separators.\<close>

definition hex_u8 :: "u8 \<Rightarrow> string" where
  "hex_u8 ch = [vChars ! unat (drop_bit 4 ch AND 0xF), vChars ! unat (ch AND 0xF)]"

definition hex_u16 :: "u16 \<Rightarrow> string" where
  "hex_u16 ch = [vChars ! unat (drop_bit 12 ch AND 0xF), vChars ! unat (drop_bit 8 ch AND 0xF),
                 vChars ! unat (drop_bit 4 ch AND 0xF), vChars ! unat (ch AND 0xF)]"

lemma to_hex_u8_loop_False:
  "to_hex_u8_loop False hex xs = hex @ concat (map (\<lambda>x. '' '' @ hex_u8 x) xs)"
  by (induction xs arbitrary: hex) (simp_all add: hex_u8_def)

lemma to_hex_u16_loop_False:
  "to_hex_u16_loop False hex xs = hex @ concat (map (\<lambda>x. '' '' @ hex_u16 x) xs)"
  by (induction xs arbitrary: hex) (simp_all add: hex_u16_def)

lemma to_hex_u8_simps:
  "to_hex_u8 [] = ''''"
  "to_hex_u8 (x # xs) = hex_u8 x @ concat (map (\<lambda>x. '' '' @ hex_u8 x) xs)"
  by (simp_all add: to_hex_u8_def to_hex_u8_loop_False hex_u8_def)

lemma to_hex_u16_simps:
  "to_hex_u16 [] = ''''"
  "to_hex_u16 (x # xs) = hex_u16 x @ concat (map (\<lambda>x. '' '' @ hex_u16 x) xs)"
  by (simp_all add: to_hex_u16_def to_hex_u16_loop_False hex_u16_def)

lemma length_hex [simp]: "length (hex_u8 x) = 2" "length (hex_u16 y) = 4"
  by (simp_all add: hex_u8_def hex_u16_def)

lemma hex_u8_inj: "hex_u8 x = hex_u8 y \<Longrightarrow> x = y"
proof -
  assume "hex_u8 x = hex_u8 y"
  then have *: "take_bit 4 (drop_bit 4 x) = take_bit 4 (drop_bit 4 y)" "take_bit 4 x = take_bit 4 y"
    by (simp_all add: hex_u8_def and_low_mask vChars_nibble_eq)
  show "x = y"
  proof (rule bit_word_eqI)
    fix n assume "n < LENGTH(8)"
    then show "bit x n = bit y n"
      using arg_cong [OF *(1), of "\<lambda>w. bit w (n - 4)"] arg_cong [OF *(2), of "\<lambda>w. bit w n"]
      by (cases "n < 4") (simp_all add: bit_simps less_diff_conv2)
  qed
qed

lemma hex_u16_inj: "hex_u16 x = hex_u16 y \<Longrightarrow> x = y"
proof -
  assume "hex_u16 x = hex_u16 y"
  then have *: "take_bit 4 (drop_bit 12 x) = take_bit 4 (drop_bit 12 y)"
    "take_bit 4 (drop_bit 8 x) = take_bit 4 (drop_bit 8 y)"
    "take_bit 4 (drop_bit 4 x) = take_bit 4 (drop_bit 4 y)" "take_bit 4 x = take_bit 4 y"
    by (simp_all add: hex_u16_def and_low_mask vChars_nibble_eq)
  show "x = y"
  proof (rule bit_word_eqI)
    fix n assume "n < LENGTH(16)"
    then consider "n < 4" | "4 \<le> n" "n < 8" | "8 \<le> n" "n < 12" | "12 \<le> n" "n < 16" by force
    then show "bit x n = bit y n"
      using arg_cong [OF *(1), of "\<lambda>w. bit w (n - 12)"] arg_cong [OF *(2), of "\<lambda>w. bit w (n - 8)"]
        arg_cong [OF *(3), of "\<lambda>w. bit w (n - 4)"] arg_cong [OF *(4), of "\<lambda>w. bit w n"]
      by cases (simp_all add: bit_simps less_diff_conv2)
  qed
qed

text \<open>Blocks of a fixed width determine the list they were made from.\<close>

lemma concat_fixed_inj:
  assumes len: "\<And>x. length (f x) = Suc n" and inj: "\<And>x y. f x = f y \<Longrightarrow> x = y"
  shows "concat (map f xs) = concat (map f ys) \<Longrightarrow> xs = ys"
proof (induction xs arbitrary: ys)
  case Nil
  then show ?case using len by (cases ys) (auto, metis length_0_conv nat.distinct(1))
next
  case (Cons x xs)
  show ?case
  proof (cases ys)
    case Nil
    then show ?thesis using Cons.prems len [of x] by auto
  next
    case (Cons y ys')
    with Cons.prems have "f x = f y \<and> concat (map f xs) = concat (map f ys')"
      by (simp add: append_eq_append_conv len)
    with Cons Cons.IH inj show ?thesis by auto
  qed
qed

lemma to_hex_u8_nonempty: "xs \<noteq> [] \<Longrightarrow> '' '' @ to_hex_u8 xs = concat (map (\<lambda>x. '' '' @ hex_u8 x) xs)"
  by (cases xs) (simp_all add: to_hex_u8_simps)

lemma to_hex_u16_nonempty: "xs \<noteq> [] \<Longrightarrow> '' '' @ to_hex_u16 xs = concat (map (\<lambda>x. '' '' @ hex_u16 x) xs)"
  by (cases xs) (simp_all add: to_hex_u16_simps)

lemma length_concat_fixed: "(\<And>x. length (f x) = n) \<Longrightarrow> length (concat (map f xs)) = n * length xs"
  by (induction xs) simp_all

lemma length_to_hex_u8: "length (to_hex_u8 xs) = 3 * length xs - 1"
  by (cases xs) (simp_all add: to_hex_u8_simps length_concat_fixed [where n = 3])

lemma length_to_hex_u16: "length (to_hex_u16 xs) = 5 * length xs - 1"
  by (cases xs) (simp_all add: to_hex_u16_simps length_concat_fixed [where n = 5])

lemma to_hex_u8_eqD: "to_hex_u8 xs = to_hex_u8 ys \<Longrightarrow> xs = ys"
proof -
  assume eq: "to_hex_u8 xs = to_hex_u8 ys"
  from arg_cong [OF eq, of length] have "xs = [] \<longleftrightarrow> ys = []"
    by (cases xs; cases ys) (simp_all add: length_to_hex_u8)
  then show "xs = ys"
    using eq to_hex_u8_nonempty [of xs] to_hex_u8_nonempty [of ys]
      concat_fixed_inj [of "\<lambda>x. '' '' @ hex_u8 x" 2 xs ys]
    by (cases "xs = []") (auto dest: hex_u8_inj)
qed

lemma to_hex_u16_eqD: "to_hex_u16 xs = to_hex_u16 ys \<Longrightarrow> xs = ys"
proof -
  assume eq: "to_hex_u16 xs = to_hex_u16 ys"
  from arg_cong [OF eq, of length] have "xs = [] \<longleftrightarrow> ys = []"
    by (cases xs; cases ys) (simp_all add: length_to_hex_u16)
  then show "xs = ys"
    using eq to_hex_u16_nonempty [of xs] to_hex_u16_nonempty [of ys]
      concat_fixed_inj [of "\<lambda>x. '' '' @ hex_u16 x" 4 xs ys]
    by (cases "xs = []") (auto dest: hex_u16_inj)
qed

section \<open>Renderings are faithful\<close>

text \<open>A hexadecimal rendering has a fixed length per element and determines the data: no two
  different byte sequences, and no two different register sequences, print the same.\<close>

theorem to_hex_faithful:
  "length (to_hex_u8 bs) = 3 * length bs - 1 \<and> length (to_hex_u16 ws) = 5 * length ws - 1 \<and>
   (to_hex_u8 bs = to_hex_u8 bs' \<longleftrightarrow> bs = bs') \<and> (to_hex_u16 ws = to_hex_u16 ws' \<longleftrightarrow> ws = ws')"
  by (auto simp: length_to_hex_u8 length_to_hex_u16 dest: to_hex_u8_eqD to_hex_u16_eqD)

end
