(* ===== verification/Default_Driver.thy ===== *)
theory Default_Driver
  imports Gripper_Driver Crc_Utils Data_Utils
begin

text \<open>
  \<^verbatim>\<open>DefaultDriver\<close> of \<^verbatim>\<open>robotiq_driver/src/default_driver.cpp\<close>: the Modbus RTU driver of the
  two-finger gripper. The state holds the serial port and the members of the class; the operations
  are the member functions with their retry loop, their exceptions and their framing. The lemmas
  give the exact bytes of the requests, the retry behaviour, the decoding of the status byte and
  when the polling loop of \<^verbatim>\<open>activate\<close> returns.
\<close>

definition kReadFunctionCode :: u8 where "kReadFunctionCode = 0x03"
definition kFirstOutputRegister :: u16 where "kFirstOutputRegister = 0x07D0"
definition kNumOutputRegisters :: u16 where "kNumOutputRegisters = 0x0006"
definition kReadResponseSize :: nat where "kReadResponseSize = 2 * unat kNumOutputRegisters + 5"
definition kWriteFunctionCode :: u8 where "kWriteFunctionCode = 0x10"
definition kActionRequestRegister :: u16 where "kActionRequestRegister = 0x03E8"
definition kWriteResponseSize :: nat where "kWriteResponseSize = 8"
definition kResponseHeaderSize :: nat where "kResponseHeaderSize = 3"
definition kGripperStatusIndex :: nat where "kGripperStatusIndex = 0"
definition kPositionIndex :: nat where "kPositionIndex = 4"
definition kMaxRetries :: nat where "kMaxRetries = 5"

record default_driver =
  dd_serial :: serial_port
  dd_slave_address :: u8
  dd_activation_status :: activation_status
  dd_action_status :: action_status
  dd_gripper_status :: gripper_status
  dd_object_detection_status :: object_detection_status
  dd_gripper_position :: u8
  dd_commanded_gripper_speed :: u8
  dd_commanded_gripper_force :: u8

text \<open>The constructor sets the port and the two commanded values; the other members keep whatever
  the uninitialised storage \<open>d\<close> holds.\<close>

definition DefaultDriver :: "serial_port \<Rightarrow> default_driver \<Rightarrow> default_driver" where
  "DefaultDriver serial d =
     d\<lparr>dd_serial := serial, dd_commanded_gripper_speed := 0x80, dd_commanded_gripper_force := 0x80\<rparr>"

definition driver_exception :: "string \<Rightarrow> exn" where
  "driver_exception description = DriverException (''DriverException: '' @ description @ ''.'')"

text \<open>One pass of the \<^verbatim>\<open>try\<close> block of \<^verbatim>\<open>send\<close>, and the retry loop around it.\<close>

definition send_attempt :: "u8 list \<Rightarrow> nat \<Rightarrow> serial_port \<Rightarrow> (exn + u8 list) \<times> serial_port" where
  "send_attempt request response_size s =
     (case serial_write request s of
        (Inl e, s1) \<Rightarrow> (Inl e, s1)
      | (Inr _, s1) \<Rightarrow> serial_read response_size s1)"

function send_loop :: "u8 list \<Rightarrow> nat \<Rightarrow> nat \<Rightarrow> serial_port \<Rightarrow> (exn + u8 list) \<times> serial_port" where
  "send_loop request response_size retry_count s =
     (if retry_count < kMaxRetries then
        (case send_attempt request response_size s of
           (Inl IOException, s1) \<Rightarrow> send_loop request response_size (retry_count + 1) s1
         | (Inl e, s1) \<Rightarrow> (Inl e, s1)
         | (Inr response, s1) \<Rightarrow> (Inr response, s1))
      else (Inr [], s))"
  by pat_completeness auto
termination
  by (relation "measure (\<lambda>(_, _, n, _). kMaxRetries - n)") auto

declare send_loop.simps [simp del]

definition send :: "u8 list \<Rightarrow> nat \<Rightarrow> default_driver \<Rightarrow> (exn + u8 list) \<times> default_driver" where
  "send request response_size d =
     (case send_loop request response_size 0 (dd_serial d) of
        (r, s) \<Rightarrow> (r, d\<lparr>dd_serial := s\<rparr>))"

definition connect :: "default_driver \<Rightarrow> (exn + bool) \<times> default_driver" where
  "connect d =
     (case serial_open (dd_serial d) of
        (Inl e, s) \<Rightarrow> (Inl e, d\<lparr>dd_serial := s\<rparr>)
      | (Inr _, s) \<Rightarrow> (Inr (serial_is_open s), d\<lparr>dd_serial := s\<rparr>))"

definition disconnect :: "default_driver \<Rightarrow> default_driver" where
  "disconnect d = d\<lparr>dd_serial := serial_close (dd_serial d)\<rparr>"

definition set_slave_address :: "u8 \<Rightarrow> default_driver \<Rightarrow> default_driver" where
  "set_slave_address a d = d\<lparr>dd_slave_address := a\<rparr>"

definition create_read_command :: "default_driver \<Rightarrow> u16 \<Rightarrow> u8 \<Rightarrow> u8 list" where
  "create_read_command d first_register num_registers =
     (let request = [dd_slave_address d, kReadFunctionCode,
                     get_msb first_register, get_lsb first_register,
                     get_msb (ucast num_registers), get_lsb (ucast num_registers)];
          crc = compute_crc request
      in request @ [get_msb crc] @ [get_lsb crc])"

definition create_write_command :: "default_driver \<Rightarrow> u16 \<Rightarrow> u16 list \<Rightarrow> u8 list" where
  "create_write_command d first_register data =
     (let num_registers = (of_nat (length data) :: u16);
          num_bytes = (ucast (2 * num_registers) :: u8);
          request = [dd_slave_address d, kWriteFunctionCode,
                     get_msb first_register, get_lsb first_register,
                     get_msb num_registers, get_lsb num_registers, num_bytes]
                    @ concat (map (\<lambda>x. [get_msb x, get_lsb x]) data);
          crc = compute_crc request
      in request @ [get_msb crc] @ [get_lsb crc])"

text \<open>The decoding in \<^verbatim>\<open>update_status\<close>. The value \<open>2\<close> of the gripper status field has no case
  in the source, so the member keeps its old value.\<close>

definition process_response :: "u8 list \<Rightarrow> default_driver \<Rightarrow> default_driver" where
  "process_response response d =
     (let gripper_status_byte = response ! (kResponseHeaderSize + kGripperStatusIndex);
          gs = drop_bit 4 (gripper_status_byte AND 0x30);
          ods = drop_bit 6 (gripper_status_byte AND 0xC0)
      in d\<lparr>dd_activation_status := (if gripper_status_byte AND 0x01 = 0x00 then ACT_RESET else ACT_ACTIVE),
           dd_action_status := (if gripper_status_byte AND 0x08 = 0x00 then ACTION_STOPPED else ACTION_MOVING),
           dd_gripper_status :=
             (if gs = 0x00 then GRIPPER_RESET
              else if gs = 0x01 then GRIPPER_IN_PROGRESS
              else if gs = 0x03 then GRIPPER_COMPLETED
              else dd_gripper_status d),
           dd_object_detection_status :=
             (if ods = 0x00 then OBJ_MOVING
              else if ods = 0x01 then OBJECT_DETECTED_OPENING
              else if ods = 0x02 then OBJECT_DETECTED_CLOSING
              else if ods = 0x03 then AT_REQUESTED_POSITION
              else dd_object_detection_status d),
           dd_gripper_position := response ! (kResponseHeaderSize + kPositionIndex)\<rparr>)"

definition update_status :: "default_driver \<Rightarrow> (exn + unit) \<times> default_driver" where
  "update_status d =
     (let request = create_read_command d kFirstOutputRegister (ucast kNumOutputRegisters) in
      case send request kReadResponseSize d of
        (Inl e, d1) \<Rightarrow> (Inl e, d1)
      | (Inr response, d1) \<Rightarrow>
          (if response = [] then (Inl (driver_exception ''Failed to read the gripper status.''), d1)
           else (Inr (), process_response response d1)))"

text \<open>The polling loop of \<^verbatim>\<open>activate\<close>; \<open>None\<close> is a loop that never ends.\<close>

partial_function (option) activate_wait :: "default_driver \<Rightarrow> ((exn + unit) \<times> default_driver) option" where
  "activate_wait d =
     (if dd_gripper_status d = GRIPPER_IN_PROGRESS then
        (case update_status d of
           (Inl e, d1) \<Rightarrow> Some (Inl e, d1)
         | (Inr _, d1) \<Rightarrow> activate_wait d1)
      else Some (Inr (), d))"

definition activate :: "default_driver \<Rightarrow> ((exn + unit) \<times> default_driver) option" where
  "activate d =
     (let request = create_write_command d kActionRequestRegister [0x0100, 0x0000, 0x0000] in
      case send request kWriteResponseSize d of
        (Inl e, d1) \<Rightarrow> Some (Inl e, d1)
      | (Inr response, d1) \<Rightarrow>
          (if response = [] then Some (Inl (driver_exception ''Failed to activate the gripper.''), d1)
           else
             (case update_status d1 of
                (Inl e, d2) \<Rightarrow> Some (Inl e, d2)
              | (Inr _, d2) \<Rightarrow>
                  (if dd_gripper_status d2 = GRIPPER_COMPLETED then Some (Inr (), d2)
                   else activate_wait d2))))"

definition deactivate :: "default_driver \<Rightarrow> (exn + unit) \<times> default_driver" where
  "deactivate d =
     (let request = create_write_command d kActionRequestRegister [0x0000, 0x0000, 0x0000] in
      case send request kWriteResponseSize d of
        (Inl e, d1) \<Rightarrow> (Inl e, d1)
      | (Inr response, d1) \<Rightarrow>
          (if response = [] then (Inl (driver_exception ''Failed to deactivate the gripper.''), d1)
           else (Inr (), d1)))"

definition set_gripper_position :: "u8 \<Rightarrow> default_driver \<Rightarrow> (exn + unit) \<times> default_driver" where
  "set_gripper_position pos d =
     (let action_register = (0x09 :: u8);
          gripper_options_1 = (0x00 :: u8);
          gripper_options_2 = (0x00 :: u8);
          request = create_write_command d kActionRequestRegister
            [push_bit 8 (ucast action_register) OR ucast gripper_options_1,
             push_bit 8 (ucast gripper_options_2) OR ucast pos,
             push_bit 8 (ucast (dd_commanded_gripper_speed d)) OR ucast (dd_commanded_gripper_force d)]
      in case send request kWriteResponseSize d of
           (Inl e, d1) \<Rightarrow> (Inl e, d1)
         | (Inr response, d1) \<Rightarrow>
             (if response = [] then (Inl (driver_exception ''Failed to set gripper position.''), d1)
              else (Inr (), d1)))"

definition get_gripper_position :: "default_driver \<Rightarrow> (exn + u8) \<times> default_driver" where
  "get_gripper_position d =
     (case update_status d of
        (Inl e, d1) \<Rightarrow> (Inl e, d1)
      | (Inr _, d1) \<Rightarrow> (Inr (dd_gripper_position d1), d1))"

definition gripper_is_moving :: "default_driver \<Rightarrow> (exn + bool) \<times> default_driver" where
  "gripper_is_moving d =
     (case update_status d of
        (Inl e, d1) \<Rightarrow> (Inl e, d1)
      | (Inr _, d1) \<Rightarrow> (Inr (dd_object_detection_status d1 = OBJ_MOVING), d1))"

definition set_speed :: "u8 \<Rightarrow> default_driver \<Rightarrow> default_driver" where
  "set_speed speed d = d\<lparr>dd_commanded_gripper_speed := speed\<rparr>"

definition set_force :: "u8 \<Rightarrow> default_driver \<Rightarrow> default_driver" where
  "set_force force d = d\<lparr>dd_commanded_gripper_force := force\<rparr>"

definition default_driver_ops :: "default_driver driver_ops" where
  "default_driver_ops =
     \<lparr>op_set_slave_address = set_slave_address, op_connect = connect, op_disconnect = disconnect,
      op_activate = activate, op_deactivate = deactivate,
      op_set_gripper_position = set_gripper_position, op_get_gripper_position = get_gripper_position,
      op_gripper_is_moving = gripper_is_moving, op_set_speed = set_speed, op_set_force = set_force\<rparr>"

section \<open>The retry loop\<close>

text \<open>The port after \<open>k\<close> attempts in a row that all end in an \<^verbatim>\<open>IOException\<close>, if they do.\<close>

fun io_failures :: "u8 list \<Rightarrow> nat \<Rightarrow> nat \<Rightarrow> serial_port \<Rightarrow> serial_port option" where
  "io_failures request n 0 s = Some s"
| "io_failures request n (Suc k) s =
     (case send_attempt request n s of
        (Inl IOException, s1) \<Rightarrow> io_failures request n k s1
      | _ \<Rightarrow> None)"

lemma send_attempt_sent: "send_attempt request n s = (r, s') \<Longrightarrow> sp_sent s' = sp_sent s @ [request]"
  by (auto simp: send_attempt_def split: prod.splits sum.splits
      dest!: serial_write_sent serial_read_sent)

lemma send_attempt_length: "send_attempt request n s = (Inr data, s') \<Longrightarrow> length data = n"
  by (auto simp: send_attempt_def split: prod.splits sum.splits dest: serial_read_length)

lemma io_failures_sent:
  "io_failures request n k s = Some s' \<Longrightarrow> sp_sent s' = sp_sent s @ replicate k request"
  by (induction k arbitrary: s)
    (auto split: prod.splits sum.splits exn.splits dest: send_attempt_sent)

lemma send_loop_cases:
  assumes "send_loop request n r s = (res, s')" and "r \<le> kMaxRetries"
  shows "(\<exists>k s1. k < kMaxRetries - r \<and> io_failures request n k s = Some s1 \<and>
            send_attempt request n s1 = (res, s') \<and> res \<noteq> Inl IOException) \<or>
         (io_failures request n (kMaxRetries - r) s = Some s' \<and> res = Inr [])"
  using assms
proof (induction request n r s rule: send_loop.induct)
  case (1 request n r s)
  show ?case
  proof (cases "r < kMaxRetries")
    case False
    with "1.prems" show ?thesis by (auto simp: send_loop.simps [of request n r s])
  next
    case True
    then obtain m where m: "kMaxRetries - r = Suc m" "kMaxRetries - (r + 1) = m"
      by (cases "kMaxRetries - r") auto
    obtain q s1 where a: "send_attempt request n s = (q, s1)" by fastforce
    show ?thesis
    proof (cases "q = Inl IOException")
      case True
      with a \<open>r < kMaxRetries\<close> "1.prems" have "send_loop request n (r + 1) s1 = (res, s')"
        by (simp add: send_loop.simps [of request n r s])
      from "1.IH" [OF \<open>r < kMaxRetries\<close> a [symmetric] True refl this] \<open>r < kMaxRetries\<close>
      consider k s2 where "k < m" "io_failures request n k s1 = Some s2"
          "send_attempt request n s2 = (res, s')" "res \<noteq> Inl IOException"
        | "io_failures request n m s1 = Some s'" "res = Inr []"
        unfolding m by auto
      then show ?thesis
      proof cases
        case 1
        have "Suc k < Suc m \<and> io_failures request n (Suc k) s = Some s2" using 1 a True by simp
        then show ?thesis unfolding m using 1 by blast
      next
        case 2
        then show ?thesis unfolding m using a True by simp
      qed
    next
      case False
      with a \<open>r < kMaxRetries\<close> "1.prems" have "(q, s1) = (res, s')"
        by (auto simp: send_loop.simps [of request n r s] split: sum.splits exn.splits)
      with a False have "0 < Suc m \<and> io_failures request n 0 s = Some s \<and>
        send_attempt request n s = (res, s') \<and> res \<noteq> Inl IOException" by auto
      then show ?thesis unfolding m by blast
    qed
  qed
qed

lemma send_keeps [frame_simps]:
  assumes "send request n d = (r, d')"
  shows "d' = d\<lparr>dd_serial := dd_serial d'\<rparr>"
  using assms by (auto simp: send_def split: prod.splits)

lemma send_cases:
  assumes "send request n d = (res, d')"
  shows "(\<exists>k s1. k < kMaxRetries \<and> io_failures request n k (dd_serial d) = Some s1 \<and>
            send_attempt request n s1 = (res, dd_serial d') \<and> res \<noteq> Inl IOException) \<or>
         (io_failures request n kMaxRetries (dd_serial d) = Some (dd_serial d') \<and> res = Inr [])"
proof -
  from assms obtain s' where "send_loop request n 0 (dd_serial d) = (res, s')" "dd_serial d' = s'"
    by (auto simp: send_def split: prod.splits)
  then show ?thesis using send_loop_cases [of request n 0 "dd_serial d" res s'] by auto
qed

lemma send_sent:
  assumes "send request n d = (res, d')"
  shows "\<exists>k. 1 \<le> k \<and> k \<le> kMaxRetries \<and>
    sp_sent (dd_serial d') = sp_sent (dd_serial d) @ replicate k request"
proof -
  consider k s1 where "k < kMaxRetries" "io_failures request n k (dd_serial d) = Some s1"
      "send_attempt request n s1 = (res, dd_serial d')"
    | "io_failures request n kMaxRetries (dd_serial d) = Some (dd_serial d')"
    using send_cases [OF assms] by blast
  then show ?thesis
  proof cases
    case 1
    then have "sp_sent (dd_serial d') = sp_sent (dd_serial d) @ replicate (Suc k) request"
      by (auto dest!: io_failures_sent send_attempt_sent simp: replicate_append_same [symmetric])
    with 1(1) show ?thesis by (intro exI [of _ "Suc k"]) auto
  next
    case 2
    then show ?thesis
      by (intro exI [of _ kMaxRetries]) (auto dest: io_failures_sent simp: kMaxRetries_def)
  qed
qed

lemma send_no_io: "fst (send request n d) \<noteq> Inl IOException"
proof
  assume io: "fst (send request n d) = Inl IOException"
  obtain r d' where "send request n d = (r, d')" by fastforce
  with io send_cases [OF this] show False by auto
qed

lemma send_length:
  assumes "send request n d = (Inr response, d')" and "response \<noteq> []"
  shows "length response = n"
  using send_cases [OF assms(1)] assms(2) by (auto dest: send_attempt_length)

section \<open>Frames\<close>

lemma compute_crc_bytes:
  "get_msb (compute_crc m) = ucast (crc_of m)" "get_lsb (compute_crc m) = ucast (drop_bit 8 (crc_of m))"
  by (simp_all add: compute_crc_eq_swap swap16_def)

lemma length_concat_pairs [simp]: "length (concat (map (\<lambda>x. [f x, g x]) data)) = 2 * length data"
  by (induction data) simp_all

lemma length_read_command [wire_simps]: "length (create_read_command d reg n) = 8"
  by (simp add: create_read_command_def Let_def)

lemma length_write_command [wire_simps]: "length (create_write_command d reg data) = 9 + 2 * length data"
  by (simp add: create_write_command_def Let_def)

lemma crc_of_frame: "ucast (ucast (drop_bit 8 c) :: u8) * 256 + ucast (ucast c :: u8) = (c :: u16)"
proof -
  have "push_bit 8 (ucast (ucast (drop_bit 8 c) :: u8)) + ucast (ucast c :: u8) = c"
    using u16_bytes_split [of c] by (simp add: u16_plus_eq_or)
  then show ?thesis by (simp add: push_bit_eq_mult)
qed

definition accepts_crc :: "u8 list \<Rightarrow> bool" where
  "accepts_crc frame \<longleftrightarrow>
     rq_com_compute_crc (Some frame) (int (length frame) - 2) =
       word_of_nat (unat (frame ! (length frame - 1)) * 256 + unat (frame ! (length frame - 2)))"

lemma accepts_crc_append:
  "accepts_crc (m @ [get_msb (compute_crc m)] @ [get_lsb (compute_crc m)])"
  by (simp add: accepts_crc_def compute_crc_bytes crc_of_frame nth_append)

section \<open>Decoding the status\<close>

lemma kReadResponseSize_eq [simp]: "kReadResponseSize = 17"
  by (simp add: kReadResponseSize_def kNumOutputRegisters_def)

lemma update_status_cases:
  assumes "update_status d = (r, d')"
  obtains (failed) e where "r = Inl e" "d' = d\<lparr>dd_serial := dd_serial d'\<rparr>"
  | (read) response where "r = Inr ()" "length response = 17"
      "d' = process_response response (d\<lparr>dd_serial := dd_serial d'\<rparr>)"
proof -
  obtain q d1 where s: "send (create_read_command d kFirstOutputRegister (ucast kNumOutputRegisters))
      kReadResponseSize d = (q, d1)" by fastforce
  note eq = send_keeps [OF s]
  have len: "response \<noteq> [] \<Longrightarrow> q = Inr response \<Longrightarrow> length response = 17" for response
    using send_length [of _ kReadResponseSize d response d1] s by auto
  consider e where "q = Inl e" "r = Inl e" "d' = d1"
    | "q = Inr []" "r = Inl (driver_exception ''Failed to read the gripper status.'')" "d' = d1"
    | response where "q = Inr response" "response \<noteq> []" "r = Inr ()"
        "d' = process_response response d1"
    using assms s by (auto simp: update_status_def Let_def split: sum.splits if_splits)
  then show ?thesis
  proof cases
    case 3
    have "dd_serial d' = dd_serial d1" using 3 by (simp add: process_response_def Let_def)
    then show ?thesis using 3 len eq read by metis
  qed (use eq failed in blast)+
qed

lemma process_response_keeps [frame_simps]:
  "dd_commanded_gripper_speed (process_response resp d) = dd_commanded_gripper_speed d"
  "dd_commanded_gripper_force (process_response resp d) = dd_commanded_gripper_force d"
  "dd_slave_address (process_response resp d) = dd_slave_address d"
  "dd_serial (process_response resp d) = dd_serial d"
  by (simp_all add: process_response_def Let_def)

lemma u8_field_masks: "(0x30 :: u8) = push_bit 4 (mask 2)" "(0xC0 :: u8) = push_bit 6 (mask 2)"
  by (simp_all add: mask_eq_exp_minus_1 push_bit_eq_mult)

lemma drop_field:
  "drop_bit 4 ((b :: u8) AND 0x30) = take_bit 2 (drop_bit 4 b)"
  "drop_bit 6 (b AND 0xC0) = drop_bit 6 b"
  unfolding u8_field_masks by (rule bit_eqI, auto simp: bit_simps dest: bit_u8_less)+

text \<open>What the status byte \<open>b\<close> and the position byte \<open>p\<close> of a response say, as one specification.\<close>

definition status_spec :: "u8 \<Rightarrow> u8 \<Rightarrow> default_driver \<Rightarrow> default_driver \<Rightarrow> bool" where
  "status_spec b p d d' \<longleftrightarrow>
     dd_activation_status d' = (if bit b 0 then ACT_ACTIVE else ACT_RESET) \<and>
     dd_action_status d' = (if bit b 3 then ACTION_MOVING else ACTION_STOPPED) \<and>
     dd_gripper_status d' =
       (case (bit b 5, bit b 4) of
          (False, False) \<Rightarrow> GRIPPER_RESET
        | (False, True) \<Rightarrow> GRIPPER_IN_PROGRESS
        | (True, True) \<Rightarrow> GRIPPER_COMPLETED
        | (True, False) \<Rightarrow> dd_gripper_status d) \<and>
     dd_object_detection_status d' =
       (case (bit b 7, bit b 6) of
          (False, False) \<Rightarrow> OBJ_MOVING
        | (False, True) \<Rightarrow> OBJECT_DETECTED_OPENING
        | (True, False) \<Rightarrow> OBJECT_DETECTED_CLOSING
        | (True, True) \<Rightarrow> AT_REQUESTED_POSITION) \<and>
     dd_gripper_position d' = p \<and>
     dd_commanded_gripper_speed d' = dd_commanded_gripper_speed d \<and>
     dd_commanded_gripper_force d' = dd_commanded_gripper_force d \<and>
     dd_slave_address d' = dd_slave_address d"

lemma status_spec_serial: "status_spec b p (d\<lparr>dd_serial := s\<rparr>) = status_spec b p d"
  by (intro ext) (simp add: status_spec_def split: bool.splits)

lemma u8_and_bit: "((b :: u8) AND 0x01 = 0x00) = (\<not> bit b 0)" "(b AND 0x08 = 0x00) = (\<not> bit b 3)"
proof -
  have "(0x08 :: u8) = push_bit 3 1" by (simp add: push_bit_eq_mult)
  then show "(b AND 0x08 = 0x00) = (\<not> bit b 3)" by (metis bit_iff_and_push_bit_not_eq_0)
  show "((b :: u8) AND 0x01 = 0x00) = (\<not> bit b 0)" by (simp add: and_one_eq bit_0 even_iff_mod_2_eq_zero)
qed

lemma process_response_spec:
  "status_spec (response ! 3) (response ! 7) d (process_response response d)"
proof -
  let ?b = "response ! 3"
  note lo = two_bit_field [of "take_bit 2 (drop_bit 4 ?b)"]
  note hi = two_bit_field [of "drop_bit 6 ?b"]
  have "bit (take_bit 2 (drop_bit 4 ?b)) 0 = bit ?b 4" "bit (take_bit 2 (drop_bit 4 ?b)) 1 = bit ?b 5"
    "bit (drop_bit 6 ?b) 0 = bit ?b 6" "bit (drop_bit 6 ?b) 1 = bit ?b 7"
    by (simp_all add: bit_simps)
  then show ?thesis using lo hi
    unfolding status_spec_def process_response_def Let_def drop_field u8_and_bit
    by (auto simp: kResponseHeaderSize_def kGripperStatusIndex_def kPositionIndex_def bit_simps
        split: bool.splits)
qed

section \<open>The polling loop of activate\<close>

text \<open>The driver after \<open>n\<close> polls in a row that succeed and still report activation in progress.\<close>

fun pending_polls :: "nat \<Rightarrow> default_driver \<Rightarrow> default_driver option" where
  "pending_polls 0 d = (if dd_gripper_status d = GRIPPER_IN_PROGRESS then Some d else None)"
| "pending_polls (Suc n) d =
     (if dd_gripper_status d = GRIPPER_IN_PROGRESS then
        (case update_status d of
           (Inl e, d1) \<Rightarrow> None
         | (Inr _, d1) \<Rightarrow> pending_polls n d1)
      else None)"

lemma activate_wait_finishes: "pending_polls n d = None \<Longrightarrow> activate_wait d \<noteq> None"
proof (induction n arbitrary: d)
  case 0
  then show ?case by (simp add: activate_wait.simps [of d] split: if_splits)
next
  case (Suc n)
  obtain q d1 where "update_status d = (q, d1)" by fastforce
  with Suc.prems Suc.IH [of d1] show ?case
    by (simp add: activate_wait.simps [of d] split: if_splits sum.splits)
qed

lemma activate_wait_finishes_only:
  assumes "activate_wait d = Some r"
  shows "\<exists>n. pending_polls n d = None"
proof (rule activate_wait.raw_induct [where P = "\<lambda>d r. \<exists>n. pending_polls n d = None", OF _ assms])
  fix f d r
  assume IH: "\<And>d r. f d = Some r \<Longrightarrow> \<exists>n. pending_polls n d = None"
    and eq: "(if dd_gripper_status d = GRIPPER_IN_PROGRESS then
        (case update_status d of (Inl e, d1) \<Rightarrow> Some (Inl e, d1) | (Inr _, d1) \<Rightarrow> f d1)
      else Some (Inr (), d)) = Some r"
  show "\<exists>n. pending_polls n d = None"
  proof (cases "dd_gripper_status d = GRIPPER_IN_PROGRESS")
    case False
    then show ?thesis by (intro exI [of _ 0]) simp
  next
    case True
    obtain q d1 where u: "update_status d = (q, d1)" by fastforce
    show ?thesis
    proof (cases q)
      case (Inl e)
      then show ?thesis using u by (intro exI [of _ 1]) simp
    next
      case (Inr x)
      with True u eq have "f d1 = Some r" by simp
      then obtain n where "pending_polls n d1 = None" using IH by blast
      then show ?thesis using u Inr by (intro exI [of _ "Suc n"]) simp
    qed
  qed
qed

lemma update_status_keeps [frame_simps]:
  assumes "update_status d = (r, d')"
  shows "dd_commanded_gripper_speed d' = dd_commanded_gripper_speed d \<and>
         dd_commanded_gripper_force d' = dd_commanded_gripper_force d"
  using assms
proof (cases rule: update_status_cases)
  case failed
  then show ?thesis by (metis default_driver.select_convs(8,9) default_driver.surjective default_driver.update_convs(1))
next
  case (read response)
  then show ?thesis by (metis (no_types) frame_simps default_driver.select_convs(8,9) default_driver.surjective default_driver.update_convs(1))
qed

lemma activate_wait_keeps:
  assumes "activate_wait d = Some (r, d')"
  shows "dd_commanded_gripper_speed d' = dd_commanded_gripper_speed d \<and>
         dd_commanded_gripper_force d' = dd_commanded_gripper_force d"
proof -
  let ?P = "\<lambda>d q. dd_commanded_gripper_speed (snd q) = dd_commanded_gripper_speed d \<and>
    dd_commanded_gripper_force (snd q) = dd_commanded_gripper_force d"
  have "?P d (r, d')"
    by (rule activate_wait.raw_induct [where P = ?P, OF _ assms])
      (auto split: if_splits prod.splits sum.splits dest: update_status_keeps)
  then show ?thesis by simp
qed

lemma send_keeps_commanded:
  assumes "send request n d = (r, d')"
  shows "dd_commanded_gripper_speed d' = dd_commanded_gripper_speed d \<and>
         dd_commanded_gripper_force d' = dd_commanded_gripper_force d"
  using assms by (auto simp: send_def split: prod.splits)

interpretation default_driver: gripper_driver default_driver_ops
  dd_commanded_gripper_speed dd_commanded_gripper_force
proof (unfold_locales, goal_cases)
  case (5 d r d')
  then show ?case
    by (auto simp: default_driver_ops_def activate_def Let_def
        split: prod.splits sum.splits if_splits
        dest!: send_keeps_commanded update_status_keeps activate_wait_keeps)
next
  case (6 d r d')
  then show ?case
    by (auto simp: default_driver_ops_def deactivate_def Let_def
        split: prod.splits sum.splits if_splits dest!: send_keeps_commanded)
next
  case (7 p d r d')
  then show ?case
    by (auto simp: default_driver_ops_def set_gripper_position_def Let_def
        split: prod.splits sum.splits if_splits dest!: send_keeps_commanded)
next
  case (8 d r d')
  then show ?case
    by (auto simp: default_driver_ops_def get_gripper_position_def
        split: prod.splits sum.splits dest!: update_status_keeps)
qed (simp_all add: default_driver_ops_def set_speed_def set_force_def)

text \<open>The port stays open: no operation but \<^verbatim>\<open>disconnect\<close> closes it.\<close>

lemma serial_link:
  "serial_write data s = (r, s1) \<Longrightarrow> sp_open s1 = sp_open s"
  "serial_write data s = (r, s1) \<Longrightarrow> serial_read n s1 = (q, s2) \<Longrightarrow> sp_open s2 = sp_open s"
  using default_serial.write_open [of data s r s1] default_serial.exchange_open [of data s r s1 n q s2]
  by (simp_all add: default_serial_ops_def serial_is_open_def)

lemma send_attempt_open:
  assumes "send_attempt request n s = (r, s')" shows "sp_open s' = sp_open s"
proof -
  obtain q s1 where w: "serial_write request s = (q, s1)" by fastforce
  show ?thesis using assms serial_link(1) [OF w] serial_link(2) [OF w] by (cases q) (auto simp: send_attempt_def w)
qed

lemma io_failures_open: "io_failures request n k s = Some s' \<Longrightarrow> sp_open s' = sp_open s"
  by (induction k arbitrary: s) (auto split: prod.splits sum.splits exn.splits dest: send_attempt_open)

lemma send_open: "send request n d = (res, d') \<Longrightarrow> sp_open (dd_serial d') = sp_open (dd_serial d)"
  using send_cases [of request n d res d'] by (auto dest: io_failures_open send_attempt_open)

lemma update_status_open: "update_status d = (r, d') \<Longrightarrow> sp_open (dd_serial d') = sp_open (dd_serial d)"
  by (auto simp: update_status_def Let_def process_response_keeps split: prod.splits sum.splits if_splits dest!: send_open)

lemma activate_wait_open:
  assumes "activate_wait d = Some (r, d')" shows "sp_open (dd_serial d') = sp_open (dd_serial d)"
proof -
  let ?P = "\<lambda>d q. sp_open (dd_serial (snd q)) = sp_open (dd_serial d)"
  have "?P d (r, d')"
    by (rule activate_wait.raw_induct [where P = ?P, OF _ assms])
      (auto split: if_splits prod.splits sum.splits dest: update_status_open)
  then show ?thesis by simp
qed

interpretation default_link: driver_link default_driver_ops "\<lambda>d. sp_open (dd_serial d)"
proof (unfold_locales, goal_cases)
  case (1 d d')
  then show ?case by (auto simp: default_driver_ops_def connect_def serial_is_open_def split: prod.splits sum.splits)
next
  case (2 d r d')
  then show ?case
    by (auto simp: default_driver_ops_def connect_def serial_open_def split: prod.splits sum.splits option.splits)
next
  case (3 d r d')
  then show ?case
    by (auto simp: default_driver_ops_def activate_def Let_def split: prod.splits sum.splits if_splits
        dest!: send_open update_status_open activate_wait_open)
next
  case (4 d r d')
  then show ?case
    by (auto simp: default_driver_ops_def deactivate_def Let_def split: prod.splits sum.splits if_splits dest!: send_open)
next
  case (5 p d r d')
  then show ?case
    by (auto simp: default_driver_ops_def set_gripper_position_def Let_def split: prod.splits sum.splits if_splits
        dest!: send_open)
next
  case (6 d r d')
  then show ?case
    by (auto simp: default_driver_ops_def get_gripper_position_def split: prod.splits sum.splits dest!: update_status_open)
qed (simp_all add: default_driver_ops_def set_speed_def set_force_def)

section \<open>Properties\<close>

text \<open>C3. \<^verbatim>\<open>send\<close> makes up to five attempts. Its result is the outcome of the first attempt that does
  not end in an \<^verbatim>\<open>IOException\<close>, or the empty vector after five that do; an \<^verbatim>\<open>IOException\<close> never
  leaves it, and the request is written between one and five times, unchanged.\<close>

theorem send_retries:
  "case send request n d of (res, d') \<Rightarrow>
     ((\<exists>k s1. k < 5 \<and> io_failures request n k (dd_serial d) = Some s1 \<and>
         send_attempt request n s1 = (res, dd_serial d') \<and> res \<noteq> Inl IOException) \<or>
      (io_failures request n 5 (dd_serial d) = Some (dd_serial d') \<and> res = Inr [])) \<and>
     (\<exists>k. 1 \<le> k \<and> k \<le> 5 \<and> sp_sent (dd_serial d') = sp_sent (dd_serial d) @ replicate k request)"
proof -
  obtain res d' where s: "send request n d = (res, d')" by fastforce
  show ?thesis using send_cases [OF s] send_sent [OF s] unfolding s kMaxRetries_def by auto
qed

text \<open>Every request the driver builds passes the check that the sensor driver of the same
  workspace applies to Modbus frames (its bitwise CRC over all but the last two bytes, low byte
  first).\<close>

theorem requests_pass_crc_check:
  "accepts_crc (create_write_command d first_register data) \<and>
   accepts_crc (create_read_command d first_register num_registers)"
  unfolding create_write_command_def create_read_command_def Let_def
  by (intro conjI accepts_crc_append)

text \<open>The bytes of a position command: slave address, function 16, register \<open>0x03E8\<close>, three
  registers, six data bytes, activate-and-go, the position, then the speed and the force that were
  commanded \<^emph>\<open>before\<close> the call, and the CRC low byte first. Only this frame is written.\<close>

theorem set_position_on_the_wire:
  "case set_gripper_position pos d of (r, d') \<Rightarrow>
     (let body = [dd_slave_address d, 0x10, 0x03, 0xE8, 0x00, 0x03, 0x06, 0x09, 0x00, 0x00, pos,
                  dd_commanded_gripper_speed d, dd_commanded_gripper_force d];
          frame = body @ [ucast (crc_of body), ucast (drop_bit 8 (crc_of body))]
      in \<exists>k. 1 \<le> k \<and> k \<le> 5 \<and> sp_sent (dd_serial d') = sp_sent (dd_serial d) @ replicate k frame)"
proof -
  let ?body = "[dd_slave_address d, 0x10, 0x03, 0xE8, 0x00, 0x03, 0x06, 0x09, 0x00, 0x00, pos,
                  dd_commanded_gripper_speed d, dd_commanded_gripper_force d] :: u8 list"
  let ?frame = "?body @ [ucast (crc_of ?body), ucast (drop_bit 8 (crc_of ?body))]"
  let ?data = "[push_bit 8 (ucast (0x09 :: u8)) OR ucast (0x00 :: u8), push_bit 8 (ucast (0x00 :: u8)) OR ucast pos,
    push_bit 8 (ucast (dd_commanded_gripper_speed d)) OR ucast (dd_commanded_gripper_force d)] :: u16 list"
  have regs: "get_msb 0x03E8 = 0x03" "get_lsb 0x03E8 = 0xE8" "get_msb 3 = 0" "get_lsb 3 = 3"
    by (simp_all add: get_msb_alt get_lsb_alt)
  have pairs: "concat (map (\<lambda>x. [get_msb x, get_lsb x]) ?data) =
      [0x09, 0x00, 0x00, pos, dd_commanded_gripper_speed d, dd_commanded_gripper_force d]"
    by (simp only: list.map concat.simps get_bytes_of_pair append_Cons append_Nil)
  have frame: "create_write_command d kActionRequestRegister ?data = ?frame"
    unfolding create_write_command_def Let_def compute_crc_bytes pairs
    by (simp add: kActionRequestRegister_def kWriteFunctionCode_def regs)
  obtain r d' where p: "set_gripper_position pos d = (r, d')" by fastforce
  then obtain q where "send (create_write_command d kActionRequestRegister ?data) kWriteResponseSize d = (q, d')"
    unfolding set_gripper_position_def Let_def by (auto split: prod.splits sum.splits if_splits)
  from send_sent [OF this] show ?thesis unfolding p frame Let_def kMaxRetries_def by simp
qed

text \<open>An attempt that succeeds has had its whole request written and returns the bytes the port
  delivered.\<close>

lemma send_attempt_success:
  assumes "send_attempt request n s = (Inr data, s')"
  shows "shd (sp_writes s) = Wrote (length request) \<and>
    (\<exists>bytes. shd (sp_reads s) = Read_bytes bytes \<and> n \<le> length bytes \<and> data = take n bytes) \<and>
    s' = s\<lparr>sp_writes := stl (sp_writes s), sp_reads := stl (sp_reads s), sp_sent := sp_sent s @ [request]\<rparr>"
  using assms
  by (auto simp: send_attempt_def serial_write_def serial_read_def Let_def
      split: write_event.splits read_event.splits if_splits)

lemma status_request_bytes:
  "create_read_command d kFirstOutputRegister (ucast kNumOutputRegisters) =
     (let body = [dd_slave_address d, 0x03, 0x07, 0xD0, 0x00, 0x06]
      in body @ [ucast (crc_of body), ucast (drop_bit 8 (crc_of body))])"
proof -
  have regs: "get_msb 0x07D0 = 0x07" "get_lsb 0x07D0 = 0xD0" "get_msb 6 = 0" "get_lsb 6 = 6"
    by (simp_all add: get_msb_alt get_lsb_alt)
  show ?thesis
    unfolding create_read_command_def Let_def compute_crc_bytes
    by (simp add: kFirstOutputRegister_def kNumOutputRegisters_def kReadFunctionCode_def regs)
qed

lemma update_status_traced:
  assumes "request = create_read_command d kFirstOutputRegister (ucast kNumOutputRegisters)"
  shows "case update_status d of
     (Inl e, d') \<Rightarrow> d' = d\<lparr>dd_serial := dd_serial d'\<rparr> \<and>
       ((\<exists>k s1. k < 5 \<and> io_failures request 17 k (dd_serial d) = Some s1 \<and> e \<noteq> IOException \<and>
           send_attempt request 17 s1 = (Inl e, dd_serial d')) \<or>
        (io_failures request 17 5 (dd_serial d) = Some (dd_serial d') \<and>
         e = driver_exception ''Failed to read the gripper status.''))
   | (Inr _, d') \<Rightarrow> \<exists>k s1 bytes. k < 5 \<and> io_failures request 17 k (dd_serial d) = Some s1 \<and>
       shd (sp_writes s1) = Wrote 8 \<and> shd (sp_reads s1) = Read_bytes bytes \<and> 17 \<le> length bytes \<and>
       status_spec (bytes ! 3) (bytes ! 7) d d' \<and>
       dd_serial d' = s1\<lparr>sp_writes := stl (sp_writes s1), sp_reads := stl (sp_reads s1),
                        sp_sent := sp_sent (dd_serial d) @ replicate (Suc k) request\<rparr>"
proof -
  have len: "length request = 8" by (simp add: assms length_read_command)
  obtain q d1 where s: "send request 17 d = (q, d1)" by fastforce
  note keeps = send_keeps [OF s]
  consider (attempt) k s1 where "k < 5" "io_failures request 17 k (dd_serial d) = Some s1"
      "send_attempt request 17 s1 = (q, dd_serial d1)" "q \<noteq> Inl IOException"
    | (given_up) "io_failures request 17 5 (dd_serial d) = Some (dd_serial d1)" "q = Inr []"
    using send_cases [OF s] unfolding kMaxRetries_def by blast
  then show ?thesis
  proof cases
    case attempt
    show ?thesis
    proof (cases q)
      case (Inl e)
      then show ?thesis using attempt keeps s by (auto simp: update_status_def assms)
    next
      case (Inr response)
      note a = send_attempt_success [OF attempt(3) [unfolded Inr]]
      then obtain bytes where b: "shd (sp_reads s1) = Read_bytes bytes" "17 \<le> length bytes"
        "response = take 17 bytes" by blast
      have u: "update_status d = (Inr (), process_response response d1)"
        using s Inr b(2,3) by (auto simp: update_status_def assms)
      have bytes: "response ! 3 = bytes ! 3" "response ! 7 = bytes ! 7" by (simp_all add: b(3))
      have "status_spec (bytes ! 3) (bytes ! 7) d (process_response response d1)"
        using process_response_spec [of response d1] keeps unfolding bytes by (metis status_spec_serial)
      moreover have "dd_serial d1 = s1\<lparr>sp_writes := stl (sp_writes s1), sp_reads := stl (sp_reads s1),
          sp_sent := sp_sent (dd_serial d) @ replicate (Suc k) request\<rparr>"
        using a io_failures_sent [OF attempt(2)] by (simp add: replicate_append_same)
      ultimately show ?thesis
        using attempt(1,2) a b(1,2) unfolding u by (auto simp: process_response_keeps len)
    qed
  next
    case given_up
    then show ?thesis using keeps s by (simp add: update_status_def assms)
  qed
qed

text \<open>C4. \<^verbatim>\<open>update_status\<close> sends the eight bytes of its read request. If it succeeds, some first
  attempts have failed with an \<^verbatim>\<open>IOException\<close>, at most four of them, and the next attempt wrote the
  whole request and got at least 17 bytes from the port; of \<^emph>\<open>these\<close> bytes, the fourth is decoded bit by
  bit as the status and the eighth is the position (the reserved value 2 of the gripper status field
  leaves the old gripper status in place). If it throws, every member but the port is left alone, and
  the exception is the one of the first attempt that does not end in an \<^verbatim>\<open>IOException\<close>, or the
  driver's own after five that do.\<close>

theorem update_status_decodes:
  "let body = [dd_slave_address d, 0x03, 0x07, 0xD0, 0x00, 0x06];
       request = body @ [ucast (crc_of body), ucast (drop_bit 8 (crc_of body))]
   in case update_status d of
     (Inl e, d') \<Rightarrow> d' = d\<lparr>dd_serial := dd_serial d'\<rparr> \<and>
       ((\<exists>k s1. k < 5 \<and> io_failures request 17 k (dd_serial d) = Some s1 \<and> e \<noteq> IOException \<and>
           send_attempt request 17 s1 = (Inl e, dd_serial d')) \<or>
        (io_failures request 17 5 (dd_serial d) = Some (dd_serial d') \<and>
         e = driver_exception ''Failed to read the gripper status.''))
   | (Inr _, d') \<Rightarrow> \<exists>k s1 bytes. k < 5 \<and> io_failures request 17 k (dd_serial d) = Some s1 \<and>
       shd (sp_writes s1) = Wrote 8 \<and> shd (sp_reads s1) = Read_bytes bytes \<and> 17 \<le> length bytes \<and>
       status_spec (bytes ! 3) (bytes ! 7) d d' \<and>
       dd_serial d' = s1\<lparr>sp_writes := stl (sp_writes s1), sp_reads := stl (sp_reads s1),
                        sp_sent := sp_sent (dd_serial d) @ replicate (Suc k) request\<rparr>"
  unfolding Let_def by (rule update_status_traced) (simp add: status_request_bytes Let_def)

text \<open>\<^verbatim>\<open>activate\<close> fails to return exactly when the activation request and the first status read
  succeed and the gripper reports activation in progress at every later poll: the loop has no bound
  of its own.\<close>

theorem activate_hangs_iff:
  "activate d = None \<longleftrightarrow>
     (\<exists>response d1 d2.
        send (create_write_command d kActionRequestRegister [0x0100, 0x0000, 0x0000]) kWriteResponseSize d
          = (Inr response, d1) \<and> response \<noteq> [] \<and>
        update_status d1 = (Inr (), d2) \<and> (\<forall>n. pending_polls n d2 \<noteq> None))"
proof -
  have wait: "activate_wait d2 = None \<longleftrightarrow> (\<forall>n. pending_polls n d2 \<noteq> None)" for d2
    using activate_wait_finishes [of _ d2] activate_wait_finishes_only [of d2]
    by (cases "activate_wait d2") blast+
  have completed: "dd_gripper_status d2 = GRIPPER_COMPLETED \<Longrightarrow> \<exists>n. pending_polls n d2 = None" for d2
    by (intro exI [of _ 0]) simp
  show ?thesis
    unfolding activate_def Let_def
    by (auto simp: wait completed split: prod.splits sum.splits if_splits)
qed

end
