(* ===== verification/Fake_Driver.thy ===== *)
theory Fake_Driver
  imports Gripper_Driver
begin

text \<open>
  \<^verbatim>\<open>FakeDriver\<close> of \<^verbatim>\<open>robotiq_driver/src/fake/fake_driver.cpp\<close>: the implementation of the driver
  interface that talks to no hardware. It meets the same contract as the Modbus driver.
\<close>

record fake_driver =
  fd_slave_address :: u8
  fd_connected :: bool
  fd_activated :: bool
  fd_position :: u8
  fd_gripper_is_moving :: bool
  fd_speed :: u8
  fd_force :: u8

definition FakeDriver :: fake_driver where
  "FakeDriver = \<lparr>fd_slave_address = 0x00, fd_connected = False, fd_activated = False,
                 fd_position = 0, fd_gripper_is_moving = False, fd_speed = 0, fd_force = 0\<rparr>"

definition fake_set_slave_address :: "u8 \<Rightarrow> fake_driver \<Rightarrow> fake_driver" where
  "fake_set_slave_address a d = d\<lparr>fd_slave_address := a\<rparr>"

definition fake_connect :: "fake_driver \<Rightarrow> (exn + bool) \<times> fake_driver" where
  "fake_connect d = (Inr True, d\<lparr>fd_connected := True\<rparr>)"

definition fake_disconnect :: "fake_driver \<Rightarrow> fake_driver" where
  "fake_disconnect d = d\<lparr>fd_connected := False\<rparr>"

definition fake_activate :: "fake_driver \<Rightarrow> ((exn + unit) \<times> fake_driver) option" where
  "fake_activate d = Some (Inr (), d\<lparr>fd_activated := True\<rparr>)"

definition fake_deactivate :: "fake_driver \<Rightarrow> (exn + unit) \<times> fake_driver" where
  "fake_deactivate d = (Inr (), d\<lparr>fd_activated := False\<rparr>)"

definition fake_set_gripper_position :: "u8 \<Rightarrow> fake_driver \<Rightarrow> (exn + unit) \<times> fake_driver" where
  "fake_set_gripper_position position d = (Inr (), d\<lparr>fd_position := position\<rparr>)"

definition fake_get_gripper_position :: "fake_driver \<Rightarrow> (exn + u8) \<times> fake_driver" where
  "fake_get_gripper_position d = (Inr (fd_position d), d)"

definition fake_gripper_is_moving :: "fake_driver \<Rightarrow> (exn + bool) \<times> fake_driver" where
  "fake_gripper_is_moving d = (Inr (fd_gripper_is_moving d), d)"

definition fake_set_speed :: "u8 \<Rightarrow> fake_driver \<Rightarrow> fake_driver" where
  "fake_set_speed speed d = d\<lparr>fd_speed := speed\<rparr>"

definition fake_set_force :: "u8 \<Rightarrow> fake_driver \<Rightarrow> fake_driver" where
  "fake_set_force force d = d\<lparr>fd_force := force\<rparr>"

definition fake_driver_ops :: "fake_driver driver_ops" where
  "fake_driver_ops =
     \<lparr>op_set_slave_address = fake_set_slave_address, op_connect = fake_connect,
      op_disconnect = fake_disconnect, op_activate = fake_activate, op_deactivate = fake_deactivate,
      op_set_gripper_position = fake_set_gripper_position,
      op_get_gripper_position = fake_get_gripper_position,
      op_gripper_is_moving = fake_gripper_is_moving,
      op_set_speed = fake_set_speed, op_set_force = fake_set_force\<rparr>"

interpretation fake_driver: gripper_driver fake_driver_ops fd_speed fd_force
  by unfold_locales
    (auto simp: fake_driver_ops_def fake_set_speed_def fake_set_force_def fake_activate_def
      fake_deactivate_def fake_set_gripper_position_def fake_get_gripper_position_def)

interpretation fake_link: driver_link fake_driver_ops fd_connected
  by unfold_locales (auto simp: fake_driver_ops_def fake_connect_def fake_activate_def fake_deactivate_def
      fake_set_gripper_position_def fake_get_gripper_position_def fake_set_speed_def fake_set_force_def)

end
