(* ===== verification/Driver_Factory.thy ===== *)
theory Driver_Factory
  imports Default_Driver Fake_Driver Number_Parsing
begin

text \<open>
  \<^verbatim>\<open>DefaultDriverFactory\<close> and \<^verbatim>\<open>DefaultSerialFactory\<close> of
  \<^verbatim>\<open>robotiq_driver/src/default_driver_factory.cpp\<close> and \<^verbatim>\<open>default_serial_factory.cpp\<close>: from the
  hardware parameters to a driver. What the factory returns is a \<^verbatim>\<open>Driver\<close> that is either the
  Modbus driver or the fake one; its operations dispatch on which. The exceptions of the number
  conversions leave the factory; a conversion of a floating-point number that does not fit is
  undefined (\<open>None\<close>).
\<close>

datatype any_driver = Real default_driver | Fake fake_driver

fun lift_real :: "'r \<times> default_driver \<Rightarrow> 'r \<times> any_driver" where "lift_real (r, d) = (r, Real d)"
fun lift_fake :: "'r \<times> fake_driver \<Rightarrow> 'r \<times> any_driver" where "lift_fake (r, d) = (r, Fake d)"

text \<open>The call of a virtual function on whichever driver it is.\<close>

definition on_driver ::
  "(default_driver \<Rightarrow> 'r \<times> default_driver) \<Rightarrow> (fake_driver \<Rightarrow> 'r \<times> fake_driver) \<Rightarrow> any_driver \<Rightarrow> 'r \<times> any_driver" where
  "on_driver f g d = (case d of Real r \<Rightarrow> lift_real (f r) | Fake k \<Rightarrow> lift_fake (g k))"

definition update_driver ::
  "(default_driver \<Rightarrow> default_driver) \<Rightarrow> (fake_driver \<Rightarrow> fake_driver) \<Rightarrow> any_driver \<Rightarrow> any_driver" where
  "update_driver f g d = (case d of Real r \<Rightarrow> Real (f r) | Fake k \<Rightarrow> Fake (g k))"

definition any_driver_ops :: "any_driver driver_ops" where
  "any_driver_ops =
     \<lparr>op_set_slave_address = \<lambda>a. update_driver (set_slave_address a) (fake_set_slave_address a),
      op_connect = on_driver connect fake_connect,
      op_disconnect = update_driver disconnect fake_disconnect,
      op_activate = \<lambda>d. (case d of Real r \<Rightarrow> map_option lift_real (activate r)
                                | Fake k \<Rightarrow> map_option lift_fake (fake_activate k)),
      op_deactivate = on_driver deactivate fake_deactivate,
      op_set_gripper_position = \<lambda>p. on_driver (set_gripper_position p) (fake_set_gripper_position p),
      op_get_gripper_position = on_driver get_gripper_position fake_get_gripper_position,
      op_gripper_is_moving = on_driver gripper_is_moving fake_gripper_is_moving,
      op_set_speed = \<lambda>v. update_driver (set_speed v) (fake_set_speed v),
      op_set_force = \<lambda>v. update_driver (set_force v) (fake_set_force v)\<rparr>"

definition any_speed :: "any_driver \<Rightarrow> u8" where
  "any_speed d = (case d of Real r \<Rightarrow> dd_commanded_gripper_speed r | Fake k \<Rightarrow> fd_speed k)"

definition any_force :: "any_driver \<Rightarrow> u8" where
  "any_force d = (case d of Real r \<Rightarrow> dd_commanded_gripper_force r | Fake k \<Rightarrow> fd_force k)"

text \<open>Either driver meets the contract, so whichever the factory returns does.\<close>

lemma any_ops_Real:
  "op_set_speed any_driver_ops v (Real r) = Real (op_set_speed default_driver_ops v r)"
  "op_set_force any_driver_ops v (Real r) = Real (op_set_force default_driver_ops v r)"
  "op_activate any_driver_ops (Real r) = map_option lift_real (op_activate default_driver_ops r)"
  "op_deactivate any_driver_ops (Real r) = lift_real (op_deactivate default_driver_ops r)"
  "op_set_gripper_position any_driver_ops p (Real r) = lift_real (op_set_gripper_position default_driver_ops p r)"
  "op_get_gripper_position any_driver_ops (Real r) = lift_real (op_get_gripper_position default_driver_ops r)"
  by (simp_all add: any_driver_ops_def default_driver_ops_def update_driver_def on_driver_def)

lemma any_ops_Fake:
  "op_set_speed any_driver_ops v (Fake k) = Fake (op_set_speed fake_driver_ops v k)"
  "op_set_force any_driver_ops v (Fake k) = Fake (op_set_force fake_driver_ops v k)"
  "op_activate any_driver_ops (Fake k) = map_option lift_fake (op_activate fake_driver_ops k)"
  "op_deactivate any_driver_ops (Fake k) = lift_fake (op_deactivate fake_driver_ops k)"
  "op_set_gripper_position any_driver_ops p (Fake k) = lift_fake (op_set_gripper_position fake_driver_ops p k)"
  "op_get_gripper_position any_driver_ops (Fake k) = lift_fake (op_get_gripper_position fake_driver_ops k)"
  by (simp_all add: any_driver_ops_def fake_driver_ops_def update_driver_def on_driver_def)

lemma lift_eq: "lift_real x = (r, d) \<longleftrightarrow> (\<exists>e. x = (r, e) \<and> d = Real e)" "lift_fake y = (r, d) \<longleftrightarrow> (\<exists>e. y = (r, e) \<and> d = Fake e)"
  by (cases x; auto) (cases y; auto)

interpretation any_driver: gripper_driver any_driver_ops any_speed any_force
proof (unfold_locales, goal_cases)
  case (1 v d)
  then show ?case by (cases d) (simp_all add: any_ops_Real any_ops_Fake any_speed_def
        default_driver.speed_set_speed fake_driver.speed_set_speed)
next
  case (2 v d)
  then show ?case by (cases d) (simp_all add: any_ops_Real any_ops_Fake any_force_def
        default_driver.force_set_speed fake_driver.force_set_speed)
next
  case (3 v d)
  then show ?case by (cases d) (simp_all add: any_ops_Real any_ops_Fake any_force_def
        default_driver.force_set_force fake_driver.force_set_force)
next
  case (4 v d)
  then show ?case by (cases d) (simp_all add: any_ops_Real any_ops_Fake any_speed_def
        default_driver.speed_set_force fake_driver.speed_set_force)
next
  case (5 d r d')
  then show ?case by (cases d) (auto simp: any_ops_Real any_ops_Fake any_speed_def any_force_def lift_eq
        dest: default_driver.activate_keeps fake_driver.activate_keeps)
next
  case (6 d r d')
  then show ?case by (cases d) (auto simp: any_ops_Real any_ops_Fake any_speed_def any_force_def lift_eq
        dest: default_driver.deactivate_keeps fake_driver.deactivate_keeps)
next
  case (7 p d r d')
  then show ?case by (cases d) (auto simp: any_ops_Real any_ops_Fake any_speed_def any_force_def lift_eq
        dest: default_driver.set_position_keeps fake_driver.set_position_keeps)
next
  case (8 d r d')
  then show ?case by (cases d) (auto simp: any_ops_Real any_ops_Fake any_speed_def any_force_def lift_eq
        dest: default_driver.get_position_keeps fake_driver.get_position_keeps)
qed

text \<open>Whether the port is open, or the fake driver connected.\<close>

definition any_linked :: "any_driver \<Rightarrow> bool" where
  "any_linked d = (case d of Real r \<Rightarrow> sp_open (dd_serial r) | Fake k \<Rightarrow> fd_connected k)"

lemma any_connect:
  "op_connect any_driver_ops (Real r) = lift_real (op_connect default_driver_ops r)"
  "op_connect any_driver_ops (Fake k) = lift_fake (op_connect fake_driver_ops k)"
  by (simp_all add: any_driver_ops_def default_driver_ops_def fake_driver_ops_def on_driver_def)

lemmas any_link_ops = any_ops_Real any_ops_Fake any_connect any_linked_def lift_eq

interpretation any_link: driver_link any_driver_ops any_linked
proof (unfold_locales, goal_cases)
  case (1 d d')
  then show ?case by (cases d) (auto simp: any_link_ops dest: default_link.connect_links fake_link.connect_links)
next
  case (2 d r d')
  then show ?case by (cases d) (auto simp: any_link_ops dest: default_link.connect_stays fake_link.connect_stays)
next
  case (3 d r d')
  then show ?case by (cases d) (auto simp: any_link_ops dest: default_link.activate_stays fake_link.activate_stays)
next
  case (4 d r d')
  then show ?case by (cases d) (auto simp: any_link_ops dest: default_link.deactivate_stays fake_link.deactivate_stays)
next
  case (5 p d r d')
  then show ?case by (cases d) (auto simp: any_link_ops dest: default_link.set_position_stays fake_link.set_position_stays)
next
  case (6 d r d')
  then show ?case by (cases d) (auto simp: any_link_ops dest: default_link.get_position_stays fake_link.get_position_stays)
next
  case (7 d v)
  then show ?case by (cases d) (auto simp: any_link_ops default_link.set_speed_stays fake_link.set_speed_stays)
next
  case (8 d v)
  then show ?case by (cases d) (auto simp: any_link_ops default_link.set_force_stays fake_link.set_force_stays)
qed

section \<open>The factories\<close>

text \<open>The implicit conversion of a floating-point number to \<^verbatim>\<open>uint8_t\<close>.\<close>

definition double_to_u8 :: "double \<Rightarrow> u8 option" where
  "double_to_u8 a =
     (case a of Fin x \<Rightarrow> if 0 \<le> rat_trunc x \<and> rat_trunc x \<le> 255 then Some (of_int (rat_trunc x)) else None | _ \<Rightarrow> None)"

text \<open>\<^verbatim>\<open>duration_cast<milliseconds>\<close> of a number of seconds.\<close>

definition seconds_to_ms :: "double \<Rightarrow> int option" where
  "seconds_to_ms s = trunc_int64 (dmul s (Fin 1000))"

definition DefaultSerialFactory_create :: "parameters \<Rightarrow> serial_port \<Rightarrow> (conversion_error + serial_port) option" where
  "DefaultSerialFactory_create ps s =
     (let usb_port = (case ps ''COM_port'' of None \<Rightarrow> ''/dev/ttyUSB0'' | Some p \<Rightarrow> p) in
      case parameter_or ps ''baudrate'' (stoul 10) 115200 of
        Inl e \<Rightarrow> Some (Inl e)
      | Inr baudrate \<Rightarrow>
          (case parameter_or ps ''timeout'' stod (mk (1 / 2)) of
             Inl e \<Rightarrow> Some (Inl e)
           | Inr timeout \<Rightarrow>
               (case seconds_to_ms timeout of
                  None \<Rightarrow> None
                | Some ms \<Rightarrow> Some (Inr (serial_set_timeout ms (serial_set_baudrate (ucast baudrate)
                    (serial_set_port usb_port s)))))))"

text \<open>\<open>s\<close> and \<open>d\<close> are the new port and the storage of the new driver.\<close>

definition create_driver :: "parameters \<Rightarrow> serial_port \<Rightarrow> default_driver \<Rightarrow> (conversion_error + any_driver) option" where
  "create_driver ps s d =
     (if ps ''use_dummy'' \<noteq> None \<and> ps ''use_dummy'' \<noteq> Some ''false'' then Some (Inr (Fake FakeDriver))
      else map_option (\<lambda>r. case r of Inl e \<Rightarrow> Inl e | Inr s1 \<Rightarrow> Inr (Real (DefaultDriver s1 d)))
        (DefaultSerialFactory_create ps s))"

definition clamped_stod :: "string \<Rightarrow> conversion_error + double" where
  "clamped_stod v = (case stod v of Inl e \<Rightarrow> Inl e | Inr x \<Rightarrow> Inr (dclamp x (Fin 0) (Fin 1)))"

definition DefaultDriverFactory_create ::
  "parameters \<Rightarrow> serial_port \<Rightarrow> default_driver \<Rightarrow> (conversion_error + any_driver) option" where
  "DefaultDriverFactory_create ps s d =
     (case parameter_or ps ''slave_address'' (stoul 16) 0x09 of
        Inl e \<Rightarrow> Some (Inl e)
      | Inr slave_address \<Rightarrow>
          (case parameter_or ps ''gripper_speed_multiplier'' clamped_stod (Fin 1) of
             Inl e \<Rightarrow> Some (Inl e)
           | Inr gripper_speed \<Rightarrow>
               (case parameter_or ps ''gripper_force_multiplier'' clamped_stod (Fin 1) of
                  Inl e \<Rightarrow> Some (Inl e)
                | Inr gripper_force \<Rightarrow>
                    (case create_driver ps s d of
                       None \<Rightarrow> None
                     | Some (Inl e) \<Rightarrow> Some (Inl e)
                     | Some (Inr driver) \<Rightarrow>
                         (case (double_to_u8 (dmul gripper_speed (Fin 255)), double_to_u8 (dmul gripper_force (Fin 255))) of
                            (Some speed, Some force) \<Rightarrow>
                              Some (Inr (op_set_force any_driver_ops force (op_set_speed any_driver_ops speed
                                (op_set_slave_address any_driver_ops (ucast slave_address) driver))))
                          | _ \<Rightarrow> None)))))"

text \<open>The driver the factory returns carries the clamped multipliers, whichever kind it is.\<close>

lemma created_driver_speed:
  assumes "DefaultDriverFactory_create ps s d = Some (Inr driver)"
  shows "\<exists>x y. double_to_u8 (dmul x (Fin 255)) = Some (any_speed driver) \<and>
    double_to_u8 (dmul y (Fin 255)) = Some (any_force driver) \<and>
    parameter_or ps ''gripper_speed_multiplier'' clamped_stod (Fin 1) = Inr x \<and>
    parameter_or ps ''gripper_force_multiplier'' clamped_stod (Fin 1) = Inr y"
  using assms
  by (auto simp: DefaultDriverFactory_create_def any_driver.speed_set_speed any_driver.force_set_force
      any_driver.speed_set_force split: sum.splits option.splits)

end
