(* ===== verification/Hardware_Interface.thy ===== *)
theory Hardware_Interface
  imports Driver_Factory
begin

text \<open>
  \<^verbatim>\<open>RobotiqGripperHardwareInterface\<close> of \<^verbatim>\<open>robotiq_driver/src/hardware_interface.cpp\<close>: the lifecycle
  callbacks, \<^verbatim>\<open>read\<close> and \<^verbatim>\<open>write\<close> of the control loop, and the communication thread, over any
  driver given by its operations. The thread takes one step per access to the members it shares with
  the control loop, and runs interleave them freely with the calls of the control loop. A call of
  \<^verbatim>\<open>read\<close> or \<^verbatim>\<open>write\<close> is one step, although each makes several of these accesses (two loads and the
  store of the empty response in \<^verbatim>\<open>read\<close>, the three stores of \<^verbatim>\<open>write\<close>): a thread that reads between them,
  for instance a new position with the old speed, is not represented. A callback ends with a result or with a fault: an
  exception that leaves it, an abort of the process, or an undefined access. \<open>None\<close> is a driver
  operation that never returns.
\<close>

section \<open>State\<close>

datatype bg_pc = Bg_check | Bg_async | Bg_reactivate | Bg_clear | Bg_respond | Bg_position | Bg_speed | Bg_force | Bg_get | Bg_ended

record 'd gripper_hw =
  gh_parameters :: parameters
  gh_joint :: string
  gh_driver :: "'d option"
  gh_thread_joinable :: bool
  gh_thread_running :: bool
  gh_bg :: bg_pc
  gh_closed_pos :: double
  gh_max_speed :: double
  gh_max_force :: double
  gh_position :: double
  gh_velocity :: double
  gh_position_command :: double
  gh_write_command :: u8
  gh_write_force :: u8
  gh_write_speed :: u8
  gh_current_state :: u8
  gh_reactivate_cmd :: double
  gh_reactivate_async_cmd :: bool
  gh_reactivate_response :: double
  gh_force :: double
  gh_speed :: double
  gh_reactivate_async_response :: "bool option"

datatype hw_result = SUCCESS | ERROR
datatype hw_fault = Uncaught conversion_error | System_error | Aborted_process | Undefined_access

definition kGripperMinPos :: int where "kGripperMinPos = 3"
definition kGripperMaxPos :: int where "kGripperMaxPos = 230"
definition kGripperMaxSpeed :: double where "kGripperMaxSpeed = mk (150 / 1000)"
definition kGripperMaxforce :: double where "kGripperMaxforce = Fin 235"
definition kGripperRange :: int where "kGripperRange = kGripperMaxPos - kGripperMinPos"

text \<open>A joint of the hardware description: its name and the names of its interfaces.\<close>

record joint_info =
  ji_name :: string
  ji_command_interfaces :: "string list"
  ji_state_interfaces :: "string list"

section \<open>Lifecycle\<close>

definition joint_ok :: "joint_info \<Rightarrow> bool" where
  "joint_ok joint \<longleftrightarrow> length (ji_command_interfaces joint) = 1 \<and> ji_command_interfaces joint ! 0 = ''position'' \<and>
     length (ji_state_interfaces joint) = 2 \<and>
     (\<forall>i \<in> set [0..<2]. ji_state_interfaces joint ! i \<in> {''position'', ''velocity''})"

text \<open>\<open>create\<close> is the factory; what it throws is caught. The conversions before it are not.\<close>

definition hw_on_init ::
  "bool \<Rightarrow> parameters \<Rightarrow> joint_info list \<Rightarrow> (parameters \<Rightarrow> (conversion_error + 'd) option) \<Rightarrow> 'd gripper_hw \<Rightarrow>
   (hw_fault + hw_result \<times> 'd gripper_hw) option" where
  "hw_on_init base_ok ps joints create h =
     (if \<not> base_ok then Some (Inr (ERROR, h))
      else
        (case stod (parameter ps ''gripper_closed_position'') of
           Inl e \<Rightarrow> Some (Inl (Uncaught e))
         | Inr closed_pos \<Rightarrow>
             (case parameter_or ps ''gripper_max_speed'' stod kGripperMaxSpeed of
                Inl e \<Rightarrow> Some (Inl (Uncaught e))
              | Inr max_speed \<Rightarrow>
                  (case parameter_or ps ''gripper_max_force'' stod kGripperMaxforce of
                     Inl e \<Rightarrow> Some (Inl (Uncaught e))
                   | Inr max_force \<Rightarrow>
                       (let h1 = h\<lparr>gh_parameters := ps, gh_closed_pos := closed_pos, gh_max_speed := max_speed,
                                   gh_max_force := max_force, gh_position := NaN, gh_velocity := NaN,
                                   gh_position_command := NaN, gh_reactivate_cmd := NaN,
                                   gh_reactivate_async_cmd := False\<rparr> in
                        if joints = [] then Some (Inl Undefined_access)
                        else if \<not> joint_ok (joints ! 0) then Some (Inr (ERROR, h1\<lparr>gh_joint := ji_name (joints ! 0)\<rparr>))
                        else
                          (case create ps of
                             None \<Rightarrow> None
                           | Some (Inl _) \<Rightarrow> Some (Inr (ERROR, h1\<lparr>gh_joint := ji_name (joints ! 0)\<rparr>))
                           | Some (Inr driver) \<Rightarrow>
                               Some (Inr (SUCCESS, h1\<lparr>gh_joint := ji_name (joints ! 0), gh_driver := Some driver\<rparr>))))))))"

definition hw_on_configure ::
  "'d driver_ops \<Rightarrow> bool \<Rightarrow> 'd gripper_hw \<Rightarrow> hw_fault + hw_result \<times> 'd gripper_hw" where
  "hw_on_configure ops base_ok h =
     (if \<not> base_ok then Inr (ERROR, h)
      else
        (case gh_driver h of
           None \<Rightarrow> Inl Undefined_access
         | Some d \<Rightarrow>
             (case op_connect ops d of
                (Inl _, d1) \<Rightarrow> Inr (ERROR, h\<lparr>gh_driver := Some d1\<rparr>)
              | (Inr ok, d1) \<Rightarrow> Inr (if ok then SUCCESS else ERROR, h\<lparr>gh_driver := Some d1\<rparr>))))"

text \<open>The exported interfaces: owner, name, and the member behind them.\<close>

datatype hw_member = M_position | M_velocity | M_position_command | M_speed | M_force | M_reactivate_cmd | M_reactivate_response

definition hw_export_state_interfaces :: "'d gripper_hw \<Rightarrow> (string \<times> string \<times> hw_member) list" where
  "hw_export_state_interfaces h =
     [(gh_joint h, ''position'', M_position), (gh_joint h, ''velocity'', M_velocity)]"

definition hw_export_command_interfaces ::
  "'d gripper_hw \<Rightarrow> conversion_error + (string \<times> string \<times> hw_member) list \<times> 'd gripper_hw" where
  "hw_export_command_interfaces h =
     (case parameter_or (gh_parameters h) ''gripper_speed_multiplier'' stod (Fin 1) of
        Inl e \<Rightarrow> Inl e
      | Inr speed \<Rightarrow>
          (case parameter_or (gh_parameters h) ''gripper_force_multiplier'' stod (Fin 1) of
             Inl e \<Rightarrow> Inl e
           | Inr force \<Rightarrow>
               Inr ([(gh_joint h, ''position'', M_position_command),
                     (gh_joint h, ''set_gripper_max_velocity'', M_speed),
                     (gh_joint h, ''set_gripper_max_effort'', M_force),
                     (''reactivate_gripper'', ''reactivate_gripper_cmd'', M_reactivate_cmd),
                     (''reactivate_gripper'', ''reactivate_gripper_response'', M_reactivate_response)],
                    h\<lparr>gh_speed := dmul kGripperMaxSpeed speed, gh_force := dmul kGripperMaxforce force\<rparr>)))"

text \<open>Deactivating and activating, as \<^verbatim>\<open>on_activate\<close> and a reactivation do: whether nothing was thrown.\<close>

definition reactivate :: "'d driver_ops \<Rightarrow> 'd \<Rightarrow> (bool \<times> 'd) option" where
  "reactivate ops d =
     (case op_deactivate ops d of
        (Inl _, d1) \<Rightarrow> Some (False, d1)
      | (Inr _, d1) \<Rightarrow>
          (case op_activate ops d1 of
             None \<Rightarrow> None
           | Some (Inl _, d2) \<Rightarrow> Some (False, d2)
           | Some (Inr _, d2) \<Rightarrow> Some (True, d2)))"

definition hw_on_activate :: "'d driver_ops \<Rightarrow> 'd gripper_hw \<Rightarrow> (hw_fault + hw_result \<times> 'd gripper_hw) option" where
  "hw_on_activate ops h =
     (let h1 = (if gh_position h = NaN then h\<lparr>gh_position := Fin 0, gh_velocity := Fin 0, gh_position_command := Fin 0\<rparr>
                else h) in
      case gh_driver h1 of
        None \<Rightarrow> Some (Inl Undefined_access)
      | Some d \<Rightarrow>
          (case reactivate ops d of
             None \<Rightarrow> None
           | Some (False, d1) \<Rightarrow> Some (Inr (ERROR, h1\<lparr>gh_driver := Some d1\<rparr>))
           | Some (True, d1) \<Rightarrow>
               (if gh_thread_joinable h1 then Some (Inl Aborted_process)
                else Some (Inr (SUCCESS, h1\<lparr>gh_driver := Some d1, gh_thread_running := True,
                                            gh_thread_joinable := True, gh_bg := Bg_check\<rparr>)))))"

section \<open>The control loop\<close>

definition hw_read :: "'d gripper_hw \<Rightarrow> 'd gripper_hw" where
  "hw_read h =
     (let position = ddiv (dmul (gh_closed_pos h) (of_integer (uint (gh_current_state h) - kGripperMinPos)))
            (of_integer kGripperRange);
          h1 = h\<lparr>gh_position := position\<rparr>;
          h2 = (if gh_reactivate_cmd h1 \<noteq> NaN then h1\<lparr>gh_reactivate_async_cmd := True, gh_reactivate_cmd := NaN\<rparr> else h1) in
      case gh_reactivate_async_response h2 of
        None \<Rightarrow> h2
      | Some b \<Rightarrow> h2\<lparr>gh_reactivate_response := (if b then Fin 1 else Fin 0), gh_reactivate_async_response := None\<rparr>)"

fun dabs :: "double \<Rightarrow> double" where
  "dabs (Fin x) = Fin \<bar>x\<bar>" | "dabs PInf = PInf" | "dabs NInf = PInf" | "dabs NaN = NaN"

definition multiplier_byte :: "double \<Rightarrow> double \<Rightarrow> u8 option" where
  "multiplier_byte value limit = double_to_u8 (dmul (dclamp (ddiv (dabs value) limit) (Fin 0) (Fin 1)) (Fin 255))"

definition position_byte :: "double \<Rightarrow> double \<Rightarrow> u8 option" where
  "position_byte command closed_pos =
     (let gripper_pos = dadd (dmul (ddiv command closed_pos) (of_integer kGripperRange)) (of_integer kGripperMinPos) in
      double_to_u8 (dmax (dmin gripper_pos (Fin 255)) (Fin 0)))"

text \<open>\<open>None\<close> where a conversion is undefined.\<close>

definition hw_write :: "'d gripper_hw \<Rightarrow> 'd gripper_hw option" where
  "hw_write h =
     (case (position_byte (gh_position_command h) (gh_closed_pos h),
            multiplier_byte (gh_speed h) (gh_max_speed h), multiplier_byte (gh_force h) (gh_max_force h)) of
        (Some p, Some s, Some f) \<Rightarrow> Some (h\<lparr>gh_write_command := p, gh_write_speed := s, gh_write_force := f\<rparr>)
      | _ \<Rightarrow> None)"

section \<open>The communication thread\<close>

definition background_step :: "'d driver_ops \<Rightarrow> 'd \<Rightarrow> 'd gripper_hw \<Rightarrow> 'd gripper_hw option" where
  "background_step ops d h =
     (case gh_bg h of
        Bg_check \<Rightarrow> Some (h\<lparr>gh_bg := if gh_thread_running h then Bg_async else Bg_ended\<rparr>)
      | Bg_async \<Rightarrow> Some (h\<lparr>gh_bg := if gh_reactivate_async_cmd h then Bg_reactivate else Bg_position\<rparr>)
      | Bg_reactivate \<Rightarrow>
          (case reactivate ops d of
             None \<Rightarrow> None
           | Some (ok, d1) \<Rightarrow> Some (h\<lparr>gh_driver := Some d1, gh_bg := if ok then Bg_clear else Bg_check\<rparr>))
      | Bg_clear \<Rightarrow> Some (h\<lparr>gh_reactivate_async_cmd := False, gh_bg := Bg_respond\<rparr>)
      | Bg_respond \<Rightarrow> Some (h\<lparr>gh_reactivate_async_response := Some True, gh_bg := Bg_position\<rparr>)
      | Bg_position \<Rightarrow>
          (case op_set_gripper_position ops (gh_write_command h) d of
             (Inl _, d1) \<Rightarrow> Some (h\<lparr>gh_driver := Some d1, gh_bg := Bg_check\<rparr>)
           | (Inr _, d1) \<Rightarrow> Some (h\<lparr>gh_driver := Some d1, gh_bg := Bg_speed\<rparr>))
      | Bg_speed \<Rightarrow> Some (h\<lparr>gh_driver := Some (op_set_speed ops (gh_write_speed h) d), gh_bg := Bg_force\<rparr>)
      | Bg_force \<Rightarrow> Some (h\<lparr>gh_driver := Some (op_set_force ops (gh_write_force h) d), gh_bg := Bg_get\<rparr>)
      | Bg_get \<Rightarrow>
          (case op_get_gripper_position ops d of
             (Inl _, d1) \<Rightarrow> Some (h\<lparr>gh_driver := Some d1, gh_bg := Bg_check\<rparr>)
           | (Inr p, d1) \<Rightarrow> Some (h\<lparr>gh_driver := Some d1, gh_current_state := p, gh_bg := Bg_check\<rparr>))
      | Bg_ended \<Rightarrow> Some h)"

datatype hw_event =
    Background | Read_call | Write_call | Command_position double | Command_speed double | Command_force double
  | Command_reactivate double

definition hw_step :: "'d driver_ops \<Rightarrow> hw_event \<Rightarrow> 'd gripper_hw \<Rightarrow> 'd gripper_hw option" where
  "hw_step ops e h =
     (case e of
        Background \<Rightarrow> (case gh_driver h of None \<Rightarrow> None | Some d \<Rightarrow> background_step ops d h)
      | Read_call \<Rightarrow> Some (hw_read h)
      | Write_call \<Rightarrow> hw_write h
      | Command_position v \<Rightarrow> Some (h\<lparr>gh_position_command := v\<rparr>)
      | Command_speed v \<Rightarrow> Some (h\<lparr>gh_speed := v\<rparr>)
      | Command_force v \<Rightarrow> Some (h\<lparr>gh_force := v\<rparr>)
      | Command_reactivate v \<Rightarrow> Some (h\<lparr>gh_reactivate_cmd := v\<rparr>))"

abbreviation hw_run :: "'d driver_ops \<Rightarrow> hw_event list \<Rightarrow> 'd gripper_hw \<Rightarrow> 'd gripper_hw option" where
  "hw_run ops \<equiv> run_steps (hw_step ops)"

text \<open>Waiting for the thread after it was told to end: it finishes its cycle, at most nine steps.\<close>

definition join_thread :: "'d driver_ops \<Rightarrow> 'd gripper_hw \<Rightarrow> 'd gripper_hw option" where
  "join_thread ops h = map_option (\<lambda>h1. h1\<lparr>gh_thread_joinable := False\<rparr>)
     (hw_run ops (replicate 9 Background) (h\<lparr>gh_thread_running := False\<rparr>))"

text \<open>The first \<^verbatim>\<open>join\<close> is unconditional and throws if there is no thread.\<close>

definition hw_on_deactivate :: "'d driver_ops \<Rightarrow> 'd gripper_hw \<Rightarrow> (hw_fault + hw_result \<times> 'd gripper_hw) option" where
  "hw_on_deactivate ops h =
     (if \<not> gh_thread_joinable h then Some (Inl System_error)
      else if gh_driver h = None then Some (Inl Undefined_access)
      else
        (case join_thread ops h of
           None \<Rightarrow> None
         | Some h1 \<Rightarrow>
             (case op_deactivate ops (the (gh_driver h1)) of
                (Inl _, d1) \<Rightarrow> Some (Inr (ERROR, h1\<lparr>gh_driver := Some d1\<rparr>))
              | (Inr _, d1) \<Rightarrow> Some (Inr (SUCCESS, h1\<lparr>gh_driver := Some d1\<rparr>)))))"

definition hw_destroy :: "'d driver_ops \<Rightarrow> 'd gripper_hw \<Rightarrow> 'd gripper_hw option" where
  "hw_destroy ops h =
     (if gh_thread_joinable h then join_thread ops h else Some (h\<lparr>gh_thread_running := False\<rparr>))"

section \<open>One cycle of the thread\<close>

lemma replicate_6: "replicate 6 x = [x, x, x, x, x, x]"
  by (simp add: numeral_eq_Suc)

text \<open>A thread that was told to end does end, once a reactivation under way returns.\<close>

lemma ended_stays: "gh_bg h = Bg_ended \<Longrightarrow> gh_driver h = Some d \<Longrightarrow> hw_run ops (replicate n Background) h = Some h"
  by (induction n) (simp_all add: hw_step_def background_step_def)

fun bg_rank :: "bg_pc \<Rightarrow> nat" where
  "bg_rank Bg_ended = 0" | "bg_rank Bg_check = 1" | "bg_rank Bg_get = 2" | "bg_rank Bg_force = 3" | "bg_rank Bg_speed = 4"
| "bg_rank Bg_position = 5" | "bg_rank Bg_respond = 6" | "bg_rank Bg_clear = 7" | "bg_rank Bg_reactivate = 8" | "bg_rank Bg_async = 9"

lemma stopping_step:
  assumes "\<not> gh_thread_running h" "gh_driver h = Some d" "hw_step ops Background h = Some h'"
  shows "\<not> gh_thread_running h' \<and> gh_driver h' \<noteq> None \<and> (bg_rank (gh_bg h') < bg_rank (gh_bg h) \<or> bg_rank (gh_bg h') = 0)"
  using assms by (cases "gh_bg h") (auto simp: hw_step_def background_step_def split: option.splits prod.splits sum.splits if_splits)

lemma stopping_run:
  assumes "\<not> gh_thread_running h" "gh_driver h \<noteq> None" "bg_rank (gh_bg h) \<le> n" "hw_run ops (replicate n Background) h = Some h'"
  shows "gh_bg h' = Bg_ended \<and> gh_driver h' \<noteq> None"
  using assms
proof (induction n arbitrary: h)
  case 0
  then show ?case by (cases "gh_bg h") auto
next
  case (Suc n)
  then obtain h1 where h1: "hw_step ops Background h = Some h1" "hw_run ops (replicate n Background) h1 = Some h'"
    by (auto split: option.splits)
  from Suc.prems(2) stopping_step [OF Suc.prems(1) _ h1(1)]
  have "\<not> gh_thread_running h1" "gh_driver h1 \<noteq> None" "bg_rank (gh_bg h1) \<le> n" using Suc.prems(3) by auto
  then show ?case using Suc.IH h1(2) by blast
qed

lemma join_ends:
  assumes "join_thread ops h = Some h'" "gh_driver h \<noteq> None"
  shows "gh_bg h' = Bg_ended \<and> gh_driver h' \<noteq> None \<and> \<not> gh_thread_joinable h'"
proof -
  obtain h1 where h1: "hw_run ops (replicate 9 Background) (h\<lparr>gh_thread_running := False\<rparr>) = Some h1"
    "h' = h1\<lparr>gh_thread_joinable := False\<rparr>" using assms(1) by (auto simp: join_thread_def)
  have "bg_rank pc \<le> 9" for pc by (cases pc) auto
  then show ?thesis using stopping_run [OF _ _ _ h1(1)] assms(2) h1(2) by simp
qed

text \<open>A reactivation asked for while one is under way gets no reactivation of its own.\<close>

lemma second_reactivation_is_dropped:
  assumes "gh_bg h = Bg_clear" "gh_driver h = Some d"
  shows "hw_run ops [Command_reactivate v, Read_call, Background] h = Some h' \<Longrightarrow> \<not> gh_reactivate_async_cmd h' \<and> gh_reactivate_cmd h' = NaN"
  using assms by (auto simp: hw_step_def background_step_def hw_read_def Let_def split: option.splits if_splits)

context gripper_driver
begin

text \<open>A cycle without interference in which nothing is thrown.\<close>

lemma cycle_effect:
  assumes "gh_bg h = Bg_check" "gh_thread_running h" "\<not> gh_reactivate_async_cmd h" "gh_driver h = Some d"
    and p: "op_set_gripper_position ops (gh_write_command h) d = (Inr u, d1)"
    and g: "op_get_gripper_position ops (op_set_force ops (gh_write_force h) (op_set_speed ops (gh_write_speed h) d1)) = (Inr q, d2)"
  shows "hw_run ops (replicate 6 Background) h = Some (h\<lparr>gh_driver := Some d2, gh_current_state := q\<rparr>)"
    "speed d2 = gh_write_speed h" "force d2 = gh_write_force h" "speed d1 = speed d" "force d1 = force d"
proof -
  have "h\<lparr>gh_bg := Bg_check\<rparr> = h" using assms(1) by (cases h) simp
  then show "hw_run ops (replicate 6 Background) h = Some (h\<lparr>gh_driver := Some d2, gh_current_state := q\<rparr>)"
    using assms by (simp add: replicate_6 hw_step_def background_step_def)
  show "speed d2 = gh_write_speed h" "force d2 = gh_write_force h"
    using get_position_keeps [OF g] by (simp_all add: speed_set_force force_set_force speed_set_speed)
  show "speed d1 = speed d" "force d1 = force d" using set_position_keeps [OF p] by simp_all
qed

end

lemma set_position_slave:
  assumes "on_driver (set_gripper_position pos) (fake_set_gripper_position pos) (Real r) = (res, Real r1)"
  shows "set_gripper_position pos r = (res, r1)"
  using assms by (cases "set_gripper_position pos r") (simp add: on_driver_def)

text \<open>C33. A cycle of the communication thread sends the position before the speed and the force that were
  written with it: after an undisturbed cycle the driver has the new speed and force, the state read
  back is stored, but the request on the wire carried the new position with the speed and force of the
  cycle before.\<close>

theorem position_goes_out_with_old_speed:
  assumes "gh_bg h = Bg_check" "gh_thread_running h" "\<not> gh_reactivate_async_cmd h" "gh_driver h = Some (Real r)"
    and "op_set_gripper_position any_driver_ops (gh_write_command h) (Real r) = (Inr u, Real r1)"
    and "op_get_gripper_position any_driver_ops
           (op_set_force any_driver_ops (gh_write_force h) (op_set_speed any_driver_ops (gh_write_speed h) (Real r1))) = (Inr q, d2)"
  defines "body \<equiv> [dd_slave_address r, 0x10, 0x03, 0xE8, 0x00, 0x03, 0x06, 0x09, 0x00, 0x00, gh_write_command h,
      dd_commanded_gripper_speed r, dd_commanded_gripper_force r]"
  shows "hw_run any_driver_ops (replicate 6 Background) h = Some (h\<lparr>gh_driver := Some d2, gh_current_state := q\<rparr>) \<and>
    any_speed d2 = gh_write_speed h \<and> any_force d2 = gh_write_force h \<and>
    (\<exists>k. 1 \<le> k \<and> k \<le> 5 \<and> sp_sent (dd_serial r1) =
       sp_sent (dd_serial r) @ replicate k (body @ [ucast (crc_of body), ucast (drop_bit 8 (crc_of body))]))"
proof -
  note c = any_driver.cycle_effect [OF assms(1-6)]
  have "set_gripper_position (gh_write_command h) r = (Inr u, r1)"
    using set_position_slave assms(5) by (simp add: any_driver_ops_def)
  with set_position_on_the_wire [where pos = "gh_write_command h" and d = r] c(1-3) show ?thesis by (simp add: body_def Let_def)
qed

section \<open>What the control loop writes\<close>

lemma double_to_u8_in:
  assumes "0 \<le> x" "x \<le> 255" shows "double_to_u8 (Fin x) = Some (of_int \<lfloor>x\<rfloor>)" "0 \<le> \<lfloor>x\<rfloor>" "\<lfloor>x\<rfloor> \<le> 255"
  using assms by (auto simp: double_to_u8_def rat_trunc_def floor_le_iff)

lemma position_byte_eq:
  assumes "0 < c" "is_double (Fin c)" "0 \<le> x" "x \<le> c"
  defines "y \<equiv> rnd (rnd (rnd (x / c) * 227) + 3)"
  shows "position_byte (Fin x) (Fin c) = Some (of_int \<lfloor>y\<rfloor>)" "3 \<le> y" "y \<le> 230"
proof -
  have d: "is_double (Fin 0)" "is_double (Fin 1)" "is_double (Fin 3)" "is_double (Fin 227)" "is_double (Fin 230)"
    using is_double_of_int [of 0] is_double_of_int [of 1] is_double_of_int [of 3] is_double_of_int [of 227]
      is_double_of_int [of 230] by simp_all
  have k: "of_integer kGripperRange = Fin 227" "of_integer kGripperMinPos = Fin 3"
    using of_integer_exact [of 227] of_integer_exact [of 3] by (simp_all add: kGripperRange_def kGripperMinPos_def kGripperMaxPos_def)
  have 1: "mk (x / c) = Fin (rnd (x / c))" "0 \<le> rnd (x / c)" "rnd (x / c) \<le> 1"
    using mk_between [OF d(1,2), of "x / c"] assms(1,3,4) by auto
  have 2: "mk (rnd (x / c) * 227) = Fin (rnd (rnd (x / c) * 227))" "0 \<le> rnd (rnd (x / c) * 227)" "rnd (rnd (x / c) * 227) \<le> 227"
    using mk_between [OF d(1,4), of "rnd (x / c) * 227"] 1(2,3) by auto
  have 3: "mk (rnd (rnd (x / c) * 227) + 3) = Fin y" "3 \<le> y" "y \<le> 230"
    using mk_between [OF d(3,5), of "rnd (rnd (x / c) * 227) + 3"] 2(2,3) by (auto simp: y_def)
  show "3 \<le> y" "y \<le> 230" by fact+
  show "position_byte (Fin x) (Fin c) = Some (of_int \<lfloor>y\<rfloor>)"
    using assms(1) 1(1) 2(1) 3 double_to_u8_in(1) [of y] by (simp add: position_byte_def k Let_def dmin_def dmax_def)
qed

lemma multiplier_byte_eq:
  assumes "0 < m"
  shows "\<exists>n. multiplier_byte (Fin v) (Fin m) = Some (of_int n) \<and> 0 \<le> n \<and> n \<le> 255 \<and> (m \<le> \<bar>v\<bar> \<longrightarrow> n = 255)"
proof -
  have d: "is_double (Fin 0)" "is_double (Fin 1)" "is_double (Fin 255)"
    using is_double_of_int [of 0] is_double_of_int [of 1] is_double_of_int [of 255] by simp_all
  have nn: "0 \<le> rnd (\<bar>v\<bar> / m)" using assms by (intro rnd_sign) simp
  define q where "q = dclamp (mk (\<bar>v\<bar> / m)) (Fin 0) (Fin 1)"
  have one: "1 \<le> rnd (\<bar>v\<bar> / m)" if "m \<le> \<bar>v\<bar>"
    using rnd_mono [of 1 "\<bar>v\<bar> / m"] rnd_representable [of 1] that assms by simp
  have mx: "\<not> rnd (\<bar>v\<bar> / m) < - DBL_MAX" using nn DBL_MAX_ge_int by simp
  obtain r where r: "q = Fin r" "0 \<le> r" "r \<le> 1" "m \<le> \<bar>v\<bar> \<longrightarrow> r = 1"
    using nn one mx by (cases "DBL_MAX < rnd (\<bar>v\<bar> / m)"; cases "1 < rnd (\<bar>v\<bar> / m)")
      (auto simp: q_def mk_def Let_def dclamp_def)
  have 1: "mk (r * 255) = Fin (rnd (r * 255))" "0 \<le> rnd (r * 255)" "rnd (r * 255) \<le> 255"
    using mk_between [OF d(1,3), of "r * 255"] r(2,3) by auto
  have "multiplier_byte (Fin v) (Fin m) = Some (of_int \<lfloor>rnd (r * 255)\<rfloor>)"
    using assms 1 double_to_u8_in(1) [OF 1(2,3)] r(1) by (simp add: multiplier_byte_def q_def)
  moreover have "rnd (r * 255) = 255" if "m \<le> \<bar>v\<bar>"
    using that r(4) rnd_representable [of 255] d(3) by (simp add: is_double_def)
  ultimately show ?thesis using double_to_u8_in(2,3) [OF 1(2,3)] by (intro exI [of _ "\<lfloor>rnd (r * 255)\<rfloor>"]) auto
qed

text \<open>C34. What the control loop hands to the thread is in range: for a position command between open and
  closed, positive limits and any finite speed and force, \<^verbatim>\<open>write\<close> stores a position between 3 and
  230, exactly 3 for open and 230 for closed, monotone in the command, and bytes for speed and force
  that saturate at 255. With a command that is not a number, as \<^verbatim>\<open>on_init\<close> leaves it, the conversion
  is undefined.\<close>

theorem write_stays_in_range:
  assumes "gh_closed_pos h = Fin c" "0 < c" "is_double (Fin c)" "gh_position_command h = Fin x" "0 \<le> x" "x \<le> c"
    and "gh_speed h = Fin v" "gh_max_speed h = Fin mv" "0 < mv" "gh_force h = Fin f" "gh_max_force h = Fin mf" "0 < mf"
  shows "(\<exists>p s t. hw_write h = Some (h\<lparr>gh_write_command := of_int p, gh_write_speed := of_int s, gh_write_force := of_int t\<rparr>) \<and>
      3 \<le> p \<and> p \<le> 230 \<and> (x = 0 \<longrightarrow> p = 3) \<and> (x = c \<longrightarrow> p = 230) \<and>
      (\<forall>y. x \<le> y \<and> y \<le> c \<longrightarrow> (\<exists>p'. position_byte (Fin y) (Fin c) = Some (of_int p') \<and> p \<le> p' \<and> p' \<le> 230)) \<and>
      0 \<le> s \<and> s \<le> 255 \<and> (mv \<le> \<bar>v\<bar> \<longrightarrow> s = 255) \<and> 0 \<le> t \<and> t \<le> 255 \<and> (mf \<le> \<bar>f\<bar> \<longrightarrow> t = 255)) \<and>
    hw_write (h\<lparr>gh_position_command := NaN\<rparr>) = None"
proof
  let ?y = "\<lambda>x. rnd (rnd (rnd (x / c) * 227) + 3)"
  note px = position_byte_eq [OF assms(2,3)]
  obtain s where s: "multiplier_byte (Fin v) (Fin mv) = Some (of_int s)" "0 \<le> s" "s \<le> 255" "mv \<le> \<bar>v\<bar> \<longrightarrow> s = 255"
    using multiplier_byte_eq [OF assms(9)] by blast
  obtain t where t: "multiplier_byte (Fin f) (Fin mf) = Some (of_int t)" "0 \<le> t" "t \<le> 255" "mf \<le> \<bar>f\<bar> \<longrightarrow> t = 255"
    using multiplier_byte_eq [OF assms(12)] by blast
  have w: "hw_write h = Some (h\<lparr>gh_write_command := of_int \<lfloor>?y x\<rfloor>, gh_write_speed := of_int s, gh_write_force := of_int t\<rparr>)"
    by (simp add: hw_write_def assms px(1) [OF assms(5,6)] s(1) t(1))
  have exact: "rnd 1 = 1" "rnd 227 = 227" "rnd 230 = 230" "rnd 3 = 3"
    using representable_of_int [of 227] representable_of_int [of 230] representable_of_int [of 3]
    by (simp_all add: rnd_representable)
  have "\<lfloor>?y 0\<rfloor> = 3" "\<lfloor>?y c\<rfloor> = 230" using assms(2) exact by simp_all
  moreover have "\<exists>p'. position_byte (Fin y) (Fin c) = Some (of_int p') \<and> \<lfloor>?y x\<rfloor> \<le> p' \<and> p' \<le> 230" if "x \<le> y \<and> y \<le> c" for y
  proof -
    have y: "0 \<le> y" "y \<le> c" using that assms(5) by auto
    have "x / c \<le> y / c" using that assms(2) by (simp add: divide_right_mono)
    then have "?y x \<le> ?y y" by (intro rnd_mono add_right_mono mult_right_mono) simp_all
    then have "\<lfloor>?y x\<rfloor> \<le> \<lfloor>?y y\<rfloor>" by (rule floor_mono)
    moreover have "\<lfloor>?y y\<rfloor> \<le> 230" using px(3) [OF y] by (simp add: floor_le_iff)
    ultimately show ?thesis using px(1) [OF y] by blast
  qed
  moreover have "3 \<le> \<lfloor>?y x\<rfloor>" "\<lfloor>?y x\<rfloor> \<le> 230" using px(2,3) [OF assms(5,6)] by (simp_all add: le_floor_iff floor_le_iff)
  ultimately show "\<exists>p s t. hw_write h = Some (h\<lparr>gh_write_command := of_int p, gh_write_speed := of_int s, gh_write_force := of_int t\<rparr>) \<and>
      3 \<le> p \<and> p \<le> 230 \<and> (x = 0 \<longrightarrow> p = 3) \<and> (x = c \<longrightarrow> p = 230) \<and>
      (\<forall>y. x \<le> y \<and> y \<le> c \<longrightarrow> (\<exists>p'. position_byte (Fin y) (Fin c) = Some (of_int p') \<and> p \<le> p' \<and> p' \<le> 230)) \<and>
      0 \<le> s \<and> s \<le> 255 \<and> (mv \<le> \<bar>v\<bar> \<longrightarrow> s = 255) \<and> 0 \<le> t \<and> t \<le> 255 \<and> (mf \<le> \<bar>f\<bar> \<longrightarrow> t = 255)"
    using w s(2-4) t(2-4) by blast
  show "hw_write (h\<lparr>gh_position_command := NaN\<rparr>) = None"
    by (simp add: hw_write_def position_byte_def Let_def assms(1) dmin_def dmax_def double_to_u8_def)
qed

text \<open>A \<^verbatim>\<open>read\<close> before the activation makes the position a number, so that \<^verbatim>\<open>on_activate\<close> leaves the
  command as \<^verbatim>\<open>on_init\<close> set it.\<close>

lemma activation_after_read_keeps_command:
  assumes "gh_closed_pos h = Fin c" "hw_on_activate ops (hw_read h) = Some (Inr (SUCCESS, h'))"
  shows "gh_position_command h' = gh_position_command h"
proof -
  define n where "n = uint (gh_current_state h)"
  have "0 \<le> n" "n < 256" using unsigned_less [of "gh_current_state h", where 'a = int] by (simp_all add: n_def)
  then have i: "of_integer (n - 3) = Fin (of_int (n - 3))" "of_integer 227 = Fin 227"
    using of_integer_exact [of "n - 3"] of_integer_exact [of 227] by simp_all
  have "ddiv a (Fin 227) \<noteq> NaN" if "a \<noteq> NaN" for a
    using that by (cases a) (simp_all add: mk_def Let_def inf_of_def)
  moreover have "mk y \<noteq> NaN" for y by (simp add: mk_def Let_def)
  ultimately have "ddiv (dmul (gh_closed_pos h) (of_integer (n - kGripperMinPos))) (of_integer kGripperRange) \<noteq> NaN"
    unfolding kGripperRange_def kGripperMaxPos_def kGripperMinPos_def assms(1) using i by simp
  then have read: "gh_position (hw_read h) \<noteq> NaN" "gh_position_command (hw_read h) = gh_position_command h"
    by (simp_all add: hw_read_def n_def Let_def split: option.split)
  show ?thesis using assms(2) read
    by (auto simp: hw_on_activate_def Let_def split: option.splits prod.splits bool.splits if_splits)
qed

section \<open>Concrete runs\<close>

definition demo_port :: serial_port where
  "demo_port =
     \<lparr>sp_open = True, sp_port = ''p'', sp_timeout = 500, sp_baudrate = 115200, sp_opens = sconst None,
      sp_writes = Wrote 15 ## sconst (Wrote 8), sp_reads = Read_bytes (replicate 8 0) ## sconst (Read_bytes (replicate 17 0)),
      sp_sent = []\<rparr>"

definition demo_driver :: default_driver where
  "demo_driver =
     \<lparr>dd_serial = demo_port, dd_slave_address = 9, dd_activation_status = ACT_ACTIVE, dd_action_status = ACTION_STOPPED,
      dd_gripper_status = GRIPPER_COMPLETED, dd_object_detection_status = AT_REQUESTED_POSITION,
      dd_gripper_position = 0, dd_commanded_gripper_speed = 1, dd_commanded_gripper_force = 2\<rparr>"

definition demo_hw :: "any_driver gripper_hw" where
  "demo_hw =
     \<lparr>gh_parameters = Map.empty, gh_joint = ''knuckle'', gh_driver = Some (Real demo_driver), gh_thread_joinable = True,
      gh_thread_running = True, gh_bg = Bg_check, gh_closed_pos = Fin 1, gh_max_speed = Fin 1, gh_max_force = Fin 1,
      gh_position = Fin 0, gh_velocity = Fin 0, gh_position_command = Fin 1, gh_write_command = 100, gh_write_force = 4,
      gh_write_speed = 3, gh_current_state = 3, gh_reactivate_cmd = NaN, gh_reactivate_async_cmd = False,
      gh_reactivate_response = Fin 0, gh_force = Fin 1, gh_speed = Fin 2, gh_reactivate_async_response = None\<rparr>"

lemma demo_position_request:
  "\<exists>r1. set_gripper_position 100 demo_driver = (Inr (), r1) \<and> sp_reads (dd_serial r1) = sconst (Read_bytes (replicate 17 0)) \<and>
     sp_writes (dd_serial r1) = sconst (Wrote 8)"
  by (simp add: set_gripper_position_def Let_def send_def send_loop.simps send_attempt_def serial_write_def
      serial_read_def create_write_command_def demo_driver_def demo_port_def kMaxRetries_def kWriteResponseSize_def)

lemma demo_position_read:
  assumes "sp_reads (dd_serial d) = sconst (Read_bytes (replicate 17 0))" "sp_writes (dd_serial d) = sconst (Wrote 8)"
  shows "\<exists>d2. get_gripper_position d = (Inr 0, d2)"
  using assms
  by (simp add: get_gripper_position_def update_status_def Let_def send_def send_loop.simps send_attempt_def
      serial_write_def serial_read_def create_read_command_def kMaxRetries_def kReadResponseSize_def kNumOutputRegisters_def
      process_response_def kResponseHeaderSize_def kPositionIndex_def)

theorem position_goes_out_with_old_speed_witness:
  "\<exists>d2. hw_run any_driver_ops (replicate 6 Background) demo_hw = Some (demo_hw\<lparr>gh_driver := Some d2, gh_current_state := 0\<rparr>) \<and>
     any_speed d2 = 3 \<and> any_force d2 = 4"
proof -
  obtain r1 where r1: "set_gripper_position 100 demo_driver = (Inr (), r1)"
    "sp_reads (dd_serial r1) = sconst (Read_bytes (replicate 17 0))" "sp_writes (dd_serial r1) = sconst (Wrote 8)"
    using demo_position_request by blast
  have "sp_reads (dd_serial (set_force 4 (set_speed 3 r1))) = sconst (Read_bytes (replicate 17 0))"
    "sp_writes (dd_serial (set_force 4 (set_speed 3 r1))) = sconst (Wrote 8)"
    using r1(2,3) by (simp_all add: set_force_def set_speed_def)
  from demo_position_read [OF this] obtain d2 where d2: "get_gripper_position (set_force 4 (set_speed 3 r1)) = (Inr 0, d2)" by blast
  have 1: "op_set_gripper_position any_driver_ops (gh_write_command demo_hw) (Real demo_driver) = (Inr (), Real r1)"
    using r1(1) by (simp add: any_driver_ops_def on_driver_def demo_hw_def)
  have 2: "op_get_gripper_position any_driver_ops (op_set_force any_driver_ops (gh_write_force demo_hw)
      (op_set_speed any_driver_ops (gh_write_speed demo_hw) (Real r1))) = (Inr 0, Real d2)"
    using d2 by (simp add: any_driver_ops_def on_driver_def update_driver_def demo_hw_def)
  show ?thesis
    using position_goes_out_with_old_speed [OF _ _ _ _ 1 2] by (auto simp: demo_hw_def)
qed

theorem write_stays_in_range_witness:
  "\<exists>h'. hw_write demo_hw = Some h' \<and> gh_write_command h' = 230 \<and> gh_write_speed h' = 255"
proof -
  have "is_double (Fin 1)" using is_double_of_int [of 1] by simp
  then show ?thesis using write_stays_in_range [of demo_hw 1 1 2 1 1 1] by (auto simp: demo_hw_def)
qed

end
