(* ===== verification/Activation_Controller.thy ===== *)
theory Activation_Controller
  imports Hardware_Interface
begin

text \<open>
  \<^verbatim>\<open>RobotiqActivationController\<close> of \<^verbatim>\<open>robotiq_controllers/src/robotiq_activation_controller.cpp\<close>: the
  service that asks for a reactivation of the gripper, together with the hardware interface it talks to
  through two command interfaces. The service writes and polls these interfaces while the control loop
  and the communication thread run, so a run is a sequence of their steps in any order.
\<close>

section \<open>The controller\<close>

record activation_controller =
  ac_claimed :: "string list"
  ac_service :: bool

definition ac_command_interface_configuration :: "string list" where
  "ac_command_interface_configuration =
     [''reactivate_gripper/reactivate_gripper_cmd'', ''reactivate_gripper/reactivate_gripper_response'']"

definition ac_state_interface_configuration :: "string list" where
  "ac_state_interface_configuration = []"

definition ac_on_init :: "activation_controller \<Rightarrow> hw_result \<times> activation_controller" where
  "ac_on_init c = (SUCCESS, c)"

text \<open>\<open>created\<close> is whether the creation of the service threw nothing.\<close>

definition ac_on_activate :: "bool \<Rightarrow> activation_controller \<Rightarrow> hw_result \<times> activation_controller" where
  "ac_on_activate created c =
     (if length (ac_claimed c) \<noteq> 2 then (ERROR, c)
      else if \<not> created then (ERROR, c)
      else (SUCCESS, c\<lparr>ac_service := True\<rparr>))"

definition ac_on_deactivate :: "activation_controller \<Rightarrow> hw_result \<times> activation_controller" where
  "ac_on_deactivate c = (SUCCESS, c\<lparr>ac_service := False\<rparr>)"

definition ASYNC_WAITING :: double where "ASYNC_WAITING = Fin 2"

text \<open>The points of \<^verbatim>\<open>reactivateGripper\<close>; a poll that finds no answer sleeps and polls again.\<close>

datatype srv_pc = Srv_start | Srv_command | Srv_poll | Srv_answered bool

definition service_step :: "srv_pc \<Rightarrow> 'd gripper_hw \<Rightarrow> srv_pc \<times> 'd gripper_hw" where
  "service_step pc h =
     (case pc of
        Srv_start \<Rightarrow> (Srv_command, h\<lparr>gh_reactivate_response := ASYNC_WAITING\<rparr>)
      | Srv_command \<Rightarrow> (Srv_poll, h\<lparr>gh_reactivate_cmd := Fin 1\<rparr>)
      | Srv_poll \<Rightarrow>
          (if deq (gh_reactivate_response h) ASYNC_WAITING then (Srv_poll, h)
           else (Srv_answered (gh_reactivate_response h \<noteq> Fin 0), h))
      | Srv_answered b \<Rightarrow> (Srv_answered b, h))"

datatype reactivation_event = Service | Hw hw_event

fun reactivation_step ::
  "'d driver_ops \<Rightarrow> reactivation_event \<Rightarrow> srv_pc \<times> 'd gripper_hw \<Rightarrow> (srv_pc \<times> 'd gripper_hw) option" where
  "reactivation_step ops Service (pc, h) = Some (service_step pc h)"
| "reactivation_step ops (Hw e) (pc, h) = map_option (Pair pc) (hw_step ops e h)"

abbreviation reactivation_run ::
  "'d driver_ops \<Rightarrow> reactivation_event list \<Rightarrow> srv_pc \<times> 'd gripper_hw \<Rightarrow> (srv_pc \<times> 'd gripper_hw) option" where
  "reactivation_run ops \<equiv> run_steps (reactivation_step ops)"

section \<open>One token\<close>

text \<open>No reactivation is asked for or under way. A call of the service puts one request on its way: in the
  command interface, in the flag the thread reads, at the thread, in the answer of the thread, and in
  the response interface. It is answered from the third place on.\<close>

definition reactivating :: "bg_pc set" where "reactivating = {Bg_reactivate, Bg_clear, Bg_respond}"

definition quiescent :: "'d gripper_hw \<Rightarrow> bool" where
  "quiescent h \<longleftrightarrow> gh_reactivate_cmd h = NaN \<and> \<not> gh_reactivate_async_cmd h \<and> gh_reactivate_async_response h = None \<and>
     gh_bg h \<notin> reactivating"

definition asked :: "'d gripper_hw \<Rightarrow> bool" where
  "asked h \<longleftrightarrow> gh_reactivate_response h = ASYNC_WAITING \<and> gh_reactivate_async_response h = None \<and>
     (gh_reactivate_cmd h \<noteq> NaN \<and> \<not> gh_reactivate_async_cmd h \<and> gh_bg h \<notin> reactivating \<or>
      gh_reactivate_cmd h = NaN \<and> gh_reactivate_async_cmd h \<and> gh_bg h \<notin> {Bg_clear, Bg_respond})"

definition answering :: "'d gripper_hw \<Rightarrow> bool" where
  "answering h \<longleftrightarrow> gh_reactivate_cmd h = NaN \<and> gh_reactivate_response h = ASYNC_WAITING \<and>
     (gh_reactivate_async_cmd h \<and> gh_reactivate_async_response h = None \<and> gh_bg h = Bg_clear \<or>
      \<not> gh_reactivate_async_cmd h \<and> gh_reactivate_async_response h = None \<and> gh_bg h = Bg_respond \<or>
      \<not> gh_reactivate_async_cmd h \<and> gh_reactivate_async_response h = Some True \<and> gh_bg h \<notin> reactivating)"

definition answered :: "'d gripper_hw \<Rightarrow> bool" where
  "answered h \<longleftrightarrow> quiescent h \<and> gh_reactivate_response h = Fin 1"

fun on_its_way :: "bool \<Rightarrow> srv_pc \<times> 'd gripper_hw \<Rightarrow> bool" where
  "on_its_way reactivated (Srv_start, h) \<longleftrightarrow> quiescent h"
| "on_its_way reactivated (Srv_command, h) \<longleftrightarrow> quiescent h \<and> gh_reactivate_response h = ASYNC_WAITING"
| "on_its_way reactivated (Srv_poll, h) \<longleftrightarrow> asked h \<or> reactivated \<and> (answering h \<or> answered h)"
| "on_its_way reactivated (Srv_answered b, h) \<longleftrightarrow> b \<and> reactivated \<and> answered h"

text \<open>Somewhere in the run the thread reactivated the gripper and nothing was thrown.\<close>

definition reactivated_in :: "'d driver_ops \<Rightarrow> reactivation_event list \<Rightarrow> srv_pc \<times> 'd gripper_hw \<Rightarrow> bool" where
  "reactivated_in ops es s \<longleftrightarrow>
     (\<exists>es1 es2 pc h d d'. es = es1 @ Hw Background # es2 \<and> reactivation_run ops es1 s = Some (pc, h) \<and>
        gh_bg h = Bg_reactivate \<and> gh_driver h = Some d \<and> reactivate ops d = Some (True, d'))"

definition reactivates_now :: "'d driver_ops \<Rightarrow> reactivation_event \<Rightarrow> 'd gripper_hw \<Rightarrow> bool" where
  "reactivates_now ops e h \<longleftrightarrow> e = Hw Background \<and> gh_bg h = Bg_reactivate \<and>
     (\<exists>d d'. gh_driver h = Some d \<and> reactivate ops d = Some (True, d'))"

lemmas token_defs = quiescent_def asked_def answering_def answered_def reactivating_def ASYNC_WAITING_def

text \<open>What a step of the thread does to the token.\<close>

lemma background_fields:
  assumes "hw_step ops Background h = Some h'"
  shows "gh_reactivate_cmd h' = gh_reactivate_cmd h" "gh_reactivate_response h' = gh_reactivate_response h"
    "gh_reactivate_async_cmd h' = (gh_reactivate_async_cmd h \<and> gh_bg h \<noteq> Bg_clear)"
    "gh_reactivate_async_response h' = (if gh_bg h = Bg_respond then Some True else gh_reactivate_async_response h)"
    "gh_bg h' = Bg_reactivate \<Longrightarrow> gh_reactivate_async_cmd h" "gh_bg h' = Bg_clear \<longleftrightarrow> reactivates_now ops (Hw Background) h"
    "gh_bg h' = Bg_respond \<longleftrightarrow> gh_bg h = Bg_clear"
proof -
  obtain d where "gh_driver h = Some d" "background_step ops d h = Some h'"
    using assms by (auto simp: hw_step_def split: option.splits)
  note step = this [unfolded background_step_def]
  show "gh_reactivate_cmd h' = gh_reactivate_cmd h" "gh_reactivate_response h' = gh_reactivate_response h"
    "gh_reactivate_async_cmd h' = (gh_reactivate_async_cmd h \<and> gh_bg h \<noteq> Bg_clear)"
    "gh_reactivate_async_response h' = (if gh_bg h = Bg_respond then Some True else gh_reactivate_async_response h)"
    "gh_bg h' = Bg_reactivate \<Longrightarrow> gh_reactivate_async_cmd h" "gh_bg h' = Bg_respond \<longleftrightarrow> gh_bg h = Bg_clear"
    using step by (cases "gh_bg h"; clarsimp split: option.splits prod.splits sum.splits if_splits)+
  show "gh_bg h' = Bg_clear \<longleftrightarrow> reactivates_now ops (Hw Background) h"
    using step by (cases "gh_bg h"; clarsimp simp: reactivates_now_def split: option.splits prod.splits sum.splits if_splits)
qed

lemma background_leaves_reactivation:
  assumes "hw_step ops Background h = Some h'" "gh_bg h \<notin> {Bg_reactivate, Bg_clear, Bg_respond}" "\<not> gh_reactivate_async_cmd h"
  shows "gh_bg h' \<notin> {Bg_reactivate, Bg_clear, Bg_respond}"
  using background_fields(5-7) [OF assms(1)] assms(2,3) by (auto simp: reactivates_now_def)

lemma reactivates_now_at: "reactivates_now ops e h \<Longrightarrow> gh_bg h = Bg_reactivate"
  by (simp add: reactivates_now_def)

lemma background_keeps_token:
  assumes "hw_step ops Background h = Some h'"
  shows "quiescent h \<Longrightarrow> quiescent h'" "answered h \<Longrightarrow> answered h'" "answering h \<Longrightarrow> answering h'"
    "asked h \<Longrightarrow> asked h' \<or> reactivates_now ops (Hw Background) h \<and> answering h'"
proof -
  note f = background_fields [OF assms] and now = reactivates_now_at [of ops "Hw Background" h]
  show q: "quiescent h \<Longrightarrow> quiescent h'"
    using f(1,3,4) background_leaves_reactivation [OF assms] by (auto simp: quiescent_def reactivating_def)
  show "answered h \<Longrightarrow> answered h'" using q f(2) by (simp add: answered_def)
  show "answering h'" if "answering h"
  proof (cases "gh_bg h = Bg_clear")
    case True
    then show ?thesis using that f(1-4,7) by (simp add: answering_def reactivating_def)
  next
    case False
    then have "\<not> gh_reactivate_async_cmd h" "gh_bg h \<noteq> Bg_reactivate" using that by (auto simp: answering_def reactivating_def)
    then have "gh_bg h' \<notin> reactivating" using f(5-7) now False by (auto simp: reactivating_def)
    then show ?thesis using that False f(1-4) by (cases "gh_bg h = Bg_respond") (auto simp: answering_def reactivating_def)
  qed
  show "asked h' \<or> reactivates_now ops (Hw Background) h \<and> answering h'" if "asked h"
  proof (cases "reactivates_now ops (Hw Background) h")
    case True
    then have "gh_bg h = Bg_reactivate" "gh_bg h' = Bg_clear" using now f(6) by simp_all
    then show ?thesis using that True f(1-4) by (simp add: answering_def asked_def reactivating_def)
  next
    case False
    then have "gh_bg h \<noteq> Bg_clear" "gh_bg h \<noteq> Bg_respond" "gh_bg h' \<noteq> Bg_clear" "gh_bg h' \<noteq> Bg_respond"
      using that f(6,7) by (auto simp: asked_def reactivating_def)
    then show ?thesis using that f(1-5) by (auto simp: asked_def reactivating_def)
  qed
qed

lemma read_keeps_token:
  "quiescent h \<Longrightarrow> quiescent (hw_read h)" "answered h \<Longrightarrow> answered (hw_read h)"
  "answering h \<Longrightarrow> answering (hw_read h) \<or> answered (hw_read h)" "asked h \<Longrightarrow> asked (hw_read h)"
  by (auto simp: hw_read_def token_defs Let_def)

lemma other_keeps_fields:
  assumes "hw_step ops e h = Some h'" "e \<noteq> Background" "e \<noteq> Read_call" "\<forall>v. e \<noteq> Command_reactivate v"
  shows "gh_reactivate_cmd h' = gh_reactivate_cmd h \<and> gh_reactivate_response h' = gh_reactivate_response h \<and>
    gh_reactivate_async_cmd h' = gh_reactivate_async_cmd h \<and> gh_bg h' = gh_bg h \<and>
    gh_reactivate_async_response h' = gh_reactivate_async_response h"
  using assms by (cases e) (auto simp: hw_step_def hw_write_def split: option.splits)

lemma other_keeps_token:
  assumes "hw_step ops e h = Some h'" "e \<noteq> Background" "e \<noteq> Read_call" "\<forall>v. e \<noteq> Command_reactivate v"
  shows "quiescent h' = quiescent h" "answered h' = answered h" "answering h' = answering h" "asked h' = asked h"
    "gh_reactivate_response h' = gh_reactivate_response h"
  using other_keeps_fields [OF assms] by (simp_all add: quiescent_def answered_def answering_def asked_def)

lemma quiescent_response:
  assumes "hw_step ops e h = Some h'" "quiescent h" "\<forall>v. e \<noteq> Command_reactivate v"
  shows "gh_reactivate_response h' = gh_reactivate_response h"
proof (cases "e = Background \<or> e = Read_call")
  case True
  moreover have "h' = hw_read h" if "e = Read_call" using assms(1) that by (simp add: hw_step_def)
  moreover have "gh_reactivate_response (hw_read h) = gh_reactivate_response h"
    using assms(2) by (simp add: hw_read_def quiescent_def Let_def)
  ultimately show ?thesis using assms(1) background_fields(2) [of ops h h'] by auto
next
  case False
  then show ?thesis using other_keeps_token(5) [OF assms(1) _ _ assms(3)] by simp
qed

lemma hw_step_on_its_way:
  assumes "on_its_way r (pc, h)" "hw_step ops e h = Some h'" "\<forall>v. e \<noteq> Command_reactivate v"
  shows "on_its_way (r \<or> reactivates_now ops (Hw e) h) (pc, h')"
proof (cases "e = Background \<or> e = Read_call")
  case True
  moreover have "h' = hw_read h" if "e = Read_call" using assms(2) that by (simp add: hw_step_def)
  ultimately have "quiescent h \<Longrightarrow> quiescent h'" "answered h \<Longrightarrow> answered h'" "answering h \<Longrightarrow> answering h' \<or> answered h'"
    "asked h \<Longrightarrow> asked h' \<or> reactivates_now ops (Hw e) h \<and> answering h'"
    using assms(2) background_keeps_token [of ops h h'] read_keeps_token [of h] by auto
  then show ?thesis using assms(1) quiescent_response [OF assms(2) _ assms(3)] by (cases pc) auto
next
  case False
  then show ?thesis using assms(1) other_keeps_token [OF assms(2) _ _ assms(3)] by (cases pc) auto
qed

lemma service_step_on_its_way: "on_its_way r (pc, h) \<Longrightarrow> on_its_way r (service_step pc h)"
  by (cases pc) (auto simp: service_step_def token_defs deq_def)

lemma run_on_its_way:
  assumes "on_its_way False s" "\<forall>v. Hw (Command_reactivate v) \<notin> set es" "reactivation_run ops es s = Some s'"
  shows "on_its_way (reactivated_in ops es s) s'"
  using assms(2,3)
proof (induction es arbitrary: s' rule: rev_induct)
  case Nil
  then show ?case using assms(1) by (simp add: reactivated_in_def)
next
  case (snoc e es)
  obtain pc h where run: "reactivation_run ops es s = Some (pc, h)" and e: "reactivation_step ops e (pc, h) = Some s'"
    using snoc.prems(2) by (auto simp: run_steps_append split: option.splits)
  have ih: "on_its_way (reactivated_in ops es s) (pc, h)" using snoc.IH [OF _ run] snoc.prems(1) by simp
  have "reactivated_in ops es s \<Longrightarrow> reactivated_in ops (es @ [e]) s" unfolding reactivated_in_def by fastforce
  moreover have "reactivates_now ops e h \<Longrightarrow> reactivated_in ops (es @ [e]) s"
    unfolding reactivated_in_def reactivates_now_def using run by blast
  moreover have mono: "on_its_way r t \<Longrightarrow> (r \<longrightarrow> r') \<Longrightarrow> on_its_way r' t" for r r' and t :: "srv_pc \<times> 'a gripper_hw"
    by (cases "(r, t)" rule: on_its_way.cases) auto
  moreover have "on_its_way (reactivated_in ops es s \<or> reactivates_now ops e h) s'"
  proof (cases e)
    case Service
    then show ?thesis using e service_step_on_its_way [OF ih] mono by auto
  next
    case (Hw f)
    then show ?thesis using e hw_step_on_its_way [OF ih] snoc.prems(1) by auto
  qed
  ultimately show ?case by blast
qed

text \<open>C36. The service answers only with success, and only after the communication thread has reactivated the
  gripper during the call without an exception; it leaves nothing behind that could answer the next
  call. So as long as every reactivation throws, the caller gets no answer, not even a failure.\<close>

theorem reactivation_answered_only_by_success:
  assumes "quiescent h" "\<forall>v. Hw (Command_reactivate v) \<notin> set es" "reactivation_run ops es (Srv_start, h) = Some (pc, h')"
  shows "(\<forall>b. pc = Srv_answered b \<longrightarrow> b \<and> reactivated_in ops es (Srv_start, h) \<and> quiescent h') \<and>
    (\<not> reactivated_in ops es (Srv_start, h) \<longrightarrow> pc \<in> {Srv_start, Srv_command, Srv_poll})"
proof -
  have "on_its_way (reactivated_in ops es (Srv_start, h)) (pc, h')"
    by (rule run_on_its_way [OF _ assms(2,3)]) (simp add: assms(1))
  then show ?thesis by (cases pc) (auto simp: answered_def)
qed

text \<open>A call in which the control loop reads between the steps of the thread is answered.\<close>

definition reactivation_demo :: "reactivation_event list" where
  "reactivation_demo = [Service, Service, Hw Read_call, Hw Background, Hw Background, Hw Background, Hw Background,
     Hw Background, Hw Read_call, Service]"

definition reactivation_hw :: "any_driver gripper_hw" where
  "reactivation_hw = demo_hw\<lparr>gh_driver := Some (Fake FakeDriver)\<rparr>"

theorem reactivation_answered_only_by_success_witness:
  "\<exists>h'. reactivation_run any_driver_ops reactivation_demo (Srv_start, reactivation_hw) = Some (Srv_answered True, h') \<and> quiescent h'"
proof -
  have q: "quiescent reactivation_hw" by (simp add: reactivation_hw_def demo_hw_def token_defs)
  have c: "\<forall>v. Hw (Command_reactivate v) \<notin> set reactivation_demo" by (simp add: reactivation_demo_def)
  have "\<exists>b h'. reactivation_run any_driver_ops reactivation_demo (Srv_start, reactivation_hw) = Some (Srv_answered b, h')"
    by (simp add: reactivation_demo_def reactivation_hw_def demo_hw_def service_step_def hw_step_def background_step_def
        reactivate_def any_driver_ops_def on_driver_def fake_deactivate_def fake_activate_def hw_read_def Let_def
        ASYNC_WAITING_def deq_def) blast
  then obtain b h' where r: "reactivation_run any_driver_ops reactivation_demo (Srv_start, reactivation_hw) = Some (Srv_answered b, h')"
    by blast
  show ?thesis using reactivation_answered_only_by_success [OF q c r] r by auto
qed

end
