(* ===== verification/Gripper_Lifecycle.thy ===== *)
theory Gripper_Lifecycle
  imports Hardware_Interface
begin

text \<open>
  The hardware interface of the two-finger gripper under the managed lifecycle of ROS 2: which callback
  the framework calls in which primary state, and where the result leads. The framework is not code of
  the repository; what is used of it is its documentation: a callback is called only in the state it
  starts from, a success leads to the target state, an error to \<^verbatim>\<open>Unconfigured\<close> or \<^verbatim>\<open>Finalized\<close>, and
  cleaning up and shutting down, which the class does not override, succeed without touching it. The
  communication thread, the control loop and the controllers run beside it wherever they can.
\<close>

section \<open>The object before its initialisation\<close>

text \<open>The constructor: the members with an initialiser; the atomics without one keep the bytes of the
  storage, \<open>raw\<close>. There is no thread.\<close>

definition RobotiqGripperHardwareInterface :: "'d gripper_hw \<Rightarrow> 'd gripper_hw" where
  "RobotiqGripperHardwareInterface raw =
     raw\<lparr>gh_parameters := Map.empty, gh_joint := '''', gh_driver := None, gh_thread_joinable := False, gh_bg := Bg_ended,
       gh_closed_pos := Fin 0, gh_max_speed := Fin 0, gh_max_force := Fin 0, gh_position := Fin 0, gh_velocity := Fin 0,
       gh_position_command := Fin 0, gh_reactivate_cmd := Fin 0, gh_reactivate_response := Fin 0, gh_force := Fin 0,
       gh_speed := Fin 0\<rparr>"

section \<open>The lifecycle\<close>

datatype phase = Unconfigured | Inactive | Active | Finalized

fun leads_to :: "hw_result \<Rightarrow> phase \<Rightarrow> phase \<Rightarrow> bool" where
  "leads_to SUCCESS target p \<longleftrightarrow> p = target"
| "leads_to ERROR target p \<longleftrightarrow> p = Unconfigured \<or> p = Finalized"

inductive lifecycle :: "'d driver_ops \<Rightarrow> phase \<times> 'd gripper_hw \<Rightarrow> phase \<times> 'd gripper_hw \<Rightarrow> bool" for ops where
  export: "hw_export_command_interfaces h = Inr (interfaces, h') \<Longrightarrow> lifecycle ops (p, h) (p, h')"
| configure: "hw_on_configure ops base_ok h = Inr (r, h') \<Longrightarrow> leads_to r Inactive p' \<Longrightarrow>
    lifecycle ops (Unconfigured, h) (p', h')"
| activate: "hw_on_activate ops h = Some (Inr (r, h')) \<Longrightarrow> leads_to r Active p' \<Longrightarrow> lifecycle ops (Inactive, h) (p', h')"
| deactivate: "hw_on_deactivate ops h = Some (Inr (r, h')) \<Longrightarrow> leads_to r Inactive p' \<Longrightarrow> lifecycle ops (Active, h) (p', h')"
| cleanup: "lifecycle ops (Inactive, h) (Unconfigured, h)"
| shutdown: "p \<noteq> Finalized \<Longrightarrow> lifecycle ops (p, h) (Finalized, h)"
| control: "p = Inactive \<or> p = Active \<Longrightarrow> e \<noteq> Background \<Longrightarrow> hw_step ops e h = Some h' \<Longrightarrow> lifecycle ops (p, h) (p, h')"
| thread: "gh_thread_joinable h \<Longrightarrow> hw_step ops Background h = Some h' \<Longrightarrow> lifecycle ops (p, h) (p, h')"

inductive_cases lifecycleE: "lifecycle ops (p, h) (p', h')"

text \<open>What the framework can reach from an object whose \<^verbatim>\<open>on_init\<close> succeeded.\<close>

inductive managed :: "'d driver_ops \<Rightarrow> 'd gripper_hw \<Rightarrow> phase \<Rightarrow> 'd gripper_hw \<Rightarrow> bool" for ops raw where
  initialised: "hw_on_init base_ok ps joints create (RobotiqGripperHardwareInterface raw) = Some (Inr (SUCCESS, h)) \<Longrightarrow>
    managed ops raw Unconfigured h"
| transition: "managed ops raw p h \<Longrightarrow> lifecycle ops (p, h) (p', h') \<Longrightarrow> managed ops raw p' h'"

section \<open>The thread and the state\<close>

text \<open>There is a driver; a thread exists in \<^verbatim>\<open>Active\<close>, and elsewhere only after a shutdown; a thread that
  exists runs, and one that does not has ended.\<close>

fun thread_inv :: "phase \<times> 'd gripper_hw \<Rightarrow> bool" where
  "thread_inv (p, h) \<longleftrightarrow> gh_driver h \<noteq> None \<and> (p = Active \<longrightarrow> gh_thread_joinable h) \<and>
     (if gh_thread_joinable h then (p = Active \<or> p = Finalized) \<and> gh_thread_running h \<and> gh_bg h \<noteq> Bg_ended
      else gh_bg h = Bg_ended)"

lemma hw_step_thread:
  assumes "hw_step ops e h = Some h'" "gh_driver h \<noteq> None"
  shows "gh_driver h' \<noteq> None" "gh_thread_joinable h' = gh_thread_joinable h" "gh_thread_running h' = gh_thread_running h"
    "e \<noteq> Background \<Longrightarrow> gh_bg h' = gh_bg h \<and> gh_driver h' = gh_driver h"
    "gh_thread_running h \<Longrightarrow> gh_bg h' = Bg_ended \<longleftrightarrow> gh_bg h = Bg_ended"
proof -
  have rd: "gh_driver (hw_read h) = gh_driver h \<and> gh_thread_joinable (hw_read h) = gh_thread_joinable h \<and>
      gh_thread_running (hw_read h) = gh_thread_running h \<and> gh_bg (hw_read h) = gh_bg h"
    by (auto simp: hw_read_def Let_def split: option.split if_split)
  have other: "gh_driver h' = gh_driver h \<and> gh_thread_joinable h' = gh_thread_joinable h \<and>
      gh_thread_running h' = gh_thread_running h \<and> gh_bg h' = gh_bg h" if "e \<noteq> Background"
    using that assms(1) rd by (cases e) (auto simp: hw_step_def hw_write_def split: option.splits)
  have bg: "gh_driver h' \<noteq> None \<and> gh_thread_joinable h' = gh_thread_joinable h \<and>
      gh_thread_running h' = gh_thread_running h \<and> (gh_thread_running h \<longrightarrow> (gh_bg h' = Bg_ended \<longleftrightarrow> gh_bg h = Bg_ended))"
    if e: "e = Background"
  proof -
    obtain d where "gh_driver h = Some d" "background_step ops d h = Some h'"
      using assms(1) e by (auto simp: hw_step_def split: option.splits)
    note step = this [unfolded background_step_def]
    show ?thesis using step by (cases "gh_bg h"; clarsimp split: option.splits prod.splits sum.splits if_splits)
  qed
  show "gh_driver h' \<noteq> None" "gh_thread_joinable h' = gh_thread_joinable h" "gh_thread_running h' = gh_thread_running h"
    "e \<noteq> Background \<Longrightarrow> gh_bg h' = gh_bg h \<and> gh_driver h' = gh_driver h"
    "gh_thread_running h \<Longrightarrow> gh_bg h' = Bg_ended \<longleftrightarrow> gh_bg h = Bg_ended"
    using other bg assms(2) by (cases "e = Background"; simp)+
qed

lemma activated_thread:
  assumes "hw_on_activate ops h = Some (Inr (r, h'))" "\<not> gh_thread_joinable h" "gh_bg h = Bg_ended"
  shows "gh_driver h' \<noteq> None" "r = SUCCESS \<Longrightarrow> gh_thread_joinable h' \<and> gh_thread_running h' \<and> gh_bg h' = Bg_check"
    "r = ERROR \<Longrightarrow> \<not> gh_thread_joinable h' \<and> gh_bg h' = Bg_ended"
  using assms by (auto simp: hw_on_activate_def Let_def split: option.splits prod.splits bool.splits if_splits)

lemma deactivated_thread:
  assumes "hw_on_deactivate ops h = Some (Inr (r, h'))"
  shows "gh_driver h' \<noteq> None" "\<not> gh_thread_joinable h'" "gh_bg h' = Bg_ended"
proof -
  obtain h1 where "join_thread ops h = Some h1" "gh_driver h \<noteq> None" "\<exists>d. h' = h1\<lparr>gh_driver := Some d\<rparr>"
    using assms by (auto simp: hw_on_deactivate_def split: option.splits prod.splits sum.splits if_splits)
  then show "gh_driver h' \<noteq> None" "\<not> gh_thread_joinable h'" "gh_bg h' = Bg_ended"
    using join_ends [of ops h h1] by auto
qed

lemma lifecycle_thread_inv:
  assumes "lifecycle ops s s'" "thread_inv s" shows "thread_inv s'"
  using assms
proof (induction rule: lifecycle.induct)
  case (export h interfaces h' p)
  then show ?case by (auto simp: hw_export_command_interfaces_def split: sum.splits)
next
  case (configure base_ok h r h' p')
  have "leads_to r Inactive p' \<Longrightarrow> p' \<noteq> Active" by (cases r) auto
  then show ?case using configure by (auto simp: hw_on_configure_def split: if_splits option.splits prod.splits sum.splits)
next
  case (activate h r h' p')
  have none: "\<not> gh_thread_joinable h" "gh_bg h = Bg_ended" using activate.prems by (auto split: if_splits)
  show ?case using activated_thread [OF activate.hyps(1) none] activate.hyps(2) by (cases r) auto
next
  case (deactivate h r h' p')
  have "leads_to r Inactive p' \<Longrightarrow> p' \<noteq> Active" by (cases r) auto
  then show ?case using deactivated_thread [OF deactivate.hyps(1)] deactivate.hyps(2) by simp
next
  case (control p e h h')
  then show ?case using hw_step_thread [OF control.hyps(3)] by simp
next
  case (thread h h' p)
  then show ?case using hw_step_thread [OF thread.hyps(2)] by simp
qed auto

lemma managed_thread_inv: "managed ops raw p h \<Longrightarrow> thread_inv (p, h)"
proof (induction rule: managed.induct)
  case (initialised base_ok ps joints create h)
  then show ?case
    by (auto simp: hw_on_init_def RobotiqGripperHardwareInterface_def Let_def split: if_splits sum.splits option.splits)
next
  case (transition p h p' h')
  then show ?case using lifecycle_thread_inv by blast
qed

text \<open>C31. Under the managed lifecycle the callbacks are safe: the communication thread exists exactly in
  \<^verbatim>\<open>Active\<close>, except that a shutdown leaves it running; where there is none, its last cycle is over.
  So configuring always finds a driver, activating never replaces a running thread, which would abort
  the process, and deactivating never joins a thread that does not exist, which would throw. Outside
  the lifecycle it would: without a thread, deactivating throws.\<close>

theorem managed_callbacks_are_safe:
  assumes "managed ops raw p h"
  shows "(gh_thread_joinable h \<longrightarrow> p = Active \<or> p = Finalized) \<and> (p = Active \<longrightarrow> gh_thread_joinable h) \<and>
    (\<not> gh_thread_joinable h \<longrightarrow> gh_bg h = Bg_ended \<and> hw_step ops Background h = Some h) \<and>
    (\<forall>f. hw_on_configure ops base_ok h \<noteq> Inl f \<and>
      (p = Inactive \<longrightarrow> hw_on_activate ops h \<noteq> Some (Inl f)) \<and>
      (p = Active \<longrightarrow> hw_on_deactivate ops h \<noteq> Some (Inl f))) \<and>
    (\<not> gh_thread_joinable h \<longrightarrow> hw_on_deactivate ops h = Some (Inl System_error))"
proof -
  have inv: "thread_inv (p, h)" by (rule managed_thread_inv [OF assms])
  then obtain d where d: "gh_driver h = Some d" by auto
  have "hw_step ops Background h = Some h" if "\<not> gh_thread_joinable h"
    using inv that d by (simp add: hw_step_def background_step_def)
  moreover have "hw_on_configure ops base_ok h \<noteq> Inl f" for f
    using d by (auto simp: hw_on_configure_def split: prod.splits sum.splits)
  moreover have "hw_on_activate ops h \<noteq> Some (Inl f)" if "p = Inactive" for f
    using inv that d by (auto simp: hw_on_activate_def Let_def split: option.splits prod.splits bool.splits if_splits)
  moreover have "hw_on_deactivate ops h \<noteq> Some (Inl f)" if "p = Active" for f
    using inv that d by (auto simp: hw_on_deactivate_def split: option.splits prod.splits sum.splits)
  moreover have "\<not> gh_thread_joinable h \<Longrightarrow> hw_on_deactivate ops h = Some (Inl System_error)"
    by (simp add: hw_on_deactivate_def)
  ultimately show ?thesis using inv by (auto split: if_splits)
qed

section \<open>The link to the gripper\<close>

text \<open>Whether the driver of the object satisfies a predicate.\<close>

definition driver_is :: "('d \<Rightarrow> bool) \<Rightarrow> 'd gripper_hw \<Rightarrow> bool" where
  "driver_is P h \<longleftrightarrow> (\<exists>d. gh_driver h = Some d \<and> P d)"

context driver_link
begin

lemma reactivate_linked: "reactivate ops d = Some (ok, d') \<Longrightarrow> linked d \<Longrightarrow> linked d'"
  by (auto simp: reactivate_def split: prod.splits sum.splits option.splits intro: activate_stays deactivate_stays)

lemma background_linked:
  assumes "background_step ops d h = Some h'" "gh_driver h = Some d" "linked d"
  shows "driver_is linked h'"
  using assms
  by (cases "gh_bg h")
    (auto simp: background_step_def driver_is_def set_speed_stays set_force_stays split: option.splits prod.splits sum.splits
      dest: reactivate_linked set_position_stays get_position_stays)

lemma hw_step_linked:
  assumes "hw_step ops e h = Some h'" "driver_is linked h" shows "driver_is linked h'"
proof (cases "e = Background")
  case True
  then show ?thesis using assms background_linked by (auto simp: hw_step_def driver_is_def)
next
  case False
  then show ?thesis using assms hw_step_thread(4) [OF assms(1)] by (auto simp: driver_is_def)
qed

lemma deactivate_linked:
  assumes "hw_on_deactivate ops h = Some (Inr (r, h'))" "driver_is linked h" shows "driver_is linked h'"
proof -
  obtain h1 where "join_thread ops h = Some h1" and h': "\<exists>q d1. op_deactivate ops (the (gh_driver h1)) = (q, d1) \<and> h' = h1\<lparr>gh_driver := Some d1\<rparr>"
    using assms(1) by (auto simp: hw_on_deactivate_def split: option.splits prod.splits sum.splits if_splits)
  then obtain h2 where "hw_run ops (replicate 9 Background) (h\<lparr>gh_thread_running := False\<rparr>) = Some h2"
    "h1 = h2\<lparr>gh_thread_joinable := False\<rparr>" by (auto simp: join_thread_def)
  moreover from this(1) have "driver_is linked h2"
    by (rule run_steps_invariant) (use assms(2) hw_step_linked in \<open>auto simp: driver_is_def\<close>)
  ultimately show ?thesis using h' deactivate_stays by (auto simp: driver_is_def)
qed

lemma lifecycle_linked:
  assumes "lifecycle ops s s'" "driver_is linked (snd s)" shows "driver_is linked (snd s')"
  using assms
proof (induction rule: lifecycle.induct)
  case (configure base_ok h r h' p')
  then show ?case
    by (auto simp: hw_on_configure_def driver_is_def split: if_splits prod.splits sum.splits intro: connect_stays)
next
  case (activate h r h' p')
  then show ?case
    by (auto simp: hw_on_activate_def Let_def driver_is_def split: option.splits prod.splits bool.splits if_splits
        intro: reactivate_linked)
next
  case (deactivate h r h' p')
  then show ?case using deactivate_linked by simp
next
  case (export h interfaces h' p)
  then show ?case by (auto simp: hw_export_command_interfaces_def driver_is_def split: sum.splits)
qed (auto intro: hw_step_linked)

lemma lifecycle_links:
  assumes "lifecycle ops (p, h) (p', h')" "p = Inactive \<or> p = Active \<Longrightarrow> driver_is linked h" "p' = Inactive \<or> p' = Active"
  shows "driver_is linked h'"
proof (cases "driver_is linked h")
  case True
  then show ?thesis using lifecycle_linked [OF assms(1)] by simp
next
  case False
  then have p: "p \<noteq> Inactive" "p \<noteq> Active" using assms(2) by blast+
  from assms(1) show ?thesis
  proof (cases rule: lifecycle.cases)
    case (configure base_ok r)
    then have "r = SUCCESS" using assms(3) by (cases r) auto
    then show ?thesis using configure
      by (auto simp: hw_on_configure_def driver_is_def split: if_splits option.splits prod.splits sum.splits intro: connect_links)
  qed (use p assms(3) False in auto)
qed

lemma managed_linked: "managed ops raw p h \<Longrightarrow> p = Inactive \<or> p = Active \<Longrightarrow> driver_is linked h"
proof (induction rule: managed.induct)
  case (transition p h p' h')
  then show ?case using lifecycle_links by blast
qed auto

end

text \<open>C32. In \<^verbatim>\<open>Inactive\<close> and \<^verbatim>\<open>Active\<close> the port is open (the fake driver connected), so the gripper is only
  activated and commanded over a link that was established. But the link is never given up: no
  transition closes it, not cleaning up and not an error either, so that configuring again opens a
  port that is open already.\<close>

theorem link_is_open_and_stays_open:
  assumes "managed any_driver_ops raw p h"
  shows "(p = Inactive \<or> p = Active \<longrightarrow> driver_is any_linked h) \<and>
    (\<forall>p' h'. lifecycle any_driver_ops (p, h) (p', h') \<and> driver_is any_linked h \<longrightarrow> driver_is any_linked h')"
  using any_link.managed_linked [OF assms] any_link.lifecycle_linked by fastforce

section \<open>A concrete run\<close>

text \<open>A description with one joint and the fake driver: initialised, configured, activated.\<close>

definition demo_description :: parameters where
  "demo_description = [''gripper_closed_position'' \<mapsto> ''1'', ''use_dummy'' \<mapsto> ''true'']"

definition demo_joint :: joint_info where
  "demo_joint = \<lparr>ji_name = ''knuckle'', ji_command_interfaces = [''position''],
     ji_state_interfaces = [''position'', ''velocity'']\<rparr>"

abbreviation "demo_create \<equiv> \<lambda>ps. DefaultDriverFactory_create ps demo_port demo_driver"

lemma demo_closed_position: "stod ''1'' = Inr (Fin 1)"
proof -
  have "mk 1 = Fin 1" using mk_double [OF is_double_of_int [of 1]] by simp
  moreover have "\<not> (1 :: rat) < 2 powi (- 1022)" by (simp add: power_int_minus field_simps)
  ultimately show ?thesis
    by (simp add: stod_def real_of_def digits_def digit_value_def value_of_def exponent_of_def sign_of_def code_def lower_def
        is_space_def Let_def finite_stod_def)
qed

lemma demo_created: "\<exists>k. demo_create demo_description = Some (Inr (Fake k))"
proof -
  have "dmul (Fin 1) (Fin 255) = Fin 255" using mk_double [OF is_double_of_int [of 255]] by simp
  then show ?thesis
    by (simp add: DefaultDriverFactory_create_def create_driver_def parameter_or_def demo_description_def double_to_u8_def
        rat_trunc_def any_driver_ops_def update_driver_def)
qed

lemma demo_managed: "\<exists>h. managed any_driver_ops raw Active h"
proof -
  obtain k where k: "demo_create demo_description = Some (Inr (Fake k))" using demo_created by blast
  have "\<exists>h. hw_on_init True demo_description [demo_joint] demo_create (RobotiqGripperHardwareInterface raw) =
      Some (Inr (SUCCESS, h)) \<and> gh_driver h = Some (Fake k) \<and> \<not> gh_thread_joinable h"
    by (simp add: hw_on_init_def parameter_def parameter_or_def demo_description_def demo_closed_position joint_ok_def
        demo_joint_def RobotiqGripperHardwareInterface_def numeral_2_eq_2 k [unfolded demo_description_def])
  then obtain h where h: "managed any_driver_ops raw Unconfigured h" "gh_driver h = Some (Fake k)" "\<not> gh_thread_joinable h"
    using managed.initialised by blast
  have "\<exists>h1 k1. hw_on_configure any_driver_ops True h = Inr (SUCCESS, h1) \<and> gh_driver h1 = Some (Fake k1) \<and> \<not> gh_thread_joinable h1"
    using h(2,3) by (simp add: hw_on_configure_def any_driver_ops_def on_driver_def fake_connect_def)
  then obtain h1 k1 where h1: "managed any_driver_ops raw Inactive h1" "gh_driver h1 = Some (Fake k1)" "\<not> gh_thread_joinable h1"
    using managed.transition [OF h(1) lifecycle.configure, of True SUCCESS] by auto
  have "\<exists>h2. hw_on_activate any_driver_ops h1 = Some (Inr (SUCCESS, h2))"
    using h1(2,3) by (simp add: hw_on_activate_def Let_def reactivate_def any_driver_ops_def on_driver_def
        fake_deactivate_def fake_activate_def)
  then show ?thesis using managed.transition [OF h1(1) lifecycle.activate, of SUCCESS] by auto
qed

text \<open>A shutdown of the active component leaves the thread running, and it goes on commanding the gripper.\<close>

lemma shutdown_leaves_thread:
  "\<exists>h. managed any_driver_ops raw Finalized h \<and> gh_thread_joinable h \<and> gh_thread_running h"
proof -
  obtain h where h: "managed any_driver_ops raw Active h" using demo_managed by blast
  then have "managed any_driver_ops raw Finalized h" using managed.transition lifecycle.shutdown by blast
  then show ?thesis using managed_thread_inv [OF h] by auto
qed

theorem managed_callbacks_are_safe_witness:
  "\<exists>h. managed any_driver_ops demo_hw Active h \<and> (\<forall>f. hw_on_deactivate any_driver_ops h \<noteq> Some (Inl f))"
  using demo_managed managed_callbacks_are_safe by blast

theorem link_is_open_and_stays_open_witness:
  "\<exists>h. managed any_driver_ops demo_hw Active h \<and> driver_is any_linked h"
  using demo_managed link_is_open_and_stays_open by blast

end
