(* ===== verification/Gripper_Position.thy ===== *)
theory Gripper_Position
  imports Hardware_Interface Fp_Error
begin

text \<open>
  The two conversions between a position in the unit of the joint and the byte of the two-finger gripper,
  one after the other: a controller that holds the position it reads commands what \<^verbatim>\<open>read\<close> stored, and
  \<^verbatim>\<open>write\<close> converts it back. \<^verbatim>\<open>write\<close> truncates, so that an error of rounding can cost a whole step.
\<close>

section \<open>Back to a byte\<close>

lemma gripper_constants: "of_integer kGripperRange = Fin 227" "of_integer kGripperMinPos = Fin 3"
  using of_integer_exact [of 227] of_integer_exact [of 3]
  by (simp_all add: kGripperRange_def kGripperMinPos_def kGripperMaxPos_def)

text \<open>The results of the five operations, on the way from the byte \<open>m + 3\<close> and back.\<close>

definition there_and_back :: "rat \<Rightarrow> rat \<Rightarrow> rat" where
  "there_and_back c m = rnd (rnd (rnd (rnd (rnd (c * m) / 227) / c) * 227) + 3)"

lemma there_and_back_close:
  assumes c: "1 / 2 ^ 1000 \<le> c" "c \<le> 2 ^ 1000" and m: "\<bar>m\<bar> \<le> 252"
  defines "x \<equiv> rnd (rnd (c * m) / 227)"
  shows "\<bar>there_and_back c m - (m + 3)\<bar> \<le> 1 / 2 ^ 38" "mk (c * m) = Fin (rnd (c * m))" "mk (rnd (c * m) / 227) = Fin x"
    "mk (x / c) = Fin (rnd (x / c))" "mk (rnd (x / c) * 227) = Fin (rnd (rnd (x / c) * 227))"
    "mk (rnd (rnd (x / c) * 227) + 3) = Fin (there_and_back c m)"
proof -
  have c0: "0 < c" using c(1) by (rule less_le_trans [rotated]) simp
  have t: "tiny \<le> c / 2 ^ 60" "tiny \<le> 1 / 2 ^ 60"
  proof -
    have "tiny \<le> 1 / 2 ^ 1000 / 2 ^ 60" by (simp add: tiny_def)
    also have "\<dots> \<le> c / 2 ^ 60" using c(1) by (intro divide_right_mono) simp_all
    finally show "tiny \<le> c / 2 ^ 60" .
    show "tiny \<le> 1 / 2 ^ 60" by (simp add: tiny_def)
  qed
  have cm: "\<bar>c * m\<bar> \<le> 252 * c" using m c0 by (simp add: abs_mult mult.commute)
  have 1: "\<bar>rnd (c * m) - c * m\<bar> \<le> 0 + c * 256 / 2 ^ 51"
    by (rule rnd_close) (use cm c0 t(1) in auto)
  have "\<bar>rnd (c * m) / 227 - c * m / 227\<bar> \<le> c / 2 ^ 50"
    using close_scaled(2) [OF 1, of 227] c0 by simp
  then have 2: "\<bar>x - c * m / 227\<bar> \<le> c / 2 ^ 50 + c * 2 / 2 ^ 51"
    unfolding x_def by (rule rnd_close) (use cm c0 t(1) in \<open>auto simp: abs_mult\<close>)
  have "\<bar>x / c - m / 227\<bar> \<le> (c / 2 ^ 50 + c * 2 / 2 ^ 51) / c"
    using close_scaled(2) [OF 2 c0] c0 by simp
  also have "\<dots> = 1 / 2 ^ 49" using c0 by (simp add: field_simps)
  finally have x: "\<bar>x / c - m / 227\<bar> \<le> 1 / 2 ^ 49" .
  have 3: "\<bar>rnd (x / c) - m / 227\<bar> \<le> 1 / 2 ^ 49 + 2 / 2 ^ 51"
    by (rule rnd_close) (use x m t(2) in auto)
  have "\<bar>rnd (x / c) * 227 - m\<bar> \<le> 1 / 2 ^ 40" using close_scaled(1) [OF 3, of 227] by simp
  then have 4: "\<bar>rnd (rnd (x / c) * 227) - m\<bar> \<le> 1 / 2 ^ 40 + 256 / 2 ^ 51"
    by (rule rnd_close) (use m t(2) in auto)
  have 5: "\<bar>there_and_back c m - (m + 3)\<bar> \<le> 1 / 2 ^ 39 + 256 / 2 ^ 51"
    unfolding there_and_back_def x_def [symmetric] by (rule rnd_close) (use 4 m t(2) in \<open>auto simp: abs_le_iff\<close>)
  then show "\<bar>there_and_back c m - (m + 3)\<bar> \<le> 1 / 2 ^ 38" by simp
  show "mk (c * m) = Fin (rnd (c * m))" "mk (rnd (c * m) / 227) = Fin x"
  proof -
    have "252 * c \<le> 2 ^ 1010" using c(2) by simp
    moreover have "c * 256 / 2 ^ 51 \<le> 2 ^ 1010" using c(2) by simp
    ultimately have "\<bar>c * m\<bar> \<le> 2 ^ 1010" "\<bar>rnd (c * m)\<bar> \<le> 2 ^ 1010 + 2 ^ 1010" using cm 1 by linarith+
    then show "mk (c * m) = Fin (rnd (c * m))" "mk (rnd (c * m) / 227) = Fin x"
      unfolding x_def by (simp_all add: mk_finite)
  qed
  have "\<bar>x / c\<bar> \<le> 4096" "\<bar>rnd (x / c) * 227\<bar> \<le> 4096" "\<bar>rnd (rnd (x / c) * 227) + 3\<bar> \<le> 4096"
    using x 3 4 m unfolding abs_le_iff by (simp_all; linarith)+
  from this [THEN mk_small] show "mk (x / c) = Fin (rnd (x / c))" "mk (rnd (x / c) * 227) = Fin (rnd (rnd (x / c) * 227))"
    "mk (rnd (rnd (x / c) * 227) + 3) = Fin (there_and_back c m)"
    unfolding there_and_back_def x_def [symmetric] .
qed

text \<open>A position command whose conversion does not overflow: the last step saturates and truncates.\<close>

lemma position_byte_of_finite:
  assumes "c \<noteq> 0" "mk (x / c) = Fin y" "mk (y * 227) = Fin z" "mk (z + 3) = Fin g"
  shows "position_byte (Fin x) (Fin c) = Some (of_int (max (min \<lfloor>g\<rfloor> 255) 0))"
proof -
  have "position_byte (Fin x) (Fin c) = double_to_u8 (Fin (max (min g 255) 0))"
    using assms by (auto simp: position_byte_def gripper_constants dmin_def dmax_def Let_def max_def min_def)
  also have "\<dots> = Some (of_int \<lfloor>max (min g 255) 0\<rfloor>)" by (rule double_to_u8_in) simp_all
  also have "\<lfloor>max (min g 255) 0\<rfloor> = max (min \<lfloor>g\<rfloor> 255) 0"
    by (auto simp: max_def min_def not_le le_floor_iff floor_less_iff floor_le_iff less_floor_iff intro!: floor_unique)
  finally show ?thesis .
qed

definition position_read :: "rat \<Rightarrow> u8 \<Rightarrow> rat" where
  "position_read c b = rnd (rnd (c * of_int (uint b - 3)) / 227)"

lemma hw_read_position:
  assumes "gh_closed_pos h = Fin c" "1 / 2 ^ 1000 \<le> c" "c \<le> 2 ^ 1000"
  shows "gh_position (hw_read h) = Fin (position_read c (gh_current_state h))"
proof -
  let ?m = "of_int (uint (gh_current_state h) - 3) :: rat"
  have b: "0 \<le> uint (gh_current_state h)" "uint (gh_current_state h) \<le> 255" using uint_lt2p [of "gh_current_state h"] by simp_all
  then have "\<bar>uint (gh_current_state h) - 3\<bar> \<le> 252" by arith
  then have m: "\<bar>?m\<bar> \<le> 252" by linarith
  have i: "of_integer (uint (gh_current_state h) - kGripperMinPos) = Fin ?m"
    using \<open>\<bar>uint (gh_current_state h) - 3\<bar> \<le> 252\<close> unfolding kGripperMinPos_def by (intro of_integer_exact) simp
  have "gh_position (hw_read h) = ddiv (dmul (Fin c) (Fin ?m)) (Fin 227)"
    unfolding hw_read_def i gripper_constants assms(1) by (simp add: Let_def split: option.splits)
  then show ?thesis using there_and_back_close(2,3) [OF assms(2,3) m] by (simp add: position_read_def)
qed

lemma position_byte_of_read:
  assumes "1 / 2 ^ 1000 \<le> c" "c \<le> 2 ^ 1000"
  defines "g \<equiv> \<lambda>b :: u8. there_and_back c (of_int (uint b - 3))"
  shows "position_byte (Fin (position_read c b)) (Fin c) = Some (of_int (max (min \<lfloor>g b\<rfloor> 255) 0))"
    "\<lfloor>g b\<rfloor> \<in> {uint b - 1, uint b}" "uint b = 3 \<Longrightarrow> \<lfloor>g b\<rfloor> = 3"
proof -
  let ?m = "of_int (uint b - 3) :: rat"
  have b: "0 \<le> uint b" "uint b \<le> 255" using uint_lt2p [of b] by simp_all
  then have "\<bar>uint b - 3\<bar> \<le> 252" by arith
  then have m: "\<bar>?m\<bar> \<le> 252" by linarith
  note t = there_and_back_close [OF assms(1,2) m]
  have "0 < c" using assms(1) by (rule less_le_trans [rotated]) simp
  then show "position_byte (Fin (position_read c b)) (Fin c) = Some (of_int (max (min \<lfloor>g b\<rfloor> 255) 0))"
    using position_byte_of_finite [OF _ t(4-6)] by (simp add: position_read_def g_def)
  have "\<bar>g b - of_int (uint b)\<bar> < 1" using t(1) unfolding g_def by simp
  then have "\<lfloor>g b\<rfloor> = uint b - 1 \<or> \<lfloor>g b\<rfloor> = uint b" by linarith
  then show "\<lfloor>g b\<rfloor> \<in> {uint b - 1, uint b}" by simp
  show "\<lfloor>g b\<rfloor> = 3" if "uint b = 3"
    unfolding g_def that using rnd_representable [OF representable_of_int [of 3]] by (simp add: there_and_back_def)
qed

section \<open>A step lost\<close>

text \<open>The closed position of the 85 mm gripper as the descriptions give it, 0.7929.\<close>

definition closed_2f_85 :: rat where "closed_2f_85 = rnd (7929 / 10000)"

lemma closed_2f_85: "closed_2f_85 = 7141808289084133 / 2 ^ 53"
  unfolding closed_2f_85_def by (subst rnd_digits [where k = 53 and n = 7141808289084133]) simp_all

lemma there_and_back_loses: "\<lfloor>there_and_back closed_2f_85 119\<rfloor> = 121"
proof -
  have "rnd (closed_2f_85 * 119) = 6639649893757905 / 2 ^ 46"
    unfolding closed_2f_85 by (subst rnd_digits [where k = 46 and n = 6639649893757905]) simp_all
  moreover have "rnd (6639649893757905 / 2 ^ 46 / 227) = 7487887104854730 / 2 ^ 54"
    by (subst rnd_digits [where k = 54 and n = 7487887104854730]) simp_all
  moreover have "rnd (7487887104854730 / 2 ^ 54 / closed_2f_85) = 4721835732661577 / 2 ^ 53"
    unfolding closed_2f_85 by (subst rnd_digits [where k = 53 and n = 4721835732661577]) simp_all
  moreover have "rnd (4721835732661577 / 2 ^ 53 * 227) = 8373880557142015 / 2 ^ 46"
    by (subst rnd_digits [where k = 46 and n = 8373880557142015]) simp_all
  moreover have "rnd (8373880557142015 / 2 ^ 46 + 3) = 8584986789675007 / 2 ^ 46"
    by (subst rnd_digits [where k = 46 and n = 8584986789675007]) simp_all
  ultimately have "there_and_back closed_2f_85 119 = 8584986789675007 / 2 ^ 46"
    by (simp only: there_and_back_def)
  then show ?thesis by (simp add: floor_eq_iff)
qed

section \<open>Holding the position\<close>

text \<open>C35. A controller that holds the position it reads is never sent away from it by more than one step: for
  every closed position between \<open>2 ^ -1000\<close> and \<open>2 ^ 1000\<close> and every byte the gripper reports, a
  \<^verbatim>\<open>read\<close>, the command of the position it stored, and a \<^verbatim>\<open>write\<close> request the reported byte or the byte
  below it, and exactly the reported one for an open gripper. The byte below really occurs: with the closed
  position 0.7929 of the descriptions, holding position 122 requests 121.\<close>

theorem held_position_loses_at_most_one_step:
  assumes "gh_closed_pos h = Fin c" "1 / 2 ^ 1000 \<le> c" "c \<le> 2 ^ 1000"
    and "gh_speed h = Fin v" "gh_max_speed h = Fin mv" "0 < mv" "gh_force h = Fin f" "gh_max_force h = Fin mf" "0 < mf"
  defines "b \<equiv> uint (gh_current_state h)"
  shows "\<exists>h'. hw_run ops [Read_call, Command_position (gh_position (hw_read h)), Write_call] h = Some h' \<and>
    uint (gh_write_command h') \<in> {b - 1, b} \<and> (b = 3 \<longrightarrow> uint (gh_write_command h') = 3) \<and>
    (c = closed_2f_85 \<and> b = 122 \<longrightarrow> uint (gh_write_command h') = 121)"
proof -
  let ?s = "gh_current_state h" and ?g = "\<lfloor>there_and_back c (of_int (b - 3))\<rfloor>"
  define p :: u8 where "p = of_int (max (min ?g 255) 0)"
  have pb: "position_byte (Fin (position_read c ?s)) (Fin c) = Some p" and g: "?g \<in> {b - 1, b}" "b = 3 \<longrightarrow> ?g = 3"
    using position_byte_of_read [OF assms(2,3), of ?s] by (auto simp: p_def b_def)
  have b: "0 \<le> b" "b \<le> 255" using uint_lt2p [of ?s] by (simp_all add: b_def)
  have p: "uint p = max (min ?g 255) 0" unfolding p_def by (simp add: uint_word_of_int)
  obtain s t where st: "multiplier_byte (Fin v) (Fin mv) = Some s" "multiplier_byte (Fin f) (Fin mf) = Some t"
    using multiplier_byte_eq [OF assms(6)] multiplier_byte_eq [OF assms(9)] by blast
  have kept: "gh_closed_pos (hw_read h) = Fin c" "gh_speed (hw_read h) = Fin v" "gh_max_speed (hw_read h) = Fin mv"
    "gh_force (hw_read h) = Fin f" "gh_max_force (hw_read h) = Fin mf"
    using assms(1,4,5,7,8) by (simp_all add: hw_read_def Let_def split: option.splits)
  have "\<exists>h'. hw_run ops [Read_call, Command_position (gh_position (hw_read h)), Write_call] h = Some h' \<and> gh_write_command h' = p"
    by (simp add: hw_step_def hw_write_def kept hw_read_position [OF assms(1-3)] pb st)
  moreover have "?g = 121" if "c = closed_2f_85" "b = 122" using there_and_back_loses unfolding that by simp
  ultimately show ?thesis using p g b by auto
qed

theorem held_position_loses_at_most_one_step_witness:
  "\<exists>h'. hw_run any_driver_ops [Read_call, Command_position (gh_position (hw_read (demo_hw\<lparr>gh_closed_pos := Fin closed_2f_85,
      gh_current_state := 122\<rparr>))), Write_call] (demo_hw\<lparr>gh_closed_pos := Fin closed_2f_85, gh_current_state := 122\<rparr>) = Some h' \<and>
    uint (gh_write_command h') = 121"
proof -
  let ?h = "demo_hw\<lparr>gh_closed_pos := Fin closed_2f_85, gh_current_state := 122\<rparr>"
  have "1 / 2 ^ 1000 \<le> closed_2f_85" "closed_2f_85 \<le> 2 ^ 1000" by (simp_all add: closed_2f_85)
  then show ?thesis
    using held_position_loses_at_most_one_step [of ?h closed_2f_85 2 1 1 1 any_driver_ops] by (auto simp: demo_hw_def)
qed

end
