(* ===== verification/Command_Line.thy ===== *)
theory Command_Line
  imports Main
begin

text \<open>
  \<^verbatim>\<open>CommandLineUtility\<close> of \<^verbatim>\<open>robotiq_hardware_tests/src/command_line_utility.cpp\<close>: the parser of
  the command line of the hardware test. A handler takes a value or none; what parsing does besides its
  result is the sequence of handler calls.
\<close>

datatype parameter_handler = LambdaWithValue | LambdaWithoutValue

type_synonym handler_call = "string \<times> string option"

record command_line =
  cl_handlers :: "string \<rightharpoonup> parameter_handler"
  cl_mandatoryParams :: "string set"
  cl_receivedParams :: "string set"

definition registerHandler :: "string \<Rightarrow> parameter_handler \<Rightarrow> bool \<Rightarrow> command_line \<Rightarrow> command_line" where
  "registerHandler parameter handler isMandatory c =
     (let c1 = c\<lparr>cl_handlers := (cl_handlers c)(parameter \<mapsto> handler)\<rparr> in
      if isMandatory then c1\<lparr>cl_mandatoryParams := insert parameter (cl_mandatoryParams c1)\<rparr> else c1)"

text \<open>The loop over the arguments: whether all were known, the calls, and the parameters received.\<close>

fun parse_arguments ::
  "(string \<rightharpoonup> parameter_handler) \<Rightarrow> string list \<Rightarrow> string set \<Rightarrow> bool \<times> handler_call list \<times> string set" where
  "parse_arguments handlers [] received = (True, [], received)"
| "parse_arguments handlers (a # rest) received =
     (case handlers a of
        None \<Rightarrow> (False, [], received)
      | Some LambdaWithValue \<Rightarrow>
          (case rest of
             [] \<Rightarrow> (True, [], insert a received)
           | v # rest' \<Rightarrow>
               (case parse_arguments handlers rest' (insert a received) of
                  (ok, calls, r) \<Rightarrow> (ok, (a, Some v) # calls, r)))
      | Some LambdaWithoutValue \<Rightarrow>
          (case parse_arguments handlers rest (insert a received) of (ok, calls, r) \<Rightarrow> (ok, (a, None) # calls, r)))"

text \<open>\<open>argv\<close> starts with the name of the program.\<close>

definition parse_command_line :: "string list \<Rightarrow> command_line \<Rightarrow> bool \<times> handler_call list \<times> command_line" where
  "parse_command_line argv c =
     (case parse_arguments (cl_handlers c) (tl argv) (cl_receivedParams c) of
        (ok, calls, r) \<Rightarrow> (ok \<and> cl_mandatoryParams c \<subseteq> r, calls, c\<lparr>cl_receivedParams := r\<rparr>))"

section \<open>What is accepted\<close>

text \<open>The arguments a sequence of calls comes from.\<close>

fun arguments_of :: "handler_call list \<Rightarrow> string list" where
  "arguments_of [] = []"
| "arguments_of ((a, None) # calls) = a # arguments_of calls"
| "arguments_of ((a, Some v) # calls) = a # v # arguments_of calls"

text \<open>Parsing inverts \<open>arguments_of\<close>: accepted arguments are the ones of the calls made, except that a
  parameter without its value may end the line; it counts as received although nothing was called.\<close>

lemma parse_arguments_calls:
  assumes "parse_arguments handlers args received = (True, calls, r)"
  shows "args = arguments_of calls \<and> r = received \<union> fst ` set calls \<or>
    (\<exists>a. args = arguments_of calls @ [a] \<and> handlers a = Some LambdaWithValue \<and> r = insert a (received \<union> fst ` set calls))"
  using assms
proof (induction handlers args received arbitrary: calls r rule: parse_arguments.induct)
  case (2 handlers a rest received)
  show ?case
  proof (cases "handlers a")
    case (Some k)
    show ?thesis
    proof (cases k)
      case LambdaWithoutValue
      then obtain calls' where c: "parse_arguments handlers rest (insert a received) = (True, calls', r)" "calls = (a, None) # calls'"
        using "2.prems" Some by (auto split: prod.splits)
      show ?thesis using "2.IH"(2) [OF Some LambdaWithoutValue c(1)] c(2) by auto
    next
      case LambdaWithValue
      show ?thesis
      proof (cases rest)
        case Nil
        then show ?thesis using "2.prems" Some LambdaWithValue by auto
      next
        case (Cons v rest')
        then obtain calls' where c: "parse_arguments handlers rest' (insert a received) = (True, calls', r)"
          "calls = (a, Some v) # calls'"
          using "2.prems" Some LambdaWithValue by (auto split: prod.splits)
        show ?thesis using "2.IH"(1) [OF Some LambdaWithValue Cons c(1)] c(2) Cons by auto
      qed
    qed
  qed (use "2.prems" in simp)
qed simp

lemma parse_arguments_of:
  assumes "\<forall>(a, v) \<in> set calls. handlers a = Some (case v of None \<Rightarrow> LambdaWithoutValue | Some _ \<Rightarrow> LambdaWithValue)"
  shows "parse_arguments handlers (arguments_of calls) received = (True, calls, received \<union> fst ` set calls)"
  using assms by (induction calls arbitrary: received rule: arguments_of.induct) auto

lemma missing_value_is_accepted:
  "parse_command_line [prog, ''--port''] (registerHandler ''--port'' LambdaWithValue True
     \<lparr>cl_handlers = Map.empty, cl_mandatoryParams = {}, cl_receivedParams = {}\<rparr>) =
   (True, [], \<lparr>cl_handlers = [''--port'' \<mapsto> LambdaWithValue], cl_mandatoryParams = {''--port''}, cl_receivedParams = {''--port''}\<rparr>)"
  by (simp add: parse_command_line_def registerHandler_def)

end
