(* ===== verification/Gripper_Test.thy ===== *)
theory Gripper_Test
  imports Driver_Factory Command_Line
begin

text \<open>
  \<^verbatim>\<open>main\<close> of \<^verbatim>\<open>robotiq_hardware_tests/src/gripper_interface_test.cpp\<close>: the settings from the
  command line, the connection and the fixed sequence of movements. The messages to the console are left
  out. \<open>None\<close> is a run that does not end, as when the gripper reports a movement for ever.
\<close>

datatype test_outcome = Exit int | Terminated conversion_error | Undefined_conversion

record test_settings =
  ts_port :: string
  ts_baudrate :: int
  ts_timeout :: double
  ts_slave_address :: int

definition default_test_settings :: test_settings where
  "default_test_settings = \<lparr>ts_port = ''/dev/ttyUSB0'', ts_baudrate = 115200, ts_timeout = Fin 1, ts_slave_address = 0x09\<rparr>"

definition test_command_line :: command_line where
  "test_command_line =
     registerHandler ''-h'' LambdaWithoutValue False
      (registerHandler ''--slave-address'' LambdaWithValue False
       (registerHandler ''--timeout'' LambdaWithValue False
        (registerHandler ''--baudrate'' LambdaWithValue False
         (registerHandler ''--port'' LambdaWithValue False
           \<lparr>cl_handlers = Map.empty, cl_mandatoryParams = {}, cl_receivedParams = {}\<rparr>))))"

text \<open>One handler: a new setting, or the end of the program (help, or a conversion that throws).\<close>

definition test_handler :: "handler_call \<Rightarrow> test_settings \<Rightarrow> test_outcome + test_settings" where
  "test_handler call s =
     (case snd call of
        None \<Rightarrow> Inl (Exit 0)
      | Some v \<Rightarrow>
          (if fst call = ''--port'' then Inr (s\<lparr>ts_port := v\<rparr>)
           else if fst call = ''--timeout'' then
             (case stod v of Inl e \<Rightarrow> Inl (Terminated e) | Inr x \<Rightarrow> Inr (s\<lparr>ts_timeout := x\<rparr>))
           else
             (case stoi v of
                Inl e \<Rightarrow> Inl (Terminated e)
              | Inr n \<Rightarrow> Inr (if fst call = ''--baudrate'' then s\<lparr>ts_baudrate := n\<rparr> else s\<lparr>ts_slave_address := n\<rparr>))))"

fun test_handlers :: "handler_call list \<Rightarrow> test_settings \<Rightarrow> test_outcome + test_settings" where
  "test_handlers [] s = Inr s"
| "test_handlers (c # cs) s = (case test_handler c s of Inl out \<Rightarrow> Inl out | Inr s1 \<Rightarrow> test_handlers cs s1)"

text \<open>Waiting while the gripper moves.\<close>

partial_function (option) wait_stopped :: "'d driver_ops \<Rightarrow> 'd \<Rightarrow> ((exn + unit) \<times> 'd) option" where
  "wait_stopped ops d =
     (case op_gripper_is_moving ops d of
        (Inl e, d1) \<Rightarrow> Some (Inl e, d1)
      | (Inr moving, d1) \<Rightarrow> if moving then wait_stopped ops d1 else Some (Inr (), d1))"

datatype test_action = Move u8 | Speed u8

fun run_actions :: "'d driver_ops \<Rightarrow> test_action list \<Rightarrow> 'd \<Rightarrow> ((exn + unit) \<times> 'd) option" where
  "run_actions ops [] d = Some (Inr (), d)"
| "run_actions ops (Speed v # as) d = run_actions ops as (op_set_speed ops v d)"
| "run_actions ops (Move p # as) d =
     (case op_set_gripper_position ops p d of
        (Inl e, d1) \<Rightarrow> Some (Inl e, d1)
      | (Inr _, d1) \<Rightarrow>
          (case wait_stopped ops d1 of
             None \<Rightarrow> None
           | Some (Inl e, d2) \<Rightarrow> Some (Inl e, d2)
           | Some (Inr _, d2) \<Rightarrow> run_actions ops as d2))"

definition test_sequence :: "test_action list" where
  "test_sequence = [Move 0xFF, Move 0x00, Move 0x80, Move 0x00, Speed 0x0F, Move 0xFF, Speed 0xFF, Move 0x00]"

definition test_gripper :: "'d driver_ops \<Rightarrow> 'd \<Rightarrow> (int \<times> 'd) option" where
  "test_gripper ops d =
     (case op_connect ops d of
        (Inl _, d1) \<Rightarrow> Some (1, d1)
      | (Inr connected_now, d1) \<Rightarrow>
          (if \<not> connected_now then Some (1, d1)
           else
             (case op_deactivate ops d1 of
                (Inl _, d2) \<Rightarrow> Some (1, d2)
              | (Inr _, d2) \<Rightarrow>
                  (case op_activate ops d2 of
                     None \<Rightarrow> None
                   | Some (Inl _, d3) \<Rightarrow> Some (1, d3)
                   | Some (Inr _, d3) \<Rightarrow>
                       map_option (\<lambda>(r, d4). (case r of Inl _ \<Rightarrow> 1 | Inr _ \<Rightarrow> 0, d4)) (run_actions ops test_sequence d3)))))"

text \<open>\<open>s\<close> and \<open>d\<close> are the new port and the storage of the new driver.\<close>

definition gripper_test_main :: "string list \<Rightarrow> serial_port \<Rightarrow> default_driver \<Rightarrow> (test_outcome \<times> default_driver) option" where
  "gripper_test_main argv s d =
     (case parse_command_line argv test_command_line of
        (ok, calls, _) \<Rightarrow>
          (case test_handlers calls default_test_settings of
             Inl out \<Rightarrow> Some (out, d)
           | Inr ts \<Rightarrow>
               (if \<not> ok then Some (Exit 1, d)
                else
                  (case seconds_to_ms (ts_timeout ts) of
                     None \<Rightarrow> Some (Undefined_conversion, d)
                   | Some ms \<Rightarrow>
                       (let s1 = serial_set_timeout ms (serial_set_baudrate (word_of_int (ts_baudrate ts))
                              (serial_set_port (ts_port ts) s));
                            d1 = set_slave_address (word_of_int (ts_slave_address ts)) (DefaultDriver s1 d) in
                        map_option (\<lambda>(code, d2). (Exit code, d2)) (test_gripper default_driver_ops d1))))))"

section \<open>The sequence of movements\<close>

text \<open>A sequence that ends normally is the sequence of its parts.\<close>

lemma run_actions_append:
  "run_actions ops (as @ bs) d =
     (case run_actions ops as d of
        None \<Rightarrow> None
      | Some (Inl e, d1) \<Rightarrow> Some (Inl e, d1)
      | Some (Inr _, d1) \<Rightarrow> run_actions ops bs d1)"
  by (induction ops as d rule: run_actions.induct) (auto split: prod.splits sum.splits option.splits)

text \<open>A wait that ends without an exception ends with a status in which the gripper does not move.\<close>

lemma wait_stopped_last:
  assumes "wait_stopped ops d = Some q" "fst q = Inr u"
  shows "\<exists>d1. op_gripper_is_moving ops d1 = (Inr False, snd q)"
proof -
  have "fst q = Inr u \<longrightarrow> (\<exists>d1. op_gripper_is_moving ops d1 = (Inr False, snd q))"
  proof (rule wait_stopped.raw_induct [where P =
        "\<lambda>ops d q. fst q = Inr u \<longrightarrow> (\<exists>d1. op_gripper_is_moving ops d1 = (Inr False, snd q))", OF _ assms(1)])
    fix f :: "'a driver_ops \<Rightarrow> 'a \<Rightarrow> ((exn + unit) \<times> 'a) option" and ops d q
    assume IH: "\<And>ops d q. f ops d = Some q \<Longrightarrow> fst q = Inr u \<longrightarrow> (\<exists>d1. op_gripper_is_moving ops d1 = (Inr False, snd q))"
      and eq: "(case op_gripper_is_moving ops d of (Inl e, d1) \<Rightarrow> Some (Inl e, d1)
        | (Inr moving, d1) \<Rightarrow> if moving then f ops d1 else Some (Inr (), d1)) = Some q"
    obtain r d1 where r: "op_gripper_is_moving ops d = (r, d1)" by fastforce
    show "fst q = Inr u \<longrightarrow> (\<exists>d1. op_gripper_is_moving ops d1 = (Inr False, snd q))"
      using eq IH [of ops d1 q] r by (cases r) (auto split: if_splits)
  qed
  then show ?thesis using assms(2) by simp
qed

text \<open>Waiting and moving keep the commanded speed, whichever driver is tested, so that a movement runs at the
  speed set before it.\<close>

locale moving_driver = gripper_driver +
  assumes moving_keeps: "op_gripper_is_moving ops d = (rm, d') \<Longrightarrow> speed d' = speed d \<and> force d' = force d"
begin

lemma wait_keeps:
  assumes "wait_stopped ops d = Some q" shows "speed (snd q) = speed d"
proof (rule wait_stopped.raw_induct [where P = "\<lambda>o' d q. o' = ops \<longrightarrow> speed (snd q) = speed d", OF _ assms, THEN mp, OF _ refl])
  fix f :: "'a driver_ops \<Rightarrow> 'a \<Rightarrow> ((exn + unit) \<times> 'a) option" and o' d q
  assume IH: "\<And>o' d q. f o' d = Some q \<Longrightarrow> o' = ops \<longrightarrow> speed (snd q) = speed d"
    and eq: "(case op_gripper_is_moving o' d of (Inl e, d1) \<Rightarrow> Some (Inl e, d1)
      | (Inr moving, d1) \<Rightarrow> if moving then f o' d1 else Some (Inr (), d1)) = Some q"
  obtain r d1 where r: "op_gripper_is_moving o' d = (r, d1)" by fastforce
  show "o' = ops \<longrightarrow> speed (snd q) = speed d"
    using eq IH [of o' d1 q] r moving_keeps [of d r d1] by (cases r) (auto split: if_splits)
qed

lemma moves_keep_speed:
  "run_actions ops (map Move ps) d = Some q \<Longrightarrow> speed (snd q) = speed d"
proof (induction ps arbitrary: d)
  case (Cons p ps)
  obtain r d1 where r: "op_set_gripper_position ops p d = (r, d1)" by fastforce
  show ?case
    using Cons.prems Cons.IH set_position_keeps [OF r] wait_keeps [of d1] r
    by (cases r) (auto split: option.splits sum.splits prod.splits)
qed auto

lemma slow_movement:
  assumes "run_actions ops (map Move ps @ Speed v # map Move qs) d = Some (Inr u, d')"
  shows "speed d' = v"
  using assms moves_keep_speed [of qs "op_set_speed ops v d1" for d1]
  by (auto simp: run_actions_append speed_set_speed split: option.splits sum.splits prod.splits)

end

interpretation tested_driver: moving_driver default_driver_ops dd_commanded_gripper_speed dd_commanded_gripper_force
  by unfold_locales
    (auto simp: default_driver_ops_def gripper_is_moving_def split: prod.splits sum.splits dest!: update_status_keeps)

text \<open>The test reduces the speed to 15 for one closing of the gripper.\<close>

lemma test_closes_slowly:
  "take 6 test_sequence = map Move [0xFF, 0x00, 0x80, 0x00] @ Speed 0x0F # map Move [0xFF]"
  "run_actions default_driver_ops (take 6 test_sequence) d = Some (Inr u, d') \<Longrightarrow> dd_commanded_gripper_speed d' = 0x0F"
proof -
  show seq: "take 6 test_sequence = map Move [0xFF, 0x00, 0x80, 0x00] @ Speed 0x0F # map Move [0xFF]"
    by (simp add: test_sequence_def)
  show "dd_commanded_gripper_speed d' = 0x0F"
    if "run_actions default_driver_ops (take 6 test_sequence) d = Some (Inr u, d')"
    using that unfolding seq by (rule tested_driver.slow_movement)
qed

end
