(* ===== verification/Controller_Feedback.thy ===== *)
theory Controller_Feedback
  imports Controller_Moves Fp_Error
begin

text \<open>
  The position that the 3F controller node reports to the clients of its GripperCommand action, given back
  as a goal. The conversion to a byte rounds to nearest, so that the errors of the eight operations in
  between, together far below half a step, do not show.
\<close>

section \<open>There and back\<close>

lemma rat_lround_near: "0 \<le> k \<Longrightarrow> \<bar>g - of_int k\<bar> < 1 / 2 \<Longrightarrow> rat_lround g = k"
proof (cases "g < 0")
  case True
  assume "0 \<le> k" "\<bar>g - of_int k\<bar> < 1 / 2"
  moreover from this True have "k = 0" by linarith
  ultimately show ?thesis using True by (auto simp: rat_lround_def floor_eq_iff)
next
  case False
  assume "\<bar>g - of_int k\<bar> < 1 / 2"
  then have "\<lfloor>g + 1 / 2\<rfloor> = k" unfolding floor_eq_iff by linarith
  then show ?thesis using False by (simp add: rat_lround_def)
qed

lemma gap_and_back_close:
  assumes w: "0 < w" "w \<le> b" "b \<le> 2 ^ 21 * w" "tiny \<le> w / 2 ^ 60" and q: "0 \<le> q" "q \<le> 1"
  defines "d \<equiv> rnd (b - gap_of b w q)"
  shows "\<bar>d - q * w\<bar> \<le> w / 2 ^ 28" "\<bar>rnd (d / w) - q\<bar> \<le> 1 / 2 ^ 27"
proof -
  have t: "tiny \<le> 1 / 2 ^ 60" by (simp add: tiny_def)
  have "\<bar>rnd q - q\<bar> \<le> 0 + 1 / 2 ^ 51" by (rule rnd_close) (use q t in auto)
  then have "\<bar>rnd q * w - q * w\<bar> \<le> w / 2 ^ 51" using close_scaled(1) [of "rnd q" q _ w] w(1) by fastforce
  moreover have qw: "0 \<le> q * w" "q * w \<le> w" using q w(1) by (simp_all add: mult_left_le_one_le)
  moreover have bq: "\<bar>b - q * w\<bar> \<le> b" using qw w(2) by linarith
  ultimately have "\<bar>rnd (rnd q * w) - q * w\<bar> \<le> w / 2 ^ 51 + w / 2 ^ 51"
    by (intro rnd_close) (use w(1,4) in auto)
  then have "\<bar>(b - rnd (rnd q * w)) - (b - q * w)\<bar> \<le> w / 2 ^ 50"
    by (simp add: abs_minus_commute)
  then have "\<bar>gap_of b w q - (b - q * w)\<bar> \<le> w / 2 ^ 50 + b / 2 ^ 51"
    unfolding gap_of_def by (rule rnd_close) (use w bq in auto)
  from abs_le_D1 [OF this] abs_le_D2 [OF this] have "\<bar>(b - gap_of b w q) - q * w\<bar> \<le> w / 2 ^ 29"
    using w(1,3) by (intro abs_leI) simp_all
  then have "\<bar>d - q * w\<bar> \<le> w / 2 ^ 29 + w / 2 ^ 51"
    unfolding d_def by (rule rnd_close) (use w qw in auto)
  then show d: "\<bar>d - q * w\<bar> \<le> w / 2 ^ 28" using w(1) by simp
  have "\<bar>d / w - q\<bar> \<le> 1 / 2 ^ 28" using close_scaled(2) [OF d w(1)] w(1) by simp
  then have "\<bar>rnd (d / w) - q\<bar> \<le> 1 / 2 ^ 28 + 1 / 2 ^ 51" by (rule rnd_close) (use q t in auto)
  then show "\<bar>rnd (d / w) - q\<bar> \<le> 1 / 2 ^ 27" by simp
qed

section \<open>The reported position as a goal\<close>

lemma range_width:
  assumes "0 \<le> a" "a < b" "is_double (Fin b)" "1 / 2 ^ 900 \<le> b" "b \<le> 2 ^ 20 * (b - a)"
  defines "w \<equiv> rnd (b - a)"
  shows "0 < w" "w \<le> b" "b \<le> 2 ^ 21 * w" "tiny \<le> w / 2 ^ 60"
proof -
  have t: "tiny \<le> (b - a) / 2 ^ 100"
  proof -
    have "tiny \<le> 1 / 2 ^ 900 / 2 ^ 120" by (simp add: tiny_def)
    also have "\<dots> \<le> b / 2 ^ 120" using assms(4) by (intro divide_right_mono) simp_all
    also have "\<dots> \<le> (b - a) / 2 ^ 100" using assms(5) by simp
    finally show ?thesis .
  qed
  have "\<bar>w - (b - a)\<bar> \<le> (b - a) / 2 ^ 53 + tiny" using rnd_error [of "b - a"] assms(2) by (simp add: w_def)
  moreover have "(D :: rat) / 2 \<le> w" if "\<bar>w - D\<bar> \<le> D / 2 ^ 53 + tiny" "tiny \<le> D / 2 ^ 100" "0 < D" for D
    using abs_le_D2 [OF that(1)] that(2,3) by simp
  ultimately have w: "(b - a) / 2 \<le> w" using t assms(2) by simp
  then show "0 < w" using assms(2) by simp
  show "w \<le> b" using dsub_between(3) [OF assms(3,1)] assms(2) by (simp add: w_def)
  show "b \<le> 2 ^ 21 * w" using assms(5) w by simp
  show "tiny \<le> w / 2 ^ 60" using t w tiny_bounds(1) by simp
qed

lemma position_to_raw_of_reported:
  fixes raw :: u8
  assumes "gripper_command_closed_position_m p = Fin a" "gripper_command_max_opening_m p = Fin b"
    "0 \<le> a" "a < b" "is_double (Fin a)" "is_double (Fin b)"
    "1 \<le> gripper_command_closed_raw p" "gripper_command_closed_raw p \<le> 255"
    "1 / 2 ^ 900 \<le> b" "b \<le> 2 ^ 20 * (b - a)"
  shows "gripper_command_position_to_raw p (gripper_command_raw_to_position p raw) =
    Some (of_int (min (uint raw) (gripper_command_closed_raw p)))"
proof -
  define r k w where "r = gripper_command_closed_raw p" and "k = min (uint raw) r" and "w = rnd (b - a)"
  define x where "x = gap_of b w (of_int k / of_int r)"
  define d where "d = rnd (b - x)"
  have r: "1 \<le> r" "r \<le> 255" "0 \<le> k" "k \<le> r" using assms(7,8) uint_lt2p [of raw] by (auto simp: r_def k_def)
  note w = range_width [OF assms(3,4,6,9,10), folded w_def]
  have q: "(0 :: rat) \<le> of_int k / of_int r" "(of_int k / of_int r :: rat) \<le> 1" using r by simp_all
  note close = gap_and_back_close [OF w q, folded x_def d_def]
  have x: "gripper_command_raw_to_position p raw = Fin x" "0 \<le> x" "x \<le> b"
    using raw_to_position_eq [OF assms(1-8), of raw] by (simp_all add: x_def k_def r_def w_def)
  have dx: "dsub (Fin b) (Fin x) = Fin d" "dsub (Fin b) (Fin a) = Fin w"
    using dsub_between(1) [OF assms(6)] x assms(3,4) by (simp_all add: d_def w_def)
  have "\<bar>rnd (d / w)\<bar> \<le> 2" "\<bar>d / w\<bar> \<le> 4096"
  proof -
    have "\<bar>rnd (d / w)\<bar> \<le> 2 * 1" by (rule close_bounded [OF close(2)]) (use q in simp_all)
    then show "\<bar>rnd (d / w)\<bar> \<le> 2" by simp
    have "\<bar>of_int k / of_int r * w\<bar> \<le> w"
      using mult_nonneg_nonneg [OF q(1), of w] mult_right_mono [OF q(2), of w] w(1) by (intro abs_leI) simp_all
    then have "\<bar>d\<bar> \<le> 2 * w" by (rule close_bounded [OF close(1)]) (use w(1) in simp)
    then have "\<bar>d\<bar> / w \<le> 2 * w / w" using w(1) by (intro divide_right_mono) simp_all
    then show "\<bar>d / w\<bar> \<le> 4096" using w(1) by (simp add: abs_divide)
  qed
  then have f: "ddiv (Fin d) (Fin w) = Fin (rnd (d / w))" using w(1) by (simp add: mk_small)
  have "\<bar>rnd (d / w) * of_int r - of_int k\<bar> \<le> 1 / 2 ^ 27 * of_int r"
    using close_scaled(1) [OF close(2), of "of_int r"] r by simp
  moreover have "(1 / 2 ^ 27 * of_int r :: rat) \<le> 1 / 2 ^ 19" using r(2) by simp
  ultimately have e: "\<bar>of_int r * rnd (d / w) - of_int k\<bar> \<le> 1 / 2 ^ 19" by (simp add: mult.commute)
  have "\<bar>rnd (of_int r * rnd (d / w)) - of_int k\<bar> \<le> 1 / 2 ^ 19 + 256 / 2 ^ 51"
    using e by (rule rnd_close) (use r in \<open>simp_all add: tiny_def\<close>)
  then have "rat_lround (rnd (of_int r * rnd (d / w))) = k" using r(3) by (intro rat_lround_near) simp_all
  moreover have "mk (of_int r * rnd (d / w)) = Fin (rnd (of_int r * rnd (d / w)))"
  proof (rule mk_small)
    have "\<bar>of_int r * rnd (d / w)\<bar> \<le> 2 * 255" by (rule close_bounded [OF e]) (use r in simp_all)
    then show "\<bar>of_int r * rnd (d / w)\<bar> \<le> 4096" by simp
  qed
  moreover have "of_integer r = Fin (of_int r)" using r by (intro of_integer_exact) simp
  ultimately have "lround_byte (dmul (of_integer r) (ddiv (Fin d) (Fin w))) = Some (of_int k)"
    using r unfolding f by (simp add: lround_byte_def lround_def to_int64_def fits_int64_def)
  then show ?thesis unfolding gripper_command_position_to_raw_def Let_def assms(1,2) x(1) dx r_def k_def .
qed

text \<open>With the range from 0.02 to 0.155 the reported position of a closed gripper is below the range.\<close>

definition open_155 :: rat where "open_155 = rnd (155 / 1000)"
definition closed_20 :: rat where "closed_20 = rnd (20 / 1000)"

lemma range_20_155:
  "open_155 = 5584463537939415 / 2 ^ 55" "closed_20 = 5764607523034235 / 2 ^ 58"
  "gap_of open_155 (rnd (open_155 - closed_20)) 1 = 5764607523034232 / 2 ^ 58"
proof -
  show b: "open_155 = 5584463537939415 / 2 ^ 55"
    unfolding open_155_def by (subst rnd_digits [where k = 55 and n = 5584463537939415]) simp_all
  show a: "closed_20 = 5764607523034235 / 2 ^ 58"
    unfolding closed_20_def by (subst rnd_digits [where k = 58 and n = 5764607523034235]) simp_all
  have w: "rnd (open_155 - closed_20) = 4863887597560136 / 2 ^ 55"
    unfolding a b by (subst rnd_digits [where k = 55 and n = 4863887597560136]) simp_all
  have one: "rnd 1 = 1" "rnd (4863887597560136 / 2 ^ 55) = 4863887597560136 / 2 ^ 55"
    by (simp add: rnd_representable, subst rnd_digits [where k = 55 and n = 4863887597560136]) simp_all
  have t: "rnd (rnd 1 * rnd (open_155 - closed_20)) = 4863887597560136 / 2 ^ 55" by (simp only: w one mult_1)
  show "gap_of open_155 (rnd (open_155 - closed_20)) 1 = 5764607523034232 / 2 ^ 58"
    unfolding gap_of_def t unfolding b by (subst rnd_digits [where k = 58 and n = 5764607523034232]) simp_all
qed

text \<open>C21. What the node reports as the position of the gripper is a goal that keeps it: for valid parameters whose
  range is not negligible against the opening, converting the reported position back yields exactly the
  byte it came from, or the configured closed byte for a gripper closed further. If the closed position
  is zero, as configured, the goal handler accepts it. For other ranges the reported position can lie below
  the configured closed position by a rounding error and be rejected: so for 0.02 and 0.155, at or past the
  closed byte.\<close>

theorem reported_position_keeps_the_gripper:
  fixes status :: status
  assumes "\<not> bad_compatibility p" "doubles_ok p" "gripper_command_closed_position_m p = Fin a"
    "gripper_command_max_opening_m p = Fin b" "1 / 2 ^ 900 \<le> b" "b \<le> 2 ^ 20 * (b - a)"
    and "ct_parameters c = p" "\<not> ct_busy c"
  defines "x \<equiv> gs_position (fill_gripper_command_state p status)" and "raw \<equiv> uint (s_actual_position_a status)"
  shows "gripper_command_position_to_raw p x = Some (of_int (min raw (gripper_command_closed_raw p))) \<and>
    (a = 0 \<longrightarrow> fst (handle_gripper_command_goal x (Fin 0) c) = ACCEPT_AND_EXECUTE) \<and>
    (a = closed_20 \<and> b = open_155 \<and> gripper_command_closed_raw p \<le> raw \<longrightarrow>
      fst (handle_gripper_command_goal x (Fin 0) c) = REJECT)"
proof -
  let ?r = "gripper_command_closed_raw p"
  have p: "0 \<le> a" "a < b" "is_double (Fin a)" "is_double (Fin b)" "1 \<le> ?r" "?r \<le> 255"
    using compatible_parameters [OF assms(1,2)] assms(3,4) by (metis double.inject)+
  have x: "x = gripper_command_raw_to_position p (s_actual_position_a status)"
    by (simp add: x_def fill_gripper_command_state_def)
  note eq = raw_to_position_eq [OF assms(3,4) p, of "s_actual_position_a status", folded x]
  have "gripper_command_position_to_raw p x = Some (of_int (min raw ?r))"
    unfolding x raw_def by (rule position_to_raw_of_reported [OF assms(3,4) p assms(5,6)])
  moreover have "fst (handle_gripper_command_goal x (Fin 0) c) = ACCEPT_AND_EXECUTE" if "a = 0"
    using eq assms(3,4,7,8) that by (simp add: handle_gripper_command_goal_def Let_def isfinite_def)
  moreover have "fst (handle_gripper_command_goal x (Fin 0) c) = REJECT"
    if "a = closed_20 \<and> b = open_155 \<and> ?r \<le> raw"
  proof -
    have "of_int (min raw ?r) / of_int ?r = (1 :: rat)" using that p(5) by simp
    then have "x = Fin (5764607523034232 / 2 ^ 58)"
      using eq(1) range_20_155(3) that by (simp add: raw_def del: of_int_min)
    then have "dlt x (gripper_command_closed_position_m p)" using assms(3) that by (simp add: range_20_155(2))
    then show ?thesis using assms(7) by (simp add: handle_gripper_command_goal_def Let_def)
  qed
  ultimately show ?thesis by blast
qed

theorem reported_position_keeps_the_gripper_witness:
  "gripper_command_position_to_raw demo_parameters
     (gs_position (fill_gripper_command_state demo_parameters (Status\<lparr>s_actual_position_a := 100\<rparr>))) = Some 100"
proof -
  have "\<not> bad_compatibility demo_parameters"
    by (simp add: bad_compatibility_def demo_parameters_def dle_def deq_def isfinite_def)
  moreover have "doubles_ok demo_parameters"
    using is_double_of_int [of 0] is_double_of_int [of 2] is_double_of_int [of 15] is_double_of_int [of 60] is_double_of_int [of 30]
    by (simp add: doubles_ok_def demo_parameters_def)
  ultimately show ?thesis
    using reported_position_keeps_the_gripper [of demo_parameters 0 2 "demo_controller (sconst 0)" "Status\<lparr>s_actual_position_a := 100\<rparr>"]
    by (simp add: demo_parameters_def demo_controller_def)
qed

end
