(* ===== verification/Ft_Descriptors.thy ===== *)
theory Ft_Descriptors
  imports Rq_Sensor_Modbus
begin

text \<open>
  What \<^verbatim>\<open>rq_sensor_com.cpp\<close> does with the descriptors it opens: which ones the discovery of the sensor
  closes, and which one it keeps. Between two discoveries no function of the driver opens or closes one.
\<close>

section \<open>Functions that keep the descriptor\<close>

definition port_of :: "rq_com \<Rightarrow> int \<times> int list" where
  "port_of c = (rq_fd_connexion c, rq_closed c)"

named_theorems port_kept

lemma read_port [port_kept]: "port_of (snd (rq_com_read_port n c)) = port_of c"
  by (simp add: rq_com_read_port_def port_of_def)

lemma write_port [port_kept]: "port_of (rq_com_write_port bs c) = port_of c"
  by (simp add: rq_com_write_port_def port_of_def)

lemma decode_port: "port_of (fst (rq_com_decode i s)) = port_of (fst s)"
  by (cases s) (simp add: rq_com_decode_def Let_def port_of_def)

lemma search_port: "port_of (fst (rq_com_search n s)) = port_of (fst s)"
  by (induction n s rule: rq_com_search.induct) (simp_all add: decode_port)

lemma search_messages_port: "port_of (rq_com_search_messages c) = port_of c"
proof -
  obtain c1 l b where s: "rq_com_search (rq_rcv_len2 c - 15) (c, 0, False) = (c1, l, b)" by (metis prod_cases3)
  then have "port_of c1 = port_of c" using search_port [of "rq_rcv_len2 c - 15" "(c, 0, False)"] by simp
  then show ?thesis using s by (simp add: rq_com_search_messages_def rq_com_shift_def Let_def port_of_def)
qed

lemma receive_port: "port_of (rq_com_receive c) = port_of c"
  by (simp add: rq_com_receive_def rq_com_read_port_def Let_def port_of_def split: prod.splits)

lemma listen_port [port_kept]: "port_of (rq_com_listen_stream c) = port_of c"
  by (simp add: rq_com_listen_stream_def search_messages_port receive_port)
    (simp add: rq_com_count_valid_def rq_com_count_stream_def rq_com_zero_def port_of_def)

lemma listen_until_port [port_kept]: "port_of (listen_until_detected k c) = port_of c"
  by (induction k c rule: listen_until_detected.induct) (simp_all add: port_kept)

lemma stop_stream_port:
  assumes "rq_com_stop_stream_after_boot c = Some c'" shows "port_of c' = port_of c"
proof (rule rq_com_stop_stream_after_boot.raw_induct [where P = "\<lambda>c c'. port_of c' = port_of c", OF _ assms])
  fix stop c c'
  assume IH: "\<And>c c'. stop c = Some c' \<Longrightarrow> port_of c' = port_of c"
    and r: "(if rq_stream_detected c
      then let c1 = c\<lparr>rq_jam_counter := rq_jam_counter c + 1\<rparr>
           in stop (if rq_jam_counter c1 = 1 then rq_com_send_jam_signal c1 else (rq_com_listen_stream c1)\<lparr>rq_jam_counter := 0\<rparr>)
      else Some c) = Some c'"
  let ?c = "c\<lparr>rq_jam_counter := rq_jam_counter c + 1\<rparr>"
  have "port_of (rq_com_listen_stream ?c) = port_of ?c" by (rule listen_port)
  then have "port_of (if rq_jam_counter ?c = 1 then rq_com_send_jam_signal ?c else (rq_com_listen_stream ?c)\<lparr>rq_jam_counter := 0\<rparr>) = port_of c"
    by (simp add: rq_com_send_jam_signal_def rq_com_write_port_def port_of_def)
  with r IH show "port_of c' = port_of c" unfolding Let_def by (metis option.inject)
qed

lemma reply_read_port: "reply_read r c = Inr (x, c1) \<Longrightarrow> port_of c1 = port_of c"
  using read_port [of "nat (int MP_BUFF_SIZE - rp_length r)" c]
  by (auto simp: reply_read_def Let_def split: prod.splits if_splits)

lemma wait_03_port: "rq_com_wait_for_fc_03_echo room c = Inr (bs, c1) \<Longrightarrow> port_of c1 = port_of c"
  by (auto simp: rq_com_wait_for_fc_03_echo_def Let_def port_of_def split: sum.splits prod.splits
      dest!: reply_read_port)

lemma retry_03_port: "fc_03_retry k room c = Inr (bs, c1) \<Longrightarrow> port_of c1 = port_of c"
  by (induction k room c rule: fc_03_retry.induct) (auto split: sum.splits if_splits dest: wait_03_port)

lemma send_fc_03_port: "rq_com_send_fc_03 base n c = Inr (regs, c1) \<Longrightarrow> port_of c1 = port_of c"
  using write_port [of "fc_03_frame base n" c]
  by (auto simp: rq_com_send_fc_03_def rq_com_send_fc_03_request_def split: sum.splits if_splits dest!: retry_03_port)

lemma tentative_port: "rq_com_tentative_connexion c = Some (Inr (found, c1)) \<Longrightarrow> port_of c1 = port_of c"
  by (auto simp: rq_com_tentative_connexion_def Let_def port_kept split: option.splits sum.splits if_splits
      dest!: send_fc_03_port stop_stream_port)

section \<open>Discovery\<close>

text \<open>One device: it is opened, and closed again unless it is the sensor.\<close>

lemma identify_port:
  assumes "rq_com_identify_device name dev c = Some (Inr (found, c1))"
  shows "rq_fd_connexion c1 = dev_fd dev" "rq_closed c1 = rq_closed c @ (if found \<or> dev_fd dev = -1 then [] else [dev_fd dev])"
    "found \<Longrightarrow> dev_fd dev \<noteq> -1"
  using assms
  by (auto simp: rq_com_identify_device_def Let_def port_of_def split: if_splits option.splits sum.splits bool.splits
      dest!: tentative_port)

definition serial_entry :: "string \<times> rq_device \<Rightarrow> bool" where
  "serial_entry e \<longleftrightarrow> c_strstr (fst e) ''ttyS'' \<or> c_strstr (fst e) ''ttyUSB''"

definition opened_by :: "(string \<times> rq_device) list \<Rightarrow> int list" where
  "opened_by es = filter (\<lambda>fd. fd \<noteq> -1) (map (dev_fd \<circ> snd) es)"

lemma opened_by_Cons: "opened_by (e # es) = (if dev_fd (snd e) = -1 then [] else [dev_fd (snd e)]) @ opened_by es"
  by (simp add: opened_by_def)

lemma opened_by_snoc: "opened_by (es @ [e]) = opened_by es @ (if dev_fd (snd e) = -1 then [] else [dev_fd (snd e)])"
  by (simp add: opened_by_def)

lemma scan_devices_port:
  "scan_devices es c = Some (Inr (found, c')) \<Longrightarrow>
   \<exists>tried rest. filter serial_entry es = tried @ rest \<and>
     rq_closed c' = rq_closed c @ (if found then butlast (opened_by tried) else opened_by tried) \<and>
     (found \<longrightarrow> opened_by tried \<noteq> []) \<and> (\<not> found \<longrightarrow> rest = []) \<and>
     rq_fd_connexion c' = (if tried = [] then rq_fd_connexion c else dev_fd (snd (last tried)))"
proof (induction es c rule: scan_devices.induct)
  case (2 name dev es c)
  show ?case
  proof (cases "serial_entry (name, dev)")
    case True
    then obtain b c1 where 1: "rq_com_identify_device name dev c = Some (Inr (b, c1))"
      using 2(3) by (auto simp: serial_entry_def split: option.splits sum.splits)
    note ip = identify_port [OF 1]
    show ?thesis
    proof (cases b)
      case True
      then have "found" "c' = c1" using 2(3) 1 \<open>serial_entry (name, dev)\<close> by (auto simp: serial_entry_def)
      then show ?thesis using ip True \<open>serial_entry (name, dev)\<close>
        by (intro exI [of _ "[(name, dev)]"] exI [of _ "filter serial_entry es"]) (simp add: opened_by_def)
    next
      case False
      then have "scan_devices es c1 = Some (Inr (found, c'))" using 2(3) 1 \<open>serial_entry (name, dev)\<close> by (auto simp: serial_entry_def)
      moreover have "c_strstr name ''ttyS'' \<or> c_strstr name ''ttyUSB''" using \<open>serial_entry (name, dev)\<close> by (simp add: serial_entry_def)
      ultimately obtain tried rest where t: "filter serial_entry es = tried @ rest"
        "rq_closed c' = rq_closed c1 @ (if found then butlast (opened_by tried) else opened_by tried)"
        "found \<longrightarrow> opened_by tried \<noteq> []" "\<not> found \<longrightarrow> rest = []"
        "rq_fd_connexion c' = (if tried = [] then rq_fd_connexion c1 else dev_fd (snd (last tried)))"
        using 2(1) [OF _ 1 refl refl] False by auto
      then show ?thesis using ip(1,2) False \<open>serial_entry (name, dev)\<close>
        by (intro exI [of _ "(name, dev) # tried"] exI [of _ rest]) (auto simp: opened_by_Cons butlast_append)
    qed
  next
    case False
    then show ?thesis using 2 by (auto simp: serial_entry_def)
  qed
qed (auto simp: opened_by_def)

lemma scan_port:
  assumes "rq_sensor_com_scan (Some entries) c = Some (Inr (ret, c'))"
  shows "\<exists>tried rest. filter serial_entry entries = tried @ rest \<and>
     rq_closed c' = rq_closed c @ rq_fd_connexion c # (if ret = 0 then butlast (opened_by tried) else opened_by tried) \<and>
     (ret = 0 \<longrightarrow> opened_by tried \<noteq> []) \<and> (ret \<noteq> 0 \<longrightarrow> rest = []) \<and>
     rq_fd_connexion c' = (if tried = [] then rq_fd_connexion c else dev_fd (snd (last tried)))"
proof -
  let ?c = "c\<lparr>rq_closed := rq_closed c @ [rq_fd_connexion c]\<rparr>"
  obtain z where z: "scan_devices entries ?c = Some z" using assms by (auto simp: rq_sensor_com_scan_def)
  then obtain found where f: "z = Inr (found, c')" "ret = (if found then 0 else -1)"
    using assms by (cases z) (auto simp: rq_sensor_com_scan_def)
  from scan_devices_port [OF z [unfolded f(1)]] obtain tried rest where
    "filter serial_entry entries = tried @ rest"
    "rq_closed c' = rq_closed ?c @ (if found then butlast (opened_by tried) else opened_by tried)"
    "found \<longrightarrow> opened_by tried \<noteq> []" "\<not> found \<longrightarrow> rest = []"
    "rq_fd_connexion c' = (if tried = [] then rq_fd_connexion ?c else dev_fd (snd (last tried)))" by blast
  then show ?thesis using f(2) by (intro exI [of _ tried] exI [of _ rest]) simp
qed

lemma scan_starts_with_close:
  "rq_sensor_com_scan dir c = Some (Inr (ret, c')) \<Longrightarrow> \<exists>more. rq_closed c' = rq_closed c @ rq_fd_connexion c # more"
proof (cases dir)
  case (Some entries)
  assume "rq_sensor_com_scan dir c = Some (Inr (ret, c'))"
  then show ?thesis using scan_port Some by blast
qed (auto simp: rq_sensor_com_scan_def)

lemma at_port:
  assumes "rq_sensor_com_at ftdi_id dev c = Some (Inr (ret, c'))"
  shows "rq_closed c' = rq_closed c @ (if ret = 0 \<or> dev_fd dev = -1 then [] else [dev_fd dev])"
proof -
  obtain z where z: "rq_com_identify_device ftdi_id dev c = Some z" using assms by (auto simp: rq_sensor_com_at_def)
  then obtain found where "z = Inr (found, c')" "ret = (if found then 0 else -1)"
    using assms by (cases z) (auto simp: rq_sensor_com_at_def)
  then show ?thesis using identify_port(2) z by simp
qed

text \<open>C30. Which descriptors the discovery closes. A scan of the serial devices closes the descriptor it finds
  stored, then every one it opens on the way, exactly once and in order, except that of the sensor, which
  it keeps. But if the last device it tried was opened and closed again, its descriptor stays stored, so that the
  next scan closes it a second time, whatever it stands for by then (if that device could not be opened,
  -1 is stored and nothing is closed twice); and a connection to a named device does not close
  the descriptor of the connection before it at all.\<close>

theorem discovery_descriptors:
  assumes "rq_sensor_com_scan (Some entries) c = Some (Inr (ret, c1))"
  shows "(\<exists>tried rest. filter serial_entry entries = tried @ rest \<and>
      rq_closed c1 = rq_closed c @ rq_fd_connexion c # (if ret = 0 then butlast (opened_by tried) else opened_by tried) \<and>
      (ret = 0 \<longrightarrow> opened_by tried \<noteq> []) \<and> (ret \<noteq> 0 \<longrightarrow> rest = []) \<and>
      rq_fd_connexion c1 = (if tried = [] then rq_fd_connexion c else dev_fd (snd (last tried)))) \<and>
    (ret \<noteq> 0 \<and> filter serial_entry entries \<noteq> [] \<and> rq_fd_connexion c1 \<noteq> -1 \<longrightarrow>
      (\<forall>dir ret2 c2. rq_sensor_com_scan dir c1 = Some (Inr (ret2, c2)) \<longrightarrow>
        (\<exists>closed more. rq_closed c1 = closed @ [rq_fd_connexion c1] \<and>
          rq_closed c2 = closed @ rq_fd_connexion c1 # rq_fd_connexion c1 # more))) \<and>
    (\<forall>ftdi_id dev ret2 c2. rq_sensor_com_at ftdi_id dev c1 = Some (Inr (ret2, c2)) \<longrightarrow>
      rq_closed c2 = rq_closed c1 @ (if ret2 = 0 \<or> dev_fd dev = -1 then [] else [dev_fd dev]))"
proof (intro conjI allI impI)
  note sp = scan_port [OF assms]
  then show "\<exists>tried rest. filter serial_entry entries = tried @ rest \<and>
      rq_closed c1 = rq_closed c @ rq_fd_connexion c # (if ret = 0 then butlast (opened_by tried) else opened_by tried) \<and>
      (ret = 0 \<longrightarrow> opened_by tried \<noteq> []) \<and> (ret \<noteq> 0 \<longrightarrow> rest = []) \<and>
      rq_fd_connexion c1 = (if tried = [] then rq_fd_connexion c else dev_fd (snd (last tried)))" .
  fix dir ret2 c2
  assume f: "ret \<noteq> 0 \<and> filter serial_entry entries \<noteq> [] \<and> rq_fd_connexion c1 \<noteq> -1" "rq_sensor_com_scan dir c1 = Some (Inr (ret2, c2))"
  obtain tried where t: "tried \<noteq> []" "rq_closed c1 = rq_closed c @ rq_fd_connexion c # opened_by tried"
    "rq_fd_connexion c1 = dev_fd (snd (last tried))" using sp f(1) by auto
  have "opened_by tried = opened_by (butlast tried) @ [rq_fd_connexion c1]"
    using f(1) t(1,3) opened_by_snoc [of "butlast tried" "last tried"] by simp
  then show "\<exists>closed more. rq_closed c1 = closed @ [rq_fd_connexion c1] \<and>
      rq_closed c2 = closed @ rq_fd_connexion c1 # rq_fd_connexion c1 # more"
    using t(2) scan_starts_with_close [OF f(2)] by auto
qed (rule at_port)

section \<open>A concrete run\<close>

text \<open>A serial device that is not a terminal is opened, closed, and closed again by the next scan.\<close>

theorem discovery_descriptors_witness:
  "\<exists>c1 c2. rq_sensor_com_scan (Some [(''ttyS0'', \<lparr>dev_fd = 7, dev_tty = None, dev_set_ok = False\<rparr>)]) (rq_com_initial (sconst None)) =
      Some (Inr (-1, c1)) \<and> rq_sensor_com_scan (Some []) c1 = Some (Inr (-1, c2)) \<and> rq_closed c2 = [-1, 7, 7]"
proof -
  let ?e = "(''ttyS0'', \<lparr>dev_fd = 7, dev_tty = None, dev_set_ok = False\<rparr>)" and ?c = "rq_com_initial (sconst None)"
  obtain c1 where c1: "rq_sensor_com_scan (Some [?e]) ?c = Some (Inr (-1, c1))" "rq_fd_connexion c1 = 7" "rq_closed c1 = [-1, 7]"
    by (simp add: rq_sensor_com_scan_def rq_com_identify_device_def set_com_attribs_def rq_com_initial_def)
  obtain c2 where c2: "rq_sensor_com_scan (Some []) c1 = Some (Inr (-1, c2))" "rq_closed c2 = rq_closed c1 @ [7]"
    by (simp add: rq_sensor_com_scan_def c1(2))
  have "filter serial_entry [?e] \<noteq> []" by (simp add: serial_entry_def)
  then have "\<exists>closed more. rq_closed c1 = closed @ [rq_fd_connexion c1] \<and>
      rq_closed c2 = closed @ rq_fd_connexion c1 # rq_fd_connexion c1 # more"
    using discovery_descriptors [OF c1(1), THEN conjunct2, THEN conjunct1, rule_format, OF _ c2(1)] c1(2) by simp
  then show ?thesis using c1 c2 by auto
qed

end
