(* ===== verification/Ft_Windows_Ports.thy ===== *)
theory Ft_Windows_Ports
  imports Ft_Descriptors
begin

text \<open>
  The other branch of the conditional compilation in \<^verbatim>\<open>rq_sensor_com.cpp\<close>: the discovery of the sensor on the
  serial ports of Windows. What the operating system answers for each port is a parameter. The handle
  \<^verbatim>\<open>hSerial\<close> is \<open>rq_fd_connexion\<close> here, with -1 for \<^verbatim>\<open>INVALID_HANDLE_VALUE\<close>, and the handles closed are
  \<open>rq_closed\<close>; a read that fails delivers no bytes.
\<close>

record dcb =
  dcb_BaudRate :: nat
  dcb_ByteSize :: nat
  dcb_StopBits :: nat
  dcb_Parity :: nat
  dcb_fParity :: bool
  dcb_fTXContinueOnXoff :: bool
  dcb_fOutX :: bool
  dcb_fInX :: bool
  dcb_fBinary :: bool
  dcb_fAbortOnError :: bool

record comm_timeouts =
  ReadIntervalTimeout :: nat
  ReadTotalTimeoutConstant :: nat
  ReadTotalTimeoutMultiplier :: nat
  WriteTotalTimeoutConstant :: nat
  WriteTotalTimeoutMultiplier :: nat

text \<open>The answers for one port: the handle of \<^verbatim>\<open>CreateFileA\<close>, the state of \<^verbatim>\<open>GetCommState\<close> if it succeeds, and
  whether a state and the timeouts can be set.\<close>

record win_port =
  wp_handle :: int
  wp_dcb :: "dcb option"
  wp_set_state :: "dcb \<Rightarrow> bool"
  wp_set_timeouts :: "comm_timeouts \<Rightarrow> bool"

definition serial_dcb :: "dcb \<Rightarrow> dcb" where
  "serial_dcb dcb = dcb
     \<lparr>dcb_BaudRate := 19200, dcb_ByteSize := 8, dcb_StopBits := 0, dcb_Parity := 0, dcb_fParity := False,
      dcb_fTXContinueOnXoff := True, dcb_fOutX := False, dcb_fInX := False, dcb_fBinary := True,
      dcb_fAbortOnError := False\<rparr>"

definition serial_timeouts :: comm_timeouts where
  "serial_timeouts =
     \<lparr>ReadIntervalTimeout = 0, ReadTotalTimeoutConstant = 1, ReadTotalTimeoutMultiplier = 0,
      WriteTotalTimeoutConstant = 1, WriteTotalTimeoutMultiplier = 0\<rparr>"

definition port_name :: "nat \<Rightarrow> string" where
  "port_name i = [CHR 0x5C, CHR 0x5C, CHR ''.'', CHR 0x5C] @ ''COM'' @ dec i"

definition close_handle :: "rq_com \<Rightarrow> rq_com" where
  "close_handle c = c\<lparr>rq_closed := rq_closed c @ [rq_fd_connexion c]\<rparr>"

text \<open>One pass of the loop: whether the sensor was found.\<close>

definition try_port :: "win_port \<Rightarrow> rq_com \<Rightarrow> (rq_fault + bool \<times> rq_com) option" where
  "try_port p c =
     (let c1 = c\<lparr>rq_fd_connexion := wp_handle p\<rparr> in
      if wp_handle p = -1 then Some (Inr (False, c1))
      else
        (case wp_dcb p of
           None \<Rightarrow> Some (Inr (False, (close_handle c1)\<lparr>rq_fd_connexion := -1\<rparr>))
         | Some dcb \<Rightarrow>
             if \<not> wp_set_state p (serial_dcb dcb) then Some (Inr (False, close_handle c1))
             else if \<not> wp_set_timeouts p serial_timeouts
             then Some (Inr (False, (close_handle c1)\<lparr>rq_fd_connexion := -1\<rparr>))
             else
               (case rq_com_tentative_connexion c1 of
                  None \<Rightarrow> None
                | Some (Inl e) \<Rightarrow> Some (Inl e)
                | Some (Inr (True, c2)) \<Rightarrow> Some (Inr (True, c2))
                | Some (Inr (False, c2)) \<Rightarrow> Some (Inr (False, close_handle c2)))))"

text \<open>The ports from \<open>i\<close> on, \<open>k\<close> of them; the name must fit the 13 characters of \<^verbatim>\<open>port\<close>.\<close>

fun try_ports :: "nat \<Rightarrow> nat \<Rightarrow> (string \<Rightarrow> win_port) \<Rightarrow> rq_com \<Rightarrow> (rq_fault + int \<times> rq_com) option" where
  "try_ports 0 i os c = Some (Inr (-1, c))"
| "try_ports (Suc k) i os c =
     (if length (port_name i) + 1 > 13 then Some (Inl Out_of_bounds)
      else
        (case try_port (os (port_name i)) c of
           None \<Rightarrow> None
         | Some (Inl e) \<Rightarrow> Some (Inl e)
         | Some (Inr (found, c1)) \<Rightarrow> if found then Some (Inr (0, c1)) else try_ports k (Suc i) os c1))"

definition rq_sensor_com_ports :: "(string \<Rightarrow> win_port) \<Rightarrow> rq_com \<Rightarrow> (rq_fault + int \<times> rq_com) option" where
  "rq_sensor_com_ports os c = try_ports 256 0 os c"

definition stop_connection :: "rq_com \<Rightarrow> rq_com" where
  "stop_connection c = (close_handle c)\<lparr>rq_fd_connexion := -1\<rparr>"

section \<open>The handles\<close>

lemma port_name_fits: "i < 256 \<Longrightarrow> length (port_name i) + 1 \<le> 13"
  using dec_length [of i 2] by (simp add: port_name_def)

lemma try_port_port:
  assumes "try_port p c = Some (Inr (found, c1))"
  shows "rq_closed c1 = rq_closed c @ (if found \<or> wp_handle p = -1 then [] else [wp_handle p])"
    "found \<Longrightarrow> wp_handle p \<noteq> -1 \<and> rq_fd_connexion c1 = wp_handle p"
  using assms
  by (auto simp: try_port_def close_handle_def Let_def port_of_def split: if_splits option.splits sum.splits bool.splits
      dest!: tentative_port)

definition handles :: "(string \<Rightarrow> win_port) \<Rightarrow> nat list \<Rightarrow> int list" where
  "handles os is = filter (\<lambda>h. h \<noteq> -1) (map (\<lambda>i. wp_handle (os (port_name i))) is)"

text \<open>The discovery closes every handle it opens except that of the sensor.\<close>

lemma try_ports_handles:
  "try_ports k i os c = Some (Inr (ret, c')) \<Longrightarrow>
   (ret = -1 \<and> rq_closed c' = rq_closed c @ handles os [i..<i + k]) \<or>
   (\<exists>j < k. ret = 0 \<and> rq_closed c' = rq_closed c @ handles os [i..<i + j] \<and>
      rq_fd_connexion c' = wp_handle (os (port_name (i + j))) \<and> rq_fd_connexion c' \<noteq> -1)"
proof (induction k i os c rule: try_ports.induct)
  case (2 k i os c)
  then obtain found c1 where t: "try_port (os (port_name i)) c = Some (Inr (found, c1))"
    by (auto split: if_splits option.splits sum.splits)
  note p = try_port_port [OF t]
  have up: "handles os [i..<Suc n] = handles os [i] @ handles os [Suc i..<Suc n]" if "i \<le> n" for n
    using that by (simp add: handles_def upt_conv_Cons del: upt_Suc)
  have l: "\<not> length (port_name i) + 1 > 13" using 2(2) by (auto split: if_splits)
  show ?case
  proof (cases found)
    case True
    then have "ret = 0" "c' = c1" using 2(2) t l by auto
    then show ?thesis using p True by (intro disjI2 exI [of _ 0]) (simp add: handles_def)
  next
    case False
    then have "try_ports k (Suc i) os c1 = Some (Inr (ret, c'))" using 2(2) t l by auto
    from 2(1) [OF l t refl refl False this] show ?thesis
    proof (elim disjE exE conjE)
      assume "ret = -1" "rq_closed c' = rq_closed c1 @ handles os [Suc i..<Suc i + k]"
      then show ?thesis using p(1) False up [of "i + k"] by (simp add: handles_def)
    next
      fix j assume "j < k" "ret = 0" "rq_closed c' = rq_closed c1 @ handles os [Suc i..<Suc i + j]"
        "rq_fd_connexion c' = wp_handle (os (port_name (Suc i + j)))" "rq_fd_connexion c' \<noteq> -1"
      then show ?thesis using p(1) False up [of "i + j"] by (intro disjI2 exI [of _ "Suc j"]) (simp add: handles_def)
    qed
  qed
qed (simp add: handles_def)

end
