(* ===== verification/Unit_Tests.thy ===== *)
theory Unit_Tests
  imports Driver_Factory Protocol_3f Joint_Mapping Data_Utils
begin

text \<open>
  The expectations of the unit tests of the C++ packages, evaluated on the model: \<^verbatim>\<open>robotiq_driver/tests\<close>
  and the tests of \<^verbatim>\<open>robotiq_3f_driver\<close> and \<^verbatim>\<open>robotiq_3f_state_publisher\<close>. They validate the definitions;
  the properties are in the other theories.
\<close>

section \<open>\<^verbatim>\<open>test_crc_utils.cpp\<close>, \<^verbatim>\<open>test_data_utils.cpp\<close>\<close>

lemma calculate_crc:
  "compute_crc [0xA1, 0xB2, 0xC3, 0xD4, 0xE5, 0xF6] = 0x97DA"
  "compute_crc [0xE2, 0x12, 0xF1, 0xFF, 0x00, 0xD2] = 0x2D0B"
  "compute_crc [0xFF, 0xFF, 0xFF, 0xFF, 0xFF, 0xFF] = 0x0194"
  "compute_crc [0x00, 0x00, 0x00, 0x00, 0x00, 0x00] = 0x001B"
  "compute_crc [0x31, 0x32, 0x33, 0x34, 0x35, 0x36, 0x37, 0x38, 0x39] = 0x374B"
  "compute_crc [0x80, 0x00, 0x00, 0x03] = 0x69E5"
  by code_simp+

lemma hexadecimal:
  "to_hex_u8 [255, 121, 56, 33, 125, 60] = ''FF 79 38 21 7D 3C''"
  "to_hex_u16 [1169, 58544, 14917, 42884, 36112, 16512, 33207, 62584, 30418] =
     ''0491 E4B0 3A45 A784 8D10 4080 81B7 F478 76D2''"
  by (simp_all add: to_hex_u8_def to_hex_u16_def vChars_def)

lemma binary_and_bytes:
  "to_binary_string 155 = ''10011011''" "get_msb 0x14A2 = 0x14" "get_lsb 0x14A2 = 0xA2"
  by (simp_all add: to_binary_string_def get_msb_def get_lsb_def upt_rec)

section \<open>\<^verbatim>\<open>test_default_serial_factory.cpp\<close>, \<^verbatim>\<open>test_default_driver_factory.cpp\<close>\<close>

lemma half_double: "\<bar>n\<bar> \<le> 2 ^ 53 \<Longrightarrow> mk (of_int n / 2) = Fin (of_int n / 2)"
proof -
  assume n: "\<bar>n\<bar> \<le> 2 ^ 53"
  have "representable (of_int n / 2)"
    unfolding representable_def using n by (intro exI [of _ n] exI [of _ "- 1"]) (simp add: power_int_minus field_simps)
  moreover have "\<bar>of_int n\<bar> \<le> DBL_MAX" using is_double_of_int [OF n] by (simp add: is_double_def)
  ultimately show ?thesis by (intro mk_double) (auto simp: is_double_def)
qed

lemma half_examples:
  "mk (1 / 2) = Fin (1 / 2)" "mk 500 = Fin 500" "mk 255 = Fin 255" "mk (255 / 2) = Fin (255 / 2)"
  using half_double [of 1] half_double [of 1000] half_double [of 510] half_double [of 255] by simp_all

lemmas factory_defs = DefaultSerialFactory_create_def DefaultDriverFactory_create_def create_driver_def parameter_or_def
  seconds_to_ms_def trunc_int64_def to_int64_def fits_int64_def double_to_u8_def rat_trunc_def any_driver_ops_def update_driver_def
  DefaultDriver_def serial_set_port_def serial_set_timeout_def serial_set_baudrate_def half_examples

lemma serial_with_default_parameters:
  "\<exists>s1. DefaultSerialFactory_create Map.empty s = Some (Inr s1) \<and> serial_get_port s1 = ''/dev/ttyUSB0'' \<and>
     serial_get_baudrate s1 = 115200 \<and> serial_get_timeout s1 = 500"
  by (simp add: factory_defs serial_get_port_def serial_get_baudrate_def serial_get_timeout_def)

lemma driver_with_default_parameters:
  "\<exists>r. DefaultDriverFactory_create Map.empty s d = Some (Inr (Real r)) \<and> dd_slave_address r = 9 \<and>
     dd_commanded_gripper_speed r = 0xFF \<and> dd_commanded_gripper_force r = 0xFF \<and> sp_sent (dd_serial r) = sp_sent s"
  by (simp add: factory_defs set_force_def set_speed_def set_slave_address_def)

lemma half_multiplier: "clamped_stod ''0.5'' = Inr (Fin (1 / 2))"
proof -
  have "\<not> (1 / 2 :: rat) < 2 powi (- 1022)" by (simp add: power_int_minus field_simps)
  then show ?thesis
    by (simp add: clamped_stod_def stod_def real_of_def digits_def digit_value_def value_of_def exponent_of_def sign_of_def
        code_def lower_def is_space_def Let_def finite_stod_def half_examples dclamp_def)
qed

lemma driver_with_given_parameters:
  "\<exists>r. DefaultDriverFactory_create [''slave_address'' \<mapsto> ''1'', ''gripper_speed_multiplier'' \<mapsto> ''0.5'',
       ''gripper_force_multiplier'' \<mapsto> ''0.5''] s d = Some (Inr (Real r)) \<and> dd_slave_address r = 1 \<and>
     dd_commanded_gripper_speed r = 0x7F \<and> dd_commanded_gripper_force r = 0x7F \<and> sp_sent (dd_serial r) = sp_sent s"
proof -
  have "stoul 16 ''1'' = Inr 1"
    by (simp add: stoul_def sign_of_def digits_def digit_value_def value_of_def is_space_def code_def lower_def skip_prefix_def Let_def)
  moreover have "\<lfloor>255 / 2 :: rat\<rfloor> = 127" by (simp add: floor_eq_iff)
  ultimately show ?thesis by (simp add: factory_defs half_multiplier set_force_def set_speed_def set_slave_address_def)
qed

section \<open>\<^verbatim>\<open>test_protocol.cpp\<close>\<close>

lemma packs_complete_process_image:
  "pack_command (Command\<lparr>c_activate := True, c_mode := MODE_SCISSOR, c_go_to := True, c_automatic_release := True,
     c_glove_mode := True, c_individual_finger_control := True, c_individual_scissor_control := True,
     c_position_a := 1, c_speed_a := 2, c_force_a := 3, c_position_b := 4, c_speed_b := 5, c_force_b := 6,
     c_position_c := 7, c_speed_c := 8, c_force_c := 9, c_position_scissor := 10, c_speed_scissor := 11, c_force_scissor := 12\<rparr>) =
   Inr [0x1F, 0x0D, 0x00, 1, 2, 3, 4, 5, 6, 7, 8, 9, 10, 11, 12, 0]"
  by (simp add: pack_command_def Command_def MODE_SCISSOR_def)

lemma rejects_invalid_mode: "\<exists>e. pack_command (Command\<lparr>c_mode := 4\<rparr>) = Inl e"
  by (simp add: pack_command_def)

lemma unpacks_complete_status_image:
  defines "s \<equiv> unpack_status [0xFD, 0xE4, 0x0A, 1, 2, 3, 4, 5, 6, 7, 8, 9, 10, 11, 12, 0]"
  shows "s_activated s" "s_mode s = 2" "s_go_to s" "s_initialization_status s = 3" "s_motion_status s = 3"
    "s_object_status_a s = 0" "s_object_status_b s = 1" "s_object_status_c s = 2" "s_object_status_scissor s = 3"
    "s_fault_status s = 0x0A" "s_requested_position_a s = 1" "s_actual_position_a s = 2" "s_current_a s = 3"
    "s_requested_position_b s = 4" "s_actual_position_b s = 5" "s_current_b s = 6"
    "s_requested_position_c s = 7" "s_actual_position_c s = 8" "s_current_c s = 9"
    "s_requested_position_scissor s = 10" "s_actual_position_scissor s = 11" "s_current_scissor s = 12"
  by (simp_all add: s_def unpack_status_def)

section \<open>\<^verbatim>\<open>test_joint_mapping.cpp\<close>\<close>

lemma rejects_invalid_tables:
  "\<exists>e. PiecewiseLinearMap [Fin 0] [Fin 0] = Inl e" "\<exists>e. PiecewiseLinearMap [Fin 0, Fin 1] [Fin 0] = Inl e"
  "\<exists>e. PiecewiseLinearMap [Fin 0, Fin 0] [Fin 0, Fin 1] = Inl e"
  by (simp_all add: PiecewiseLinearMap_def isfinite_def dle_def deq_def)

lemma interpolates_and_clamps:
  "\<exists>m. PiecewiseLinearMap [Fin 0, Fin 10, Fin 20] [Fin 0, Fin 2, Fin 3] = Inr m \<and> evaluate m (Fin (- 1)) = Some (Fin 0) \<and>
     evaluate m (Fin 5) = Some (Fin 1) \<and> evaluate m (Fin 15) = Some (Fin (5 / 2)) \<and> evaluate m (Fin 21) = Some (Fin 3)"
proof -
  have "mk 5 = Fin 5" "mk 10 = Fin 10" "mk 2 = Fin 2" "mk 1 = Fin 1" "mk (5 / 2) = Fin (5 / 2)"
    using half_double [of 10] half_double [of 20] half_double [of 4] half_double [of 2] half_double [of 5] by simp_all
  then show ?thesis using half_examples(1)
    by (simp add: PiecewiseLinearMap_def isfinite_def dle_def deq_def evaluate_def upper_bound_def Let_def dsub_def)
qed

lemma prefixes_all_joint_names:
  "length (joint_names ''cell_'') = 11" "\<forall>name \<in> set (joint_names ''cell_''). take 5 name = ''cell_''"
  "hd (joint_names ''cell_'') = ''cell_robotiq_3f_finger_a_proximal_joint''"
  "last (joint_names ''cell_'') = ''cell_robotiq_3f_finger_c_distal_joint''"
  by (simp_all add: joint_names_def)

end
