(* ===== verification/Spec2Isabelle.thy ===== *)
theory Spec2Isabelle
  imports Robotiq_3f_System Action_Server Driver_Shutdown Ft_Connection Ft_Test_Nodes
    Activation_Controller Gripper_Lifecycle Gripper_Position Gripper_Test
    Controller_Feedback Ft_Windows_Ports Unit_Tests
begin

text \<open>
  A verification development for the C++ software of the UR5 workcell: the drivers of a Robotiq
  two-finger gripper, of a Robotiq 3F gripper and of a Robotiq force/torque sensor, with the nodes and
  hardware components above them. Paths below are relative to \<^verbatim>\<open>src/ur5_ws/src/\<close>.

  \<^bold>\<open>The program\<close>

  \<^item> Two-finger gripper (\<^verbatim>\<open>ros2_robotiq/robotiq_driver\<close>): the control loop of ros2_control calls
    \<^verbatim>\<open>read\<close> and \<^verbatim>\<open>write\<close> of a hardware interface; a communication thread of its own sends position
    requests through a driver, which frames them for Modbus RTU with a CRC and sends them over a serial
    port, and reads the status back. A reactivation controller (\<^verbatim>\<open>robotiq_controllers\<close>) offers a
    service that asks for a new activation through two command interfaces. A factory builds the driver,
    or a fake one, from the parameters. \<^verbatim>\<open>robotiq_hardware_tests\<close> drives the gripper by hand.
  \<^item> 3F gripper (\<^verbatim>\<open>ur5_workcell/robotiq_3f\<close>): a controller node turns services and actions into
    commands on a topic; a driver node keeps a Modbus TCP connection, writes the latest command and
    publishes the status it polls; the controller and a joint state publisher follow the status.
  \<^item> Force/torque sensor (\<^verbatim>\<open>ros2_robotiq/robotiq_ft_sensor_hardware\<close>): a state machine starts the
    sensor with Modbus requests, then decodes the stream of messages it sends; a hardware component and
    a standalone node publish the values and forward commands.

  \<^bold>\<open>Theories\<close>

  \<^item> \<^verbatim>\<open>Prelude\<close>: the machine integers, the collections of simplification facts, lemmas on words and
    lists, decimal numbers. \<^verbatim>\<open>Fp\<close>: IEEE doubles as rationals with rounding to
    nearest even, infinities and one NaN, with the comparisons and conversions of C++; signed zeros
    are equal. \<^verbatim>\<open>Fp_Error\<close>: the error of a rounding. \<^verbatim>\<open>Number_Parsing\<close>: \<^verbatim>\<open>stoi\<close>, \<^verbatim>\<open>stoul\<close>, \<^verbatim>\<open>stod\<close>.
  \<^item> \<^verbatim>\<open>Rq_Crc\<close>, \<^verbatim>\<open>Crc_Utils\<close>: the two CRC routines; the table-driven one equals the bitwise one and
    detects two corrupted neighbouring bytes. \<^verbatim>\<open>Data_Utils\<close>: renderings and byte order.
  \<^item> \<^verbatim>\<open>Serial_Port\<close>, \<^verbatim>\<open>Gripper_Driver\<close> (the interface as a record of operations and the locale
    \<open>gripper_driver\<close>, its contract), \<^verbatim>\<open>Default_Driver\<close>, \<^verbatim>\<open>Fake_Driver\<close>, \<^verbatim>\<open>Driver_Factory\<close>: the
    three drivers (real, fake, whichever the factory chose) interpret the contract. Lemmas: retries,
    frames on the wire, decoding of the status from the bytes the port delivered, the one loop that may
    not end.
  \<^item> \<^verbatim>\<open>Hardware_Interface\<close>: the lifecycle, the control loop and the thread over any driver, as
    interleaved steps (\<open>hw_step\<close>). Lemmas: what a cycle sends, the range of what \<^verbatim>\<open>write\<close> stores,
    joining the thread. \<^verbatim>\<open>Gripper_Lifecycle\<close>: the callbacks in the order a managed lifecycle allows;
    lemmas: the thread and the link to the gripper in each primary state. \<^verbatim>\<open>Gripper_Position\<close>: a position
    read and commanded back loses at most one byte, and with the shipped parameter it does lose one.
    \<^verbatim>\<open>Activation_Controller\<close>: the service beside these steps; a request is one
    token that moves from the command interface to the answer. \<^verbatim>\<open>Command_Line\<close>, \<^verbatim>\<open>Gripper_Test\<close>:
    the hardware test.
  \<^item> \<^verbatim>\<open>Protocol_3f\<close>: the process images (\<^verbatim>\<open>protocol.cpp\<close>). \<^verbatim>\<open>Modbus_Tcp_Client\<close>: frames, deadlines
    and partial transfers (\<^verbatim>\<open>modbus_tcp_client.cpp\<close>). \<^verbatim>\<open>Driver_Node\<close>: the callback and the worker of
    \<^verbatim>\<open>driver_node.cpp\<close> as an inductive step relation with invariants over all interleavings; the
    link to the gripper is the locale the Modbus client interprets. \<^verbatim>\<open>Driver_Wire\<close>: every status it
    publishes, and the command that status acknowledges, traced to the bytes on the connection.
    \<^verbatim>\<open>Driver_Shutdown\<close>: the destructor beside the worker and the sleep it interrupts; it returns on
    every schedule that lets the worker run, though a notification can be lost.
  \<^item> \<^verbatim>\<open>Controller_Node\<close>, \<^verbatim>\<open>Controller_Commands\<close>, \<^verbatim>\<open>Controller_Conversions\<close>, \<^verbatim>\<open>Controller_Moves\<close>:
    \<^verbatim>\<open>controller_node.cpp\<close>. Waiting for a status is a loop over the passes in which callbacks of other
    threads may run. Lemmas: what a successful wait has seen, identifiers and validity of commands
    (with the driver of \<^verbatim>\<open>Driver_Node\<close> as receiver), conversions of positions and efforts, the outcome
    of activations and moves, and that every operation returns when the clock advances.
    \<^verbatim>\<open>Action_Server\<close>: the goal callbacks, the thread of the action, the services and the destructor as
    interleaved steps; lemmas: the steps of the thread compute the whole action, one operation at a time,
    every accepted goal is answered, the destructor returns wherever the thread is. \<^verbatim>\<open>Controller_Feedback\<close>: the position
    reported to clients converts back to the byte it came from.
  \<^item> \<^verbatim>\<open>Joint_Mapping\<close>: interpolation tables and the joint state publisher. Lemmas: the rounded
    interpolation, its error against the straight line and its direction; which statuses are shown.
  \<^item> \<^verbatim>\<open>Robotiq_3f_System\<close>: controller, driver and publisher together, over a middleware that may lose,
    delay and repeat messages: what the controller reports as successful was carried out by the gripper
    (a reset before the activation that follows it, in the order of the driver's writes), and what the publisher shows is what the gripper reported.
  \<^item> \<^verbatim>\<open>Rq_Sensor_Com\<close>, \<^verbatim>\<open>Rq_Sensor_Modbus\<close>, \<^verbatim>\<open>Rq_Sensor_State\<close>, \<^verbatim>\<open>Ft_Sensor\<close>: \<^verbatim>\<open>rq_sensor_com.cpp\<close>,
    \<^verbatim>\<open>rq_sensor_state.cpp\<close>, the component and the node. Lemmas: the decoder refines a view of the bytes
    received, a message round trip, lost streams, replies and requests, writes outside an array.
    \<^verbatim>\<open>Ft_Descriptors\<close>: which descriptors the discovery closes. \<^verbatim>\<open>Ft_Windows_Ports\<close>: the discovery of
    the Windows build. \<^verbatim>\<open>Ft_Connection\<close>: starting and stopping without a sensor. \<^verbatim>\<open>Ft_Test_Nodes\<close>: the two test nodes.
  \<^item> \<^verbatim>\<open>Unit_Tests\<close>: the expectations of the unit tests of the C++ packages, proved of the model.

  \<^bold>\<open>How code is modelled\<close>

  Structs and classes are records, operations are functions that return the new state, exceptions are
  \<open>Inl\<close> of a sum. The world outside (serial port, sockets, clocks, callbacks of other threads) is a
  stream or a list of results consumed in order, arbitrary in every theorem. Machine integers are
  words where they wrap. \<open>None\<close> is a result the code does not define (a conversion that does not fit, an
  access outside an array) or a call that never returns, as each theory says; loops without a bound in
  the code are \<^theory_text>\<open>partial_function\<close>s, and theorems state when they return. Loops with a bound
  have the bound of the code (5 attempts of the gripper driver, 100 replies awaited by the sensor
  driver) as the fuel of their recursion. Threads are sequences of steps that interleave. How fine they are
  is said in each theory: the worker and the callback of \<^verbatim>\<open>Driver_Node\<close> and the communication thread of
  \<^verbatim>\<open>Hardware_Interface\<close> step at their accesses to shared members, but a whole \<^verbatim>\<open>read\<close> or \<^verbatim>\<open>write\<close> of the
  control loop is one step beside them; the action thread of \<^verbatim>\<open>Action_Server\<close> steps at the borders of its
  wait and of every pass, at its answer, at the release of \<^verbatim>\<open>busy_\<close> and at its end; a service there is one
  step between taking and releasing \<^verbatim>\<open>busy_\<close>.

  \<^bold>\<open>Not modelled\<close>

  Log output, sleeps (but the one of the 3F driver that a stop interrupts), the middleware (executors,
  parameters, message transport, services beyond their handlers), the \<^verbatim>\<open>main\<close> functions other than
  those of the hardware test and of the joint state publisher, which only start and spin a node, and the
  reads and writes of the Windows build of the sensor driver (the same calls under other names; a read
  that fails delivers no bytes there). The Python packages (force/torque streamer, calibration GUI,
  simulation), descriptions, launch and configuration files and the container are other languages or
  data. In \<^verbatim>\<open>joint_state_publisher_node.cpp\<close> the arguments of the mapper are taken left to right, an order
  the language leaves open and that only decides which of two messages is thrown. Operations on doubles
  are rounded one by one, as on a processor without a fused multiplication and addition.
\<close>

end
